(* ===== verification/Prelude.thy ===== *)
theory Prelude
  imports Main "HOL-Library.Word"
begin

text \<open>
  What every component of the development shares: the machine integers and the time types of
  the source (\<open>u32\<close>, \<open>u64\<close>, \<open>usize\<close>, \<open>std::time::Duration\<close>, \<open>std::time::Instant\<close>), the checked
  arithmetic of the Rust standard library on them, \<open>Result\<close> as a sum type, the named collections
  of simplification rules, and generic lemmas on lists, options and maps.

  Time. A \<open>Duration\<close> is its number of nanoseconds. An \<open>Instant\<close> is the number of nanoseconds since
  the origin of the monotonic clock; on the Unix targets its seconds are an \<open>i64\<close>, so the last
  instant is \<open>INSTANT_MAX\<close> and \<open>Instant::checked_add\<close> fails past it. Code that reads the clock
  takes the value read as an argument; a function that reads the clock several times takes a
  \<open>clock\<close>, which gives the value of its n-th read, and nothing is assumed about how the reads
  relate unless a statement says so.
\<close>

section \<open>Integers and time\<close>

type_synonym u8 = "8 word"
type_synonym u16 = "16 word"
type_synonym u32 = "32 word"
type_synonym u64 = "64 word"
type_synonym usize = nat
type_synonym instant = nat
type_synonym duration = nat
type_synonym clock = "nat \<Rightarrow> instant"

definition USIZE_MAX :: nat where
  "USIZE_MAX = 2 ^ 64 - 1"

definition ISIZE_MAX :: nat where
  "ISIZE_MAX = 2 ^ 63 - 1"

definition NANOS_PER_SEC :: nat where
  "NANOS_PER_SEC = 1000000000"

definition INSTANT_MAX :: nat where
  "INSTANT_MAX = 2 ^ 63 * NANOS_PER_SEC - 1"

text \<open>\<open>Instant::checked_add\<close>, \<open>Instant::saturating_duration_since\<close> and \<open>Instant::elapsed\<close>.\<close>

definition instant_checked_add :: "instant \<Rightarrow> duration \<Rightarrow> instant option" where
  "instant_checked_add t d = (if t + d \<le> INSTANT_MAX then Some (t + d) else None)"

definition saturating_duration_since :: "instant \<Rightarrow> instant \<Rightarrow> duration" where
  "saturating_duration_since later earlier = later - earlier"

definition elapsed :: "instant \<Rightarrow> instant \<Rightarrow> duration" where
  "elapsed started now = saturating_duration_since now started"

text \<open>\<open>checked_add\<close> and \<open>saturating_sub\<close> on the unsigned machine integers.\<close>

definition checked_add :: "'a::len word \<Rightarrow> 'a word \<Rightarrow> 'a word option" where
  "checked_add a b = (if unat a + unat b < 2 ^ LENGTH('a) then Some (a + b) else None)"

definition saturating_sub :: "'a::len word \<Rightarrow> 'a word \<Rightarrow> 'a word" where
  "saturating_sub a b = (if b \<le> a then a - b else 0)"

text \<open>\<open>checked_add\<close>, \<open>checked_sub\<close> and \<open>checked_mul\<close> on \<open>usize\<close>, which is a natural number here.\<close>

definition usize_checked_add :: "usize \<Rightarrow> usize \<Rightarrow> usize option" where
  "usize_checked_add a b = (if a + b \<le> USIZE_MAX then Some (a + b) else None)"

definition usize_checked_sub :: "usize \<Rightarrow> usize \<Rightarrow> usize option" where
  "usize_checked_sub a b = (if b \<le> a then Some (a - b) else None)"

definition usize_checked_mul :: "usize \<Rightarrow> usize \<Rightarrow> usize option" where
  "usize_checked_mul a b = (if a * b \<le> USIZE_MAX then Some (a * b) else None)"

section \<open>Options, results and slices\<close>

text \<open>\<open>Result<T, E>\<close> is \<open>'e + 'a\<close>, with \<open>Inl\<close> the error. \<open>?\<close> is \<open>try_bind\<close>.\<close>

type_synonym ('a, 'e) result = "'e + 'a"

definition try_bind :: "'e + 'a \<Rightarrow> ('a \<Rightarrow> 'e + 'b) \<Rightarrow> 'e + 'b" where
  "try_bind r f = (case r of Inl e \<Rightarrow> Inl e | Inr x \<Rightarrow> f x)"

definition map_err :: "('e \<Rightarrow> 'f) \<Rightarrow> 'e + 'a \<Rightarrow> 'f + 'a" where
  "map_err f r = (case r of Inl e \<Rightarrow> Inl (f e) | Inr x \<Rightarrow> Inr x)"

definition ok_or :: "'a option \<Rightarrow> 'e \<Rightarrow> 'e + 'a" where
  "ok_or x e = (case x of None \<Rightarrow> Inl e | Some v \<Rightarrow> Inr v)"

definition is_err :: "'e + 'a \<Rightarrow> bool" where
  "is_err r = (case r of Inl _ \<Rightarrow> True | Inr _ \<Rightarrow> False)"

definition is_some :: "'a option \<Rightarrow> bool" where
  "is_some x = (case x of None \<Rightarrow> False | Some _ \<Rightarrow> True)"

definition is_some_and :: "'a option \<Rightarrow> ('a \<Rightarrow> bool) \<Rightarrow> bool" where
  "is_some_and x P = (case x of None \<Rightarrow> False | Some v \<Rightarrow> P v)"

definition is_none_or :: "'a option \<Rightarrow> ('a \<Rightarrow> bool) \<Rightarrow> bool" where
  "is_none_or x P = (case x of None \<Rightarrow> True | Some v \<Rightarrow> P v)"

definition or_option :: "'a option \<Rightarrow> 'a option \<Rightarrow> 'a option" where
  "or_option x y = (case x of None \<Rightarrow> y | Some v \<Rightarrow> Some v)"

definition map_or :: "'b \<Rightarrow> ('a \<Rightarrow> 'b) \<Rightarrow> 'a option \<Rightarrow> 'b" where
  "map_or d f x = (case x of None \<Rightarrow> d | Some v \<Rightarrow> f v)"

text \<open>\<open>slice::get\<close>: \<open>None\<close> out of range.\<close>

definition get :: "'a list \<Rightarrow> usize \<Rightarrow> 'a option" where
  "get xs i = (if i < length xs then Some (xs ! i) else None)"

text \<open>
  \<open>Vec::try_reserve(1)\<close>: refused when the allocator refuses (an input) or when the vector would
  outgrow \<open>isize::MAX\<close> bytes; its elements have at least one byte each.
\<close>

definition try_reserve_one :: "bool \<Rightarrow> usize \<Rightarrow> bool" where
  "try_reserve_one allocated len \<longleftrightarrow> allocated \<and> len + 1 \<le> ISIZE_MAX"

text \<open>Decimal \<open>Display\<close> of an unsigned integer, as \<open>format!\<close> prints it.\<close>

definition digit :: "nat \<Rightarrow> char" where
  "digit n = char_of (48 + n)"

fun show_nat :: "nat \<Rightarrow> string" where
  "show_nat n = (if n < 10 then [digit n] else show_nat (n div 10) @ [digit (n mod 10)])"

declare show_nat.simps [simp del]

section \<open>Collections of rules\<close>

named_theorems std_simps "definitions of the standard library's helpers"

lemmas std_defs [std_simps] =
  try_bind_def map_err_def ok_or_def is_err_def is_some_def is_some_and_def is_none_or_def
  or_option_def map_or_def

section \<open>Generic lemmas\<close>

lemma USIZE_MAX_pos [simp]: "0 < USIZE_MAX"
  by (simp add: USIZE_MAX_def)

lemma instant_checked_add_Some:
  "instant_checked_add t d = Some u \<longleftrightarrow> u = t + d \<and> t + d \<le> INSTANT_MAX"
  by (auto simp: instant_checked_add_def)

lemma instant_checked_add_mono:
  "instant_checked_add t d = None \<Longrightarrow> t \<le> t' \<Longrightarrow> d \<le> d' \<Longrightarrow> instant_checked_add t' d' = None"
  by (simp add: instant_checked_add_def split: if_splits)

lemma saturating_duration_since_ge:
  "d \<le> saturating_duration_since later earlier \<longleftrightarrow> d = 0 \<or> earlier + d \<le> later"
  by (auto simp: saturating_duration_since_def)

lemma checked_add_Some:
  fixes a b :: "'a::len word"
  shows "checked_add a b = Some c \<longleftrightarrow> unat a + unat b < 2 ^ LENGTH('a) \<and> c = a + b"
  by (auto simp: checked_add_def)

lemma unat_checked_add:
  fixes a b :: "'a::len word"
  assumes "checked_add a b = Some c"
  shows "unat c = unat a + unat b"
  using assms by (auto simp: checked_add_Some unat_word_ariths)

lemma unat_saturating_sub: "unat (saturating_sub a b) = unat a - unat b"
proof (cases "b \<le> a")
  case True
  then show ?thesis by (simp add: saturating_sub_def unat_sub)
next
  case False
  then have "unat a \<le> unat b" by (simp add: word_le_nat_alt)
  with False show ?thesis by (simp add: saturating_sub_def)
qed

lemma unat_less_pow: "unat (w :: 'a::len word) < 2 ^ LENGTH('a)"
  by (rule unsigned_less)

lemma u32_less: "unat (w :: u32) < 2 ^ 32"
  using unat_less_pow [of w] by simp

lemma u64_less: "unat (w :: u64) < 2 ^ 64"
  using unat_less_pow [of w] by simp

lemma unat_pred: "(w :: 'a::len word) \<noteq> 0 \<Longrightarrow> unat (w - 1) = unat w - 1"
  by (metis One_nat_def unat_minus_one)

lemma get_Some [simp]: "get xs i = Some x \<longleftrightarrow> i < length xs \<and> x = xs ! i"
  by (auto simp: get_def)

lemma get_None [simp]: "get xs i = None \<longleftrightarrow> length xs \<le> i"
  by (auto simp: get_def)

lemma get_lt: "i < length xs \<Longrightarrow> get xs i = Some (xs ! i)"
  by simp

lemma is_some_and_iff: "is_some_and x P \<longleftrightarrow> (\<exists>v. x = Some v \<and> P v)"
  by (auto simp: is_some_and_def split: option.splits)

lemma is_none_or_iff: "is_none_or x P \<longleftrightarrow> (\<forall>v. x = Some v \<longrightarrow> P v)"
  by (auto simp: is_none_or_def split: option.splits)

lemma try_bind_Inr: "try_bind r f = Inr y \<longleftrightarrow> (\<exists>x. r = Inr x \<and> f x = Inr y)"
  by (auto simp: try_bind_def split: sum.splits)

lemma try_bind_Inl: "try_bind r f = Inl e \<longleftrightarrow> r = Inl e \<or> (\<exists>x. r = Inr x \<and> f x = Inl e)"
  by (auto simp: try_bind_def split: sum.splits)

lemma try_bind_simps [simp]: "try_bind (Inr x) f = f x" "try_bind (Inl e) f = Inl e"
  by (simp_all add: try_bind_def)

lemma map_err_Inr [simp]: "map_err f r = Inr x \<longleftrightarrow> r = Inr x"
  by (auto simp: map_err_def split: sum.splits)

lemma map_err_simps [simp]: "map_err f (Inr x) = Inr x" "map_err f (Inl e) = Inl (f e)"
  by (simp_all add: map_err_def)

lemma ok_or_Inr [simp]: "ok_or x e = Inr v \<longleftrightarrow> x = Some v"
  by (auto simp: ok_or_def split: option.splits)

lemma ok_or_simps [simp]: "ok_or (Some v) e = Inr v" "ok_or None e = Inl e"
  by (simp_all add: ok_or_def)

end
