(* ===== verification/Float64.thy ===== *)
theory Float64
  imports Prelude Complex_Main "HOL-Library.Log_Nat"
begin

text \<open>
  The part of IEEE-754 binary64 that the retry schedules use. A finite \<open>f64\<close> is the rational number
  it stands for; a result is the exact one rounded to nearest, ties to even (\<open>f64_round\<close>), with
  subnormals and overflow to infinity. Zero is unsigned: the modelled code never divides by a
  zero or reads a zero's sign. Also here: the two conversions of \<open>std::time::Duration\<close>,
  \<open>as_secs_f64\<close> and \<open>try_from_secs_f64\<close>. The elementary functions \<open>ln\<close> and \<open>powf\<close> belong to the
  platform's libm, whose precision the language leaves open, so they are parameters of the
  definitions that call them.
\<close>

section \<open>Values and rounding\<close>

datatype f64 = Finite rat | PosInf | NegInf | NaN

definition ilog2 :: "rat \<Rightarrow> int" where
  "ilog2 q = (let (n, d) = quotient_of q; e = bitlen n - bitlen d
              in if 2 powi e \<le> q then e else e - 1)"

definition round_half_even :: "rat \<Rightarrow> int" where
  "round_half_even x = (let f = \<lfloor>x\<rfloor>; r = x - of_int f
                        in if r < 1 / 2 \<or> (r = 1 / 2 \<and> even f) then f else f + 1)"

definition quantum :: "rat \<Rightarrow> int" where
  "quantum q = max (- 1074) (ilog2 q - 52)"

definition round_pos :: "rat \<Rightarrow> rat" where
  "round_pos q = of_int (round_half_even (q / 2 powi quantum q)) * 2 powi quantum q"

definition f64_round :: "rat \<Rightarrow> f64" where
  "f64_round q = (if q = 0 then Finite 0
                  else let m = round_pos \<bar>q\<bar>
                       in if 2 ^ 1024 \<le> m then (if 0 < q then PosInf else NegInf)
                          else Finite (sgn q * m))"

section \<open>Arithmetic and comparisons\<close>

fun f64_neg :: "f64 \<Rightarrow> f64" where
  "f64_neg (Finite x) = Finite (- x)"
| "f64_neg PosInf = NegInf"
| "f64_neg NegInf = PosInf"
| "f64_neg NaN = NaN"

fun f64_add :: "f64 \<Rightarrow> f64 \<Rightarrow> f64" where
  "f64_add (Finite x) (Finite y) = f64_round (x + y)"
| "f64_add NaN _ = NaN"
| "f64_add _ NaN = NaN"
| "f64_add PosInf NegInf = NaN"
| "f64_add NegInf PosInf = NaN"
| "f64_add PosInf _ = PosInf"
| "f64_add _ PosInf = PosInf"
| "f64_add NegInf _ = NegInf"
| "f64_add _ NegInf = NegInf"

definition f64_sub :: "f64 \<Rightarrow> f64 \<Rightarrow> f64" where
  "f64_sub a b = f64_add a (f64_neg b)"

fun f64_sgn :: "f64 \<Rightarrow> int" where
  "f64_sgn (Finite x) = (if x < 0 then - 1 else if x = 0 then 0 else 1)"
| "f64_sgn PosInf = 1"
| "f64_sgn NegInf = - 1"
| "f64_sgn NaN = 0"

definition f64_inf :: "int \<Rightarrow> f64" where
  "f64_inf s = (if s = 0 then NaN else if 0 < s then PosInf else NegInf)"

fun f64_mul :: "f64 \<Rightarrow> f64 \<Rightarrow> f64" where
  "f64_mul (Finite x) (Finite y) = f64_round (x * y)"
| "f64_mul a b = f64_inf (f64_sgn a * f64_sgn b)"

fun f64_div :: "f64 \<Rightarrow> f64 \<Rightarrow> f64" where
  "f64_div (Finite x) (Finite y) =
     (if y = 0 then f64_inf (f64_sgn (Finite x)) else f64_round (x / y))"
| "f64_div NaN _ = NaN"
| "f64_div _ NaN = NaN"
| "f64_div (Finite x) _ = Finite 0"
| "f64_div a (Finite y) = f64_inf (f64_sgn a * (if y < 0 then - 1 else 1))"
| "f64_div _ _ = NaN"

fun f64_le :: "f64 \<Rightarrow> f64 \<Rightarrow> bool" where
  "f64_le (Finite x) (Finite y) = (x \<le> y)"
| "f64_le NaN _ = False"
| "f64_le _ NaN = False"
| "f64_le NegInf _ = True"
| "f64_le _ PosInf = True"
| "f64_le _ _ = False"

fun f64_lt :: "f64 \<Rightarrow> f64 \<Rightarrow> bool" where
  "f64_lt (Finite x) (Finite y) = (x < y)"
| "f64_lt NaN _ = False"
| "f64_lt _ NaN = False"
| "f64_lt PosInf _ = False"
| "f64_lt _ NegInf = False"
| "f64_lt NegInf _ = True"
| "f64_lt _ PosInf = True"

fun f64_eq :: "f64 \<Rightarrow> f64 \<Rightarrow> bool" where
  "f64_eq NaN _ = False"
| "f64_eq a b = (a = b)"

fun is_finite :: "f64 \<Rightarrow> bool" where
  "is_finite (Finite _) = True"
| "is_finite _ = False"

section \<open>Durations\<close>

text \<open>\<open>Duration::as_secs_f64\<close>: \<open>(secs as f64) + (nanos as f64) / 1e9\<close>.\<close>

definition as_secs_f64 :: "duration \<Rightarrow> f64" where
  "as_secs_f64 d = f64_add (f64_round (of_nat (d div NANOS_PER_SEC)))
                     (f64_div (f64_round (of_nat (d mod NANOS_PER_SEC))) (f64_round (of_nat NANOS_PER_SEC)))"

text \<open>
  \<open>Duration::try_from_secs_f64\<close>: an error for a negative value, a NaN and a value that does not
  fit \<open>u64\<close> seconds; otherwise the nearest number of nanoseconds, ties to even.
\<close>

fun try_from_secs_f64 :: "f64 \<Rightarrow> duration option" where
  "try_from_secs_f64 (Finite x) =
     (if x < 0 \<or> 2 ^ 64 \<le> x then None
      else Some (nat (round_half_even (x * of_nat NANOS_PER_SEC))))"
| "try_from_secs_f64 _ = None"

section \<open>Rounding to an integer\<close>

lemma round_half_even_of_int [simp]: "round_half_even (of_int n) = n"
  by (simp add: round_half_even_def)

lemma round_half_even_err: "\<bar>of_int (round_half_even x) - x\<bar> \<le> 1 / 2"
proof -
  have "of_int \<lfloor>x\<rfloor> \<le> x" and "x < of_int \<lfloor>x\<rfloor> + 1" using floor_correct [of x] by auto
  then show ?thesis unfolding round_half_even_def Let_def abs_if
    by (simp split: if_split) linarith
qed

lemma round_half_even_mono:
  assumes "x \<le> y"
  shows "round_half_even x \<le> round_half_even y"
proof (cases "\<lfloor>x\<rfloor> = \<lfloor>y\<rfloor>")
  case True
  with assms show ?thesis by (auto simp: round_half_even_def Let_def)
next
  case False
  with assms have "\<lfloor>x\<rfloor> + 1 \<le> \<lfloor>y\<rfloor>" using floor_mono [of x y] by linarith
  then show ?thesis by (auto simp: round_half_even_def Let_def)
qed

lemma round_half_even_le: "x \<le> of_int n \<Longrightarrow> round_half_even x \<le> n"
  using round_half_even_mono [of x "of_int n"] by simp

lemma round_half_even_ge: "of_int n \<le> x \<Longrightarrow> n \<le> round_half_even x"
  using round_half_even_mono [of "of_int n" x] by simp

section \<open>The exponent\<close>

lemma ilog2_bounds:
  assumes "0 < q"
  shows "2 powi ilog2 q \<le> q" and "q < 2 powi (ilog2 q + 1)"
proof -
  obtain n d where nd: "quotient_of q = (n, d)" by (cases "quotient_of q")
  have d: "0 < d" using quotient_of_denom_pos [OF nd] .
  have q: "q = of_int n / of_int d" using quotient_of_div [OF nd] .
  have n: "0 < n" using assms d q by (simp add: zero_less_divide_iff)
  define bn bd where "bn = bitlen n" and "bd = bitlen d"
  have bn: "2 ^ nat (bn - 1) \<le> n" "n < 2 ^ nat bn" "1 \<le> bn"
    using bitlen_bounds [of n] n bitlen_eq_zero_iff [of n] bitlen_nonneg [of n] by (auto simp: bn_def)
  have bd: "2 ^ nat (bd - 1) \<le> d" "d < 2 ^ nat bd" "1 \<le> bd"
    using bitlen_bounds [of d] d bitlen_eq_zero_iff [of d] bitlen_nonneg [of d] by (auto simp: bd_def)
  have pow: "of_int (2 ^ nat k) = (2::rat) powi k" if "0 \<le> k" for k
    using that by (simp add: power_int_nonneg_exp)
  have n1: "(2::rat) powi (bn - 1) \<le> of_int n" and n2: "of_int n < (2::rat) powi bn"
    using bn pow [of "bn - 1"] pow [of bn] by (metis of_int_le_iff diff_ge_0_iff_ge, metis of_int_less_iff order_trans zero_le_one)
  have d1: "(2::rat) powi (bd - 1) \<le> of_int d" and d2: "of_int d < (2::rat) powi bd"
    using bd pow [of "bd - 1"] pow [of bd] by (metis of_int_le_iff diff_ge_0_iff_ge, metis of_int_less_iff order_trans zero_le_one)
  have up: "q < 2 powi (bn - bd + 1)"
  proof -
    have "q \<le> of_int n / 2 powi (bd - 1)"
      unfolding q using d1 d n by (intro divide_left_mono) auto
    also have "\<dots> < 2 powi bn / 2 powi (bd - 1)"
      using n2 by (intro divide_strict_right_mono) auto
    also have "\<dots> = 2 powi (bn - bd + 1)"
      by (simp add: power_int_diff power_int_add)
    finally show ?thesis .
  qed
  have low: "2 powi (bn - bd - 1) \<le> q"
  proof -
    have "2 powi (bn - bd - 1) = 2 powi (bn - 1) / (2::rat) powi bd"
      by (simp add: power_int_diff)
    also have "\<dots> \<le> of_int n / 2 powi bd"
      using n1 by (intro divide_right_mono) auto
    also have "\<dots> \<le> q"
      unfolding q using d2 d n by (intro divide_left_mono) auto
    finally show ?thesis .
  qed
  have il: "ilog2 q = (if 2 powi (bn - bd) \<le> q then bn - bd else bn - bd - 1)"
    by (simp add: ilog2_def nd Let_def bn_def bd_def)
  show "2 powi ilog2 q \<le> q" using low by (simp add: il)
  show "q < 2 powi (ilog2 q + 1)" using up by (simp add: il)
qed

lemma powi_mono_exp: "a \<le> b \<Longrightarrow> (2::rat) powi a \<le> 2 powi b"
  by (rule power_int_increasing) auto

lemma powi_less_exp: "(2::rat) powi a < 2 powi b \<Longrightarrow> a < b"
  by (meson leD leI powi_mono_exp)

lemma ilog2_mono: "0 < x \<Longrightarrow> x \<le> y \<Longrightarrow> ilog2 x \<le> ilog2 y"
proof -
  assume "0 < x" and "x \<le> y"
  then have "2 powi ilog2 x < (2::rat) powi (ilog2 y + 1)"
    using ilog2_bounds [of x] ilog2_bounds [of y] by linarith
  then show ?thesis using powi_less_exp by fastforce
qed

lemma ilog2_less: "0 < x \<Longrightarrow> x < 2 powi k \<Longrightarrow> ilog2 x < k"
  using ilog2_bounds(1) [of x] powi_less_exp order_le_less_trans by blast

lemma powi_nonneg_int: "0 \<le> k \<Longrightarrow> (2::rat) powi k = of_int (2 ^ nat k)"
  by (simp add: power_int_nonneg_exp)

section \<open>Rounding is monotone and exact on representable values\<close>

lemma quantum_mono: "0 < x \<Longrightarrow> x \<le> y \<Longrightarrow> quantum x \<le> quantum y"
  using ilog2_mono [of x y] by (auto simp: quantum_def)

lemma round_pos_exact:
  assumes "r = of_int m * 2 powi e" and "quantum r \<le> e"
  shows "round_pos r = r"
proof -
  have "r / 2 powi quantum r = of_int m * 2 powi (e - quantum r)"
    using assms(1) by (simp add: power_int_diff)
  also have "\<dots> = of_int (m * 2 ^ nat (e - quantum r))"
    using assms(2) by (simp add: power_int_nonneg_exp)
  finally have "r / 2 powi quantum r = of_int (m * 2 ^ nat (e - quantum r))" .
  then show ?thesis
    unfolding round_pos_def by (metis round_half_even_of_int nonzero_divide_eq_eq power_int_not_zero zero_neq_numeral)
qed

lemma round_pos_le:
  assumes "0 < x" and "x \<le> 2 powi k" and "quantum x \<le> k"
  shows "round_pos x \<le> 2 powi k"
proof -
  have "x / 2 powi quantum x \<le> 2 powi (k - quantum x)"
    using assms(2) by (simp add: power_int_diff divide_right_mono)
  also have "\<dots> = of_int (2 ^ nat (k - quantum x))"
    using assms(3) by (intro powi_nonneg_int) simp
  finally have "round_half_even (x / 2 powi quantum x) \<le> 2 ^ nat (k - quantum x)"
    by (rule round_half_even_le)
  then have "(of_int (round_half_even (x / 2 powi quantum x)) :: rat) \<le> of_int (2 ^ nat (k - quantum x))"
    by (rule of_int_le_iff [THEN iffD2])
  also have "\<dots> = 2 powi (k - quantum x)"
    using assms(3) by (intro powi_nonneg_int [symmetric]) simp
  finally have "round_pos x \<le> 2 powi (k - quantum x) * 2 powi quantum x"
    unfolding round_pos_def by (intro mult_right_mono) auto
  then show ?thesis by (simp add: power_int_diff)
qed

lemma round_pos_ge:
  assumes "2 powi k \<le> y" and "quantum y \<le> k"
  shows "2 powi k \<le> round_pos y"
proof -
  have "of_int (2 ^ nat (k - quantum y)) = (2::rat) powi (k - quantum y)"
    using assms(2) by (intro powi_nonneg_int [symmetric]) simp
  also have "\<dots> \<le> y / 2 powi quantum y"
    using assms(1) by (simp add: power_int_diff divide_right_mono)
  finally have "2 ^ nat (k - quantum y) \<le> round_half_even (y / 2 powi quantum y)"
    by (rule round_half_even_ge)
  then have "(of_int (2 ^ nat (k - quantum y)) :: rat) \<le> of_int (round_half_even (y / 2 powi quantum y))"
    by (rule of_int_le_iff [THEN iffD2])
  then have "2 powi (k - quantum y) * 2 powi quantum y \<le> round_pos y"
    unfolding round_pos_def using assms(2)
    by (intro mult_right_mono) (auto simp: powi_nonneg_int)
  then show ?thesis by (simp add: power_int_diff)
qed

lemma round_pos_mono:
  assumes "0 < x" and "x \<le> y"
  shows "round_pos x \<le> round_pos y"
proof (cases "quantum x = quantum y")
  case True
  have "round_half_even (x / 2 powi quantum y) \<le> round_half_even (y / 2 powi quantum y)"
    using assms(2) by (intro round_half_even_mono divide_right_mono) auto
  then show ?thesis unfolding round_pos_def True by (intro mult_right_mono) auto
next
  case False
  then have less: "quantum x < quantum y" using quantum_mono [OF assms] by simp
  define k where "k = ilog2 y"
  have qy: "quantum y = k - 52" using less by (auto simp: quantum_def k_def)
  have "ilog2 x < k" using less by (auto simp: quantum_def k_def)
  then have "2 powi (ilog2 x + 1) \<le> (2::rat) powi k" by (intro powi_mono_exp) simp
  then have "x \<le> 2 powi k" using ilog2_bounds(2) [OF assms(1)] by linarith
  then have "round_pos x \<le> 2 powi k"
    using less qy assms(1) by (intro round_pos_le) auto
  also have "\<dots> \<le> round_pos y"
    using assms qy ilog2_bounds(1) [of y] by (intro round_pos_ge) (auto simp: k_def)
  finally show ?thesis .
qed

lemma round_pos_nonneg: "0 < x \<Longrightarrow> 0 \<le> round_pos x"
  unfolding round_pos_def
  by (intro mult_nonneg_nonneg) (auto intro!: round_half_even_ge)

lemma round_pos_idem:
  assumes "0 < x" and "0 < round_pos x"
  shows "round_pos (round_pos x) = round_pos x"
proof -
  define q m where "q = quantum x" and "m = round_half_even (x / 2 powi q)"
  have r: "round_pos x = of_int m * 2 powi q" by (simp add: round_pos_def q_def m_def)
  have "x < 2 powi (53 + q)"
  proof -
    have "ilog2 x + 1 \<le> 53 + q" by (simp add: q_def quantum_def)
    then show ?thesis using ilog2_bounds(2) [OF assms(1)] powi_mono_exp order_less_le_trans by blast
  qed
  then have "x / 2 powi q \<le> 2 powi 53" by (simp add: power_int_add field_simps)
  then have "m \<le> 2 ^ 53" unfolding m_def by (intro round_half_even_le) simp
  then consider "m < 2 ^ 53" | "m = 2 ^ 53" by linarith
  then show ?thesis
  proof cases
    case 1
    then have "(of_int m :: rat) < of_int (2 ^ 53)" by (rule of_int_less_iff [THEN iffD2])
    then have "round_pos x < 2 powi (53 + q)"
      by (simp add: r power_int_add)
    then have "ilog2 (round_pos x) < 53 + q" by (rule ilog2_less [OF assms(2)])
    then have "quantum (round_pos x) \<le> q" by (auto simp: quantum_def q_def)
    then show ?thesis by (intro round_pos_exact [OF r])
  next
    case 2
    have r': "round_pos x = of_int (2 ^ 52) * 2 powi (q + 1)"
      by (simp add: r 2 power_int_add)
    have "round_pos x < 2 powi (54 + q)" by (simp add: r 2 power_int_add)
    then have "ilog2 (round_pos x) < 54 + q" by (rule ilog2_less [OF assms(2)])
    then have "quantum (round_pos x) \<le> q + 1" by (auto simp: quantum_def q_def)
    then show ?thesis by (intro round_pos_exact [OF r'])
  qed
qed

lemma round_pos_err: "\<bar>round_pos x - x\<bar> \<le> 2 powi quantum x / 2"
proof -
  define p where "p = (2::rat) powi quantum x"
  have p: "0 < p" by (simp add: p_def)
  have "round_pos x - x = (of_int (round_half_even (x / p)) - x / p) * p"
    using p by (simp add: round_pos_def p_def [symmetric] left_diff_distrib)
  then have "\<bar>round_pos x - x\<bar> = \<bar>of_int (round_half_even (x / p)) - x / p\<bar> * p"
    using p by (simp add: abs_mult)
  also have "\<dots> \<le> 1 / 2 * p"
    using p by (intro mult_right_mono round_half_even_err) simp
  finally show ?thesis by (simp add: p_def)
qed

lemma round_half_even_le_half: "x < of_int n + 1 / 2 \<Longrightarrow> round_half_even x \<le> n"
proof -
  assume "x < of_int n + 1 / 2"
  then have "\<lfloor>x\<rfloor> \<le> n" by (simp add: floor_le_iff)
  then consider "\<lfloor>x\<rfloor> < n" | "\<lfloor>x\<rfloor> = n" by linarith
  then show ?thesis
    using \<open>x < of_int n + 1 / 2\<close> by cases (auto simp: round_half_even_def Let_def)
qed

section \<open>Rounding of non-negative values as f64\<close>

lemma f64_round_pos:
  "0 < x \<Longrightarrow> f64_round x = (if 2 ^ 1024 \<le> round_pos x then PosInf else Finite (round_pos x))"
  by (simp add: f64_round_def Let_def)

lemma f64_round_0 [simp]: "f64_round 0 = Finite 0"
  by (simp add: f64_round_def)

lemma f64_round_Finite_pos:
  assumes "f64_round x = Finite z" and "0 < x"
  shows "z = round_pos x" and "0 \<le> z"
  using assms round_pos_nonneg [of x] by (auto simp: f64_round_pos split: if_splits)

text \<open>A representable value below a rounded one is below the value that was rounded.\<close>

lemma f64_below_rounded:
  assumes "f64_round x = Finite x" and "f64_round y = Finite z" and "0 \<le> x" and "x < z"
  shows "x < y"
proof (rule ccontr)
  assume "\<not> x < y"
  then have le: "y \<le> x" by simp
  show False
  proof (cases "0 < y")
    case True
    then have "z = round_pos y" using assms(2) f64_round_Finite_pos by blast
    moreover have "x = round_pos x" using assms(1) le True by (intro f64_round_Finite_pos) auto
    moreover have "round_pos y \<le> round_pos x" by (rule round_pos_mono [OF True le])
    ultimately show False using assms(4) by simp
  next
    case False
    then have "z \<le> 0"
      using assms(2) round_pos_nonneg [of "- y"]
      by (auto simp: f64_round_def Let_def split: if_splits)
    with assms(3,4) show False by simp
  qed
qed

lemma f64_round_idem:
  assumes "f64_round x = Finite z" and "0 \<le> x"
  shows "f64_round z = Finite z"
proof (cases "x = 0")
  case True
  with assms(1) show ?thesis by simp
next
  case False
  with assms(2) have x: "0 < x" by simp
  then have z: "z = round_pos x" "\<not> 2 ^ 1024 \<le> z" using assms(1) by (auto simp: f64_round_pos split: if_splits)
  show ?thesis
  proof (cases "z = 0")
    case False
    then have "0 < round_pos x" using z round_pos_nonneg [OF x] by simp
    with z round_pos_idem [OF x] show ?thesis by (simp add: f64_round_pos)
  qed simp
qed

lemma f64_round_nat:
  assumes "n < 2 ^ 53"
  shows "f64_round (of_nat n) = Finite (of_nat n)"
proof (cases "n = 0")
  case False
  then have pos: "(0::rat) < of_nat n" by simp
  have "(of_nat n :: rat) < of_nat (2 ^ 53)" using assms by (rule of_nat_less_iff [THEN iffD2])
  then have lt: "(of_nat n :: rat) < 2 powi 53" by simp
  then have "ilog2 (of_nat n) < 53" by (rule ilog2_less [OF pos])
  then have "quantum (of_nat n) \<le> 0" by (simp add: quantum_def)
  then have r: "round_pos (of_nat n) = of_nat n"
    by (intro round_pos_exact [where m = "int n" and e = 0]) auto
  have "(2::rat) powi 53 \<le> 2 ^ 1024" by simp
  with lt have "\<not> 2 ^ 1024 \<le> (of_nat n :: rat)" by linarith
  with r pos show ?thesis by (simp add: f64_round_pos)
qed simp

text \<open>The fraction of a second: its rounding error is far below half a nanosecond.\<close>

lemma f64_round_fraction:
  assumes "0 \<le> x" and "x < 1"
  shows "\<exists>a. f64_round x = Finite a \<and> 0 \<le> a \<and> a \<le> x + 2 powi (- 54)"
proof (cases "x = 0")
  case False
  with assms have pos: "0 < x" by simp
  have "ilog2 x < 0" by (rule ilog2_less [OF pos]) (simp add: assms)
  then have "quantum x \<le> - 53" by (simp add: quantum_def)
  then have "(2::rat) powi quantum x \<le> 2 powi (- 53)" by (rule powi_mono_exp)
  then have e: "round_pos x \<le> x + 2 powi (- 54)"
    using round_pos_err [of x] by (simp add: abs_if power_int_minus split: if_splits)
  then have "round_pos x < 2" using assms(2) by (simp add: power_int_minus)
  then have "\<not> 2 ^ 1024 \<le> round_pos x"
    using one_le_power [of "2::rat" 1023] by (auto simp: power_Suc [of _ 1023, simplified])
  with pos e round_pos_nonneg [OF pos] show ?thesis by (auto simp: f64_round_pos)
qed simp

section \<open>Seconds as f64 and back\<close>

definition DURATION_MAX :: duration where
  "DURATION_MAX = 2 ^ 64 * NANOS_PER_SEC - 1"

lemma round_pos_grid:
  assumes "round_pos x = x" and "2 powi 53 \<le> x"
  shows "\<exists>i. x = of_int (2 * i)" and "1 \<le> quantum x"
proof -
  have pos: "0 < x" using assms(2) by (rule order_less_le_trans [rotated]) simp
  have "2 powi 53 < (2::rat) powi (ilog2 x + 1)" using ilog2_bounds(2) [OF pos] assms(2) by linarith
  then have "53 < ilog2 x + 1" by (rule powi_less_exp)
  then show q: "1 \<le> quantum x" by (simp add: quantum_def)
  define m where "m = round_half_even (x / 2 powi quantum x)"
  have "x = of_int m * 2 powi quantum x" using assms(1) by (simp add: round_pos_def m_def)
  also have "(2::rat) powi quantum x = 2 * 2 powi (quantum x - 1)" by (simp add: power_int_diff)
  also have "(2::rat) powi (quantum x - 1) = of_int (2 ^ nat (quantum x - 1))"
    using q by (intro powi_nonneg_int) simp
  finally have "x = of_int (2 * (m * 2 ^ nat (quantum x - 1)))" by simp
  then show "\<exists>i. x = of_int (2 * i)" by blast
qed

text \<open>Above \<open>2\<^sup>5\<^sup>3\<close> a fraction of a second is rounded away.\<close>

lemma round_pos_absorbs:
  assumes "round_pos s = s" and "2 powi 53 \<le> s" and "0 \<le> a" and "a < 1"
  shows "round_pos (s + a) = s"
proof -
  obtain i where i: "s = of_int (2 * i)" using round_pos_grid [OF assms(1,2)] by blast
  have q: "1 \<le> quantum s" by (rule round_pos_grid [OF assms(1,2)])
  have pos: "0 < s" using assms(2) by (rule order_less_le_trans [rotated]) simp
  have il: "52 < ilog2 s" using q by (simp add: quantum_def)
  have e: "(2::rat) powi (ilog2 s + 1) = of_int (2 ^ nat (ilog2 s + 1))"
    using il by (intro powi_nonneg_int) simp
  have "s < of_int (2 ^ nat (ilog2 s + 1))"
    using ilog2_bounds(2) [OF pos] unfolding e .
  then have "2 * i < 2 ^ nat (ilog2 s + 1)" unfolding i by (rule of_int_less_iff [THEN iffD1])
  then have "2 * i + 1 \<le> 2 ^ nat (ilog2 s + 1)" by simp
  then have "(of_int (2 * i + 1) :: rat) \<le> of_int (2 ^ nat (ilog2 s + 1))"
    by (rule of_int_le_iff [THEN iffD2])
  then have "s + 1 \<le> 2 powi (ilog2 s + 1)" unfolding e by (simp add: i)
  then have "ilog2 (s + a) < ilog2 s + 1" using assms(3,4) pos by (intro ilog2_less) auto
  moreover have "ilog2 s \<le> ilog2 (s + a)" using pos assms(3) by (intro ilog2_mono) auto
  ultimately have "ilog2 (s + a) = ilog2 s" by simp
  then have qq: "quantum (s + a) = quantum s" by (simp add: quantum_def)
  define p m where "p = (2::rat) powi quantum s" and "m = round_half_even (s / p)"
  have p2: "2 \<le> p" unfolding p_def using powi_mono_exp [OF q] by simp
  have m: "s = of_int m * p" using assms(1) by (simp add: round_pos_def p_def m_def)
  have "s / p = of_int m" using p2 m by simp
  then have e: "(s + a) / p = of_int m + a / p" by (simp add: add_divide_distrib)
  have "a / p < 1 / 2" using assms(3,4) p2 by (simp add: divide_less_eq)
  then have "round_half_even ((s + a) / p) \<le> m" unfolding e by (intro round_half_even_le_half) simp
  moreover have "m \<le> round_half_even ((s + a) / p)"
    unfolding e using assms(3) p2 by (intro round_half_even_ge) simp
  ultimately have "round_half_even ((s + a) / p) = m" by simp
  then show ?thesis unfolding round_pos_def qq p_def [symmetric] by (simp add: m [symmetric])
qed

lemma nanos_fraction:
  "\<exists>a. f64_div (f64_round (of_nat (d mod NANOS_PER_SEC))) (f64_round (of_nat NANOS_PER_SEC)) = Finite a
     \<and> 0 \<le> a \<and> a < 1 \<and> a * of_nat NANOS_PER_SEC < of_nat (d mod NANOS_PER_SEC) + 1 / 2"
proof -
  define n where "n = d mod NANOS_PER_SEC"
  have n: "n \<le> 999999999" unfolding n_def NANOS_PER_SEC_def by simp
  then have "f64_round (of_nat n) = Finite (of_nat n)" by (intro f64_round_nat) simp
  moreover have "f64_round (of_nat NANOS_PER_SEC) = Finite (of_nat NANOS_PER_SEC)"
    by (rule f64_round_nat) (simp add: NANOS_PER_SEC_def)
  ultimately have eq: "f64_div (f64_round (of_nat n)) (f64_round (of_nat NANOS_PER_SEC))
      = f64_round (of_nat n / 1000000000)" by (simp add: NANOS_PER_SEC_def)
  have n': "(of_nat n :: rat) \<le> 999999999" using n by (metis of_nat_le_iff of_nat_numeral)
  then obtain a where "f64_round (of_nat n / 1000000000) = Finite a" "0 \<le> a"
    and "a \<le> of_nat n / 1000000000 + 2 powi (- 54)"
    using f64_round_fraction [of "of_nat n / 1000000000"] by auto
  then show ?thesis using n'
    unfolding n_def [symmetric] eq by (auto simp: NANOS_PER_SEC_def power_int_minus field_simps)
qed

lemma of_nat_less_pow: "n < 2 ^ k \<Longrightarrow> (of_nat n :: rat) < 2 ^ k"
  by (metis of_nat_less_iff of_nat_numeral of_nat_power)

lemma of_nat_ge_pow: "2 ^ k \<le> n \<Longrightarrow> (2 :: rat) ^ k \<le> of_nat n"
  by (metis of_nat_le_iff of_nat_numeral of_nat_power)

lemma f64_round_bounded:
  assumes "0 \<le> y" and "y < 2 powi k" and "- 1000 \<le> k" and "k \<le> 1000"
  shows "\<exists>z. f64_round y = Finite z \<and> 0 \<le> z \<and> z \<le> 2 powi k"
proof (cases "y = 0")
  case False
  then have pos: "0 < y" using assms(1) by simp
  have "ilog2 y < k" by (rule ilog2_less [OF pos assms(2)])
  then have le: "round_pos y \<le> 2 powi k"
    using assms by (intro round_pos_le [OF pos]) (auto simp: quantum_def)
  also have "\<dots> \<le> 2 powi 1000" by (rule powi_mono_exp [OF assms(4)])
  also have "\<dots> < 2 ^ 1024" by simp
  finally show ?thesis using round_pos_nonneg [OF pos] pos le by (auto simp: f64_round_pos)
qed simp

text \<open>
  A representable number of seconds strictly below \<open>as_secs_f64 d\<close> converts back to at most \<open>d\<close>
  nanoseconds, whatever the roundings on the way to \<open>as_secs_f64 d\<close> did.
\<close>

lemma secs_below_duration:
  assumes d: "d \<le> DURATION_MAX" and x: "f64_round x = Finite x" "0 \<le> x"
    and lt: "f64_lt (Finite x) (as_secs_f64 d)"
  shows "round_half_even (x * of_nat NANOS_PER_SEC) \<le> int d"
proof -
  define S N where "S = d div NANOS_PER_SEC" and "N = d mod NANOS_PER_SEC"
  have dSN: "of_nat d = of_nat S * of_nat NANOS_PER_SEC + (of_nat N :: rat)"
    unfolding S_def N_def by (metis of_nat_add of_nat_mult div_mult_mod_eq)
  have "S < 2 ^ 64"
    using d unfolding S_def DURATION_MAX_def NANOS_PER_SEC_def by (simp add: div_less_iff_less_mult)
  then obtain z where z: "f64_round (of_nat S) = Finite z" "0 \<le> z"
    using f64_round_bounded [of "of_nat S" 64] of_nat_less_pow by auto
  obtain a where a: "f64_div (f64_round (of_nat N)) (f64_round (of_nat NANOS_PER_SEC)) = Finite a"
    "0 \<le> a" "a < 1" "a * of_nat NANOS_PER_SEC < of_nat N + 1 / 2"
    using nanos_fraction [of d] unfolding N_def by blast
  have as: "as_secs_f64 d = f64_round (z + a)"
    using z a by (simp add: as_secs_f64_def S_def N_def)
  have K: "(0::rat) < of_nat NANOS_PER_SEC" by (simp add: NANOS_PER_SEC_def)
  show ?thesis
  proof (cases "S < 2 ^ 53")
    case True
    then have zS: "z = of_nat S" using z f64_round_nat [of S] by simp
    have "z + a < 2 powi 54" using zS a(3) of_nat_less_pow [OF True] by simp
    then obtain y where y: "f64_round (z + a) = Finite y"
      using f64_round_bounded [of "z + a" 54] z(2) a(2) by auto
    have "x < y" using lt by (simp add: as y)
    then have "x < z + a" by (rule f64_below_rounded [OF x(1) y x(2)])
    then have "x * of_nat NANOS_PER_SEC < (z + a) * of_nat NANOS_PER_SEC"
      using K by (intro mult_strict_right_mono)
    also have "\<dots> < of_nat d + 1 / 2"
      using a(4) by (simp add: zS dSN distrib_right)
    finally show ?thesis by (intro round_half_even_le_half) simp
  next
    case False
    have big: "(2::rat) powi 53 \<le> of_nat S"
      using False of_nat_ge_pow [of 53 S] by simp
    then have Spos: "0 < (of_nat S :: rat)" by (rule order_less_le_trans [rotated]) simp
    have zr: "z = round_pos (of_nat S)" using z(1) Spos f64_round_Finite_pos by blast
    have "ilog2 (of_nat S :: rat) \<le> 64"
      using of_nat_less_pow [OF \<open>S < 2 ^ 64\<close>] Spos
      by (intro order_less_imp_le ilog2_less) auto
    then have zbig: "2 powi 53 \<le> z" unfolding zr by (intro round_pos_ge [OF big]) (simp add: quantum_def)
    then have zpos: "0 < z" by (rule order_less_le_trans [rotated]) simp
    have zz: "round_pos z = z" using zr zpos Spos by (simp add: round_pos_idem)
    have "round_pos (z + a) = z" by (rule round_pos_absorbs [OF zz zbig a(2,3)])
    then have "as_secs_f64 d = f64_round z"
      using zpos a(2) zz by (simp add: as f64_round_pos add_pos_nonneg)
    also have "\<dots> = Finite z" using z(1) by (intro f64_round_idem [of "of_nat S"]) auto
    finally have "x < z" using lt by simp
    then have "x < of_nat S" by (rule f64_below_rounded [OF x(1) z(1) x(2)])
    then have "x * of_nat NANOS_PER_SEC < of_nat S * of_nat NANOS_PER_SEC"
      using K by (intro mult_strict_right_mono)
    also have "\<dots> \<le> of_int (int d)" by (simp add: dSN)
    finally show ?thesis by (intro round_half_even_le) simp
  qed
qed

lemma f64_round_ge_pow:
  assumes "f64_round y = Finite z" and "2 powi k \<le> y" and "- 1000 \<le> k" and "k \<le> 0"
  shows "2 powi k \<le> z"
proof -
  have pos: "0 < y" using assms(2) by (rule order_less_le_trans [rotated]) simp
  have "2 powi k \<le> round_pos (2 powi k)"
    using assms(3) ilog2_less [of "2 powi k" "k + 1"]
    by (intro round_pos_ge) (auto simp: quantum_def power_int_add)
  also have "\<dots> \<le> round_pos y" using assms(2) by (intro round_pos_mono) auto
  finally show ?thesis using f64_round_Finite_pos(1) [OF assms(1) pos] by simp
qed

text \<open>The seconds of a duration are a finite number, and positive for a positive duration.\<close>

lemma as_secs_f64_bounds:
  assumes "d div NANOS_PER_SEC < 2 ^ k" and "k \<le> 64"
  shows "\<exists>y. as_secs_f64 d = Finite y \<and> 0 \<le> y \<and> (0 < d \<longrightarrow> 0 < y) \<and> y \<le> 2 ^ Suc k"
proof -
  define S N where "S = d div NANOS_PER_SEC" and "N = d mod NANOS_PER_SEC"
  have "S < 2 ^ k" using assms by (simp add: S_def)
  then obtain z where z: "f64_round (of_nat S) = Finite z" "0 \<le> z" "z \<le> 2 ^ k"
    using f64_round_bounded [of "of_nat S" "int k"] of_nat_less_pow assms(2) by auto
  obtain a where a: "f64_div (f64_round (of_nat N)) (f64_round (of_nat NANOS_PER_SEC)) = Finite a"
    "0 \<le> a" "a < 1"
    using nanos_fraction [of d] unfolding N_def by blast
  have "(1::rat) \<le> 2 ^ k" by simp
  then have "z + a < 2 ^ k + 2 ^ k" using z a by linarith
  then have "z + a < 2 powi int (Suc k)" by (simp add: power_int_add)
  then obtain y where y: "f64_round (z + a) = Finite y" "0 \<le> y" "y \<le> 2 ^ Suc k"
    using f64_round_bounded [of "z + a" "int (Suc k)"] z a assms(2)
    by (auto simp: power_int_def nat_add_distrib)
  have "0 < y" if "0 < d"
  proof -
    have "2 powi - 30 \<le> z + a"
    proof (cases "S = 0")
      case True
      with that have "0 < N" by (auto simp: S_def N_def div_eq_0_iff)
      then have one: "(1::rat) \<le> of_nat N" by simp
      have "N < NANOS_PER_SEC" by (simp add: N_def NANOS_PER_SEC_def)
      then have "f64_round (of_nat N) = Finite (of_nat N)"
        by (intro f64_round_nat) (simp add: NANOS_PER_SEC_def)
      moreover have "f64_round (of_nat NANOS_PER_SEC) = Finite (of_nat NANOS_PER_SEC)"
        by (rule f64_round_nat) (simp add: NANOS_PER_SEC_def)
      ultimately have "f64_round (of_nat N / 1000000000) = Finite a"
        using a(1) by (simp add: NANOS_PER_SEC_def)
      moreover have "2 powi - 30 \<le> of_nat N / (1000000000 :: rat)"
        using one by (simp add: power_int_minus)
      ultimately have "2 powi - 30 \<le> a" by (rule f64_round_ge_pow) simp_all
      with z show ?thesis by simp
    next
      case False
      then have "2 powi 0 \<le> (of_nat S :: rat)" by simp
      with z(1) have "2 powi 0 \<le> z" by (rule f64_round_ge_pow) simp_all
      moreover have "(2::rat) powi - 30 \<le> 1" by (simp add: power_int_minus)
      ultimately show ?thesis using a by simp
    qed
    with y(1) have "2 powi - 30 \<le> y" by (rule f64_round_ge_pow) simp_all
    then show ?thesis by (rule order_less_le_trans [rotated]) simp
  qed
  with y z a show ?thesis by (auto simp: as_secs_f64_def S_def N_def)
qed

lemma as_secs_f64_finite:
  assumes "d \<le> DURATION_MAX"
  shows "\<exists>y. as_secs_f64 d = Finite y \<and> 0 \<le> y \<and> (0 < d \<longrightarrow> 0 < y)"
proof -
  have "d div NANOS_PER_SEC < 2 ^ 64"
    using assms by (simp add: DURATION_MAX_def NANOS_PER_SEC_def div_less_iff_less_mult)
  then show ?thesis using as_secs_f64_bounds [of d 64] by auto
qed

lemma as_secs_f64_le:
  assumes "d \<le> INSTANT_MAX" and "as_secs_f64 d = Finite y"
  shows "y \<le> 2 ^ 64"
proof -
  have "d div NANOS_PER_SEC < 2 ^ 63"
    using assms(1) by (simp add: INSTANT_MAX_def NANOS_PER_SEC_def div_less_iff_less_mult)
  then show ?thesis using as_secs_f64_bounds [of d 63] assms(2) by simp
qed

text \<open>A product that came out finite and not negative is a representable number.\<close>

lemma f64_mul_representable:
  assumes "f64_mul a b = Finite x" and "0 \<le> x"
  shows "f64_round x = Finite x"
proof -
  obtain u v where "a = Finite u" "b = Finite v"
    using assms(1) by (cases a; cases b) (auto simp: f64_inf_def split: if_splits)
  with assms(1) have r: "f64_round (u * v) = Finite x" by simp
  show ?thesis
  proof (cases "0 \<le> u * v")
    case True
    with r show ?thesis by (rule f64_round_idem)
  next
    case False
    then have "x \<le> 0" using r round_pos_nonneg [of "- (u * v)"]
      by (auto simp: f64_round_def Let_def sgn_if abs_if split: if_splits)
    with assms(2) show ?thesis by simp
  qed
qed

lemma scaled_seconds_below:
  assumes "d \<le> DURATION_MAX" and "\<not> f64_le (as_secs_f64 d) (f64_mul a b)"
    and "try_from_secs_f64 (f64_mul a b) = Some n"
  shows "n \<le> d"
proof -
  obtain x where x: "f64_mul a b = Finite x" "0 \<le> x"
      "n = nat (round_half_even (x * of_nat NANOS_PER_SEC))"
    using assms(3) by (cases "f64_mul a b") (auto split: if_splits)
  have "f64_lt (Finite x) (as_secs_f64 d)"
    using assms(2) as_secs_f64_finite [OF assms(1)] x by auto
  then have "round_half_even (x * of_nat NANOS_PER_SEC) \<le> int d"
    by (intro secs_below_duration [OF assms(1) f64_mul_representable [OF x(1,2)] x(2)])
  then show ?thesis by (simp add: x(3))
qed

text \<open>The quotient of a 53-bit integer and \<open>2\<^sup>5\<^sup>3\<close> is exact.\<close>

lemma f64_div_unit:
  assumes "n < 2 ^ 53"
  shows "f64_div (f64_round (of_nat n)) (Finite 9007199254740992)
           = Finite (of_nat n / 9007199254740992)"
proof (cases "n = 0")
  case False
  define r where "r = of_nat n / (9007199254740992 :: rat)"
  have pos: "0 < r" using False by (simp add: r_def)
  have r: "r = of_int (int n) * 2 powi - 53" by (simp add: r_def power_int_minus)
  have lt: "r < 1" using of_nat_less_pow [OF assms] by (simp add: r_def)
  have "ilog2 r < 0" using lt by (intro ilog2_less [OF pos]) simp
  then have "round_pos r = r" by (intro round_pos_exact [OF r]) (simp add: quantum_def)
  moreover have "r < 2 ^ 1024" using lt by simp
  ultimately have "f64_round r = Finite r" using pos by (simp add: f64_round_pos)
  then show ?thesis using f64_round_nat [OF assms] by (simp add: r_def)
qed simp

end
