(* ===== verification/Retry_Backoff.thy ===== *)
theory Retry_Backoff
  imports Float64
begin

text \<open>
  The retry schedules of \<open>libs/retry/src\<close>: \<open>error.rs\<close>, \<open>backoff.rs\<close> and \<open>schedule.rs\<close>. A backoff
  rule gives the delay before the n-th retry, jitter scales it by a random factor, and a schedule
  is a validated combination of an attempt limit, a backoff and a jitter.

  \<open>validate_duration\<close> reads the clock; the argument \<open>clk\<close> of a definition gives its n-th read.
  The functions \<open>ln\<close> and \<open>powf\<close> of the platform's libm are the record \<open>libm\<close>. The lemmas show
  that the cap of an exponential backoff holds on every branch and for every libm, before and after
  jitter, and that a schedule that was built has a delay for each of its retries.
\<close>

section \<open>Configuration errors\<close>

record retry_config_error =
  err_field :: string
  err_reason :: string

definition config_error :: "string \<Rightarrow> string \<Rightarrow> retry_config_error" where
  "config_error f r = \<lparr>err_field = f, err_reason = r\<rparr>"

definition config_error_fmt :: "retry_config_error \<Rightarrow> string" where
  "config_error_fmt e = err_field e @ '': '' @ err_reason e"

section \<open>Backoff rules\<close>

datatype backoff =
    Backoff_None
  | Constant duration
  | Sequence "duration list"
  | Exponential duration f64 duration

datatype jitter =
    Jitter_None
  | Full
  | Proportional f64

text \<open>\<open>f64::ln\<close> and \<open>f64::powf\<close>.\<close>

record libm =
  ln_fn :: "f64 \<Rightarrow> f64"
  powf_fn :: "f64 \<Rightarrow> f64 \<Rightarrow> f64"

abbreviation one_f64 :: f64 where
  "one_f64 \<equiv> Finite 1"

definition validate_duration :: "instant \<Rightarrow> duration \<Rightarrow> string \<Rightarrow> (unit, retry_config_error) result" where
  "validate_duration now delay fld =
     (if instant_checked_add now delay = None
      then Inl (config_error fld ''duration exceeds the monotonic clock range'')
      else Inr ())"

definition duration_from_seconds :: "instant \<Rightarrow> f64 \<Rightarrow> string \<Rightarrow> (duration, retry_config_error) result" where
  "duration_from_seconds now seconds fld =
     try_bind (ok_or (try_from_secs_f64 seconds) (config_error fld ''duration arithmetic overflowed''))
       (\<lambda>delay. try_bind (validate_duration now delay fld) (\<lambda>_. Inr delay))"

definition scale_duration ::
  "instant \<Rightarrow> duration \<Rightarrow> f64 \<Rightarrow> string \<Rightarrow> (duration, retry_config_error) result" where
  "scale_duration now delay factor fld =
     (if f64_eq factor one_f64
      then try_bind (validate_duration now delay fld) (\<lambda>_. Inr delay)
      else duration_from_seconds now (f64_mul (as_secs_f64 delay) factor) fld)"

definition exponential_delay ::
  "libm \<Rightarrow> instant \<Rightarrow> duration \<Rightarrow> f64 \<Rightarrow> duration \<Rightarrow> u32 \<Rightarrow> (duration, retry_config_error) result" where
  "exponential_delay m now initial multiplier mx ordinal =
     (if ordinal = 1 \<or> initial = 0 \<or> f64_eq multiplier one_f64 \<or> initial = mx then Inr initial
      else
        let exponent = f64_round (of_nat (unat (ordinal - 1)));
            initial_seconds = as_secs_f64 initial;
            maximum_seconds = as_secs_f64 mx;
            capped_exponent =
              f64_div (ln_fn m (f64_div maximum_seconds initial_seconds)) (ln_fn m multiplier)
        in if f64_le capped_exponent exponent then Inr mx
           else let seconds = f64_mul initial_seconds (powf_fn m multiplier exponent)
                in if f64_le maximum_seconds seconds then Inr mx
                   else duration_from_seconds now seconds ''backoff.exponential'')"

text \<open>The conversion \<open>usize::try_from(u32)\<close> always succeeds on a 64-bit target.\<close>

definition usize_try_from :: "u32 \<Rightarrow> usize option" where
  "usize_try_from n = (if unat n \<le> USIZE_MAX then Some (unat n) else None)"

text \<open>The \<open>match\<close> of \<open>Backoff::delay_for_validated\<close>, and the whole method.\<close>

definition backoff_base_delay ::
  "libm \<Rightarrow> instant \<Rightarrow> backoff \<Rightarrow> u32 \<Rightarrow> (duration, retry_config_error) result" where
  "backoff_base_delay m now self retry_ordinal =
     (case self of
        Backoff_None \<Rightarrow> Inr 0
      | Constant delay \<Rightarrow> Inr delay
      | Sequence delays \<Rightarrow>
          try_bind
            (ok_or (usize_try_from (retry_ordinal - 1))
              (config_error ''retry_ordinal'' ''cannot be represented on this target''))
            (\<lambda>index. ok_or (get delays index)
              (config_error ''retry_ordinal'' ''exceeds the explicit delay sequence''))
      | Exponential initial multiplier mx \<Rightarrow>
          exponential_delay m now initial multiplier mx retry_ordinal)"

definition backoff_delay_for_validated ::
  "libm \<Rightarrow> clock \<Rightarrow> backoff \<Rightarrow> u32 \<Rightarrow> (duration, retry_config_error) result" where
  "backoff_delay_for_validated m clk self retry_ordinal =
     (if retry_ordinal = 0 then Inl (config_error ''retry_ordinal'' ''must be at least one'')
      else try_bind (backoff_base_delay m (clk 0) self retry_ordinal)
        (\<lambda>delay. try_bind (validate_duration (clk 1) delay ''backoff.delay'') (\<lambda>_. Inr delay)))"

text \<open>The loop over a sequence: the i-th delay is checked against the i-th read of the clock.\<close>

fun validate_delays :: "clock \<Rightarrow> duration list \<Rightarrow> (unit, retry_config_error) result" where
  "validate_delays clk [] = Inr ()"
| "validate_delays clk (delay # delays) =
     try_bind (validate_duration (clk 0) delay ''backoff.sequence'')
       (\<lambda>_. validate_delays (\<lambda>n. clk (Suc n)) delays)"

definition backoff_validate_values :: "clock \<Rightarrow> backoff \<Rightarrow> (unit, retry_config_error) result" where
  "backoff_validate_values clk self =
     (case self of
        Backoff_None \<Rightarrow> Inr ()
      | Constant delay \<Rightarrow> validate_duration (clk 0) delay ''backoff.constant''
      | Sequence delays \<Rightarrow> validate_delays clk delays
      | Exponential initial multiplier mx \<Rightarrow>
          if \<not> is_finite multiplier \<or> f64_lt multiplier one_f64
          then Inl (config_error ''backoff.multiplier'' ''must be finite and at least one'')
          else if mx < initial
          then Inl (config_error ''backoff.max'' ''must not be below the initial delay'')
          else try_bind (validate_duration (clk 0) initial ''backoff.initial'')
                 (\<lambda>_. validate_duration (clk 1) mx ''backoff.max''))"

text \<open>The public \<open>Backoff::delay_for\<close>; the second clock serves the delay itself.\<close>

definition backoff_delay_for ::
  "libm \<Rightarrow> clock \<Rightarrow> clock \<Rightarrow> backoff \<Rightarrow> u32 \<Rightarrow> (duration, retry_config_error) result" where
  "backoff_delay_for m clk clk' self retry_ordinal =
     (if retry_ordinal = 0 then Inl (config_error ''retry_ordinal'' ''must be at least one'')
      else try_bind (backoff_validate_values clk self)
             (\<lambda>_. backoff_delay_for_validated m clk' self retry_ordinal))"

definition u64_try_from :: "usize \<Rightarrow> u64 option" where
  "u64_try_from n = (if n < 2 ^ 64 then Some (of_nat n) else None)"

definition backoff_validate :: "clock \<Rightarrow> backoff \<Rightarrow> u32 \<Rightarrow> (unit, retry_config_error) result" where
  "backoff_validate clk self max_attempts =
     try_bind (backoff_validate_values clk self) (\<lambda>_.
       case self of
         Sequence delays \<Rightarrow>
           let expected = saturating_sub max_attempts 1
           in if u64_try_from (length delays) \<noteq> Some (ucast expected)
              then Inl (config_error ''backoff.sequence''
                     (''requires '' @ show_nat (unat expected) @ '' delays, received '' @
                      show_nat (length delays)))
              else Inr ()
       | _ \<Rightarrow> Inr ())"

definition backoff_maximum_delay :: "backoff \<Rightarrow> duration" where
  "backoff_maximum_delay self =
     (case self of
        Backoff_None \<Rightarrow> 0
      | Constant delay \<Rightarrow> delay
      | Sequence delays \<Rightarrow> (if delays = [] then 0 else Max (set delays))
      | Exponential _ _ mx \<Rightarrow> mx)"

section \<open>Jitter\<close>

definition in_unit_interval :: "f64 \<Rightarrow> bool" where
  "in_unit_interval x = (f64_le (Finite 0) x \<and> f64_le x one_f64)"

definition jitter_validate :: "instant \<Rightarrow> jitter \<Rightarrow> backoff \<Rightarrow> (unit, retry_config_error) result" where
  "jitter_validate now self b =
     (case self of
        Proportional ratio \<Rightarrow>
          if \<not> is_finite ratio \<or> \<not> in_unit_interval ratio
          then Inl (config_error ''jitter.ratio'' ''must be finite and between zero and one'')
          else (case b of
                  Exponential _ _ _ \<Rightarrow> Inr ()
                | _ \<Rightarrow> try_bind
                         (scale_duration now (backoff_maximum_delay b) (f64_add one_f64 ratio)
                           ''jitter.delay'')
                         (\<lambda>_. Inr ()))
      | _ \<Rightarrow> Inr ())"

definition jitter_apply ::
  "instant \<Rightarrow> jitter \<Rightarrow> duration \<Rightarrow> f64 \<Rightarrow> backoff \<Rightarrow> (duration, retry_config_error) result" where
  "jitter_apply now self delay unit_sample b =
     (if \<not> is_finite unit_sample \<or> \<not> in_unit_interval unit_sample
      then Inl (config_error ''jitter.sample'' ''must be between zero and one'')
      else
        let scaled = (\<lambda>factor.
              let seconds = f64_mul (as_secs_f64 delay) factor
              in case b of
                   Exponential _ _ mx \<Rightarrow>
                     if f64_le (as_secs_f64 mx) seconds then Inr mx
                     else scale_duration now delay factor ''jitter.delay''
                 | _ \<Rightarrow> scale_duration now delay factor ''jitter.delay'')
        in case self of
             Jitter_None \<Rightarrow> Inr delay
           | Full \<Rightarrow> scaled unit_sample
           | Proportional ratio \<Rightarrow>
               scaled (f64_add (f64_sub one_f64 ratio)
                        (f64_mul (f64_mul (Finite 2) ratio) unit_sample)))"

section \<open>Schedules\<close>

datatype 'p retry_setting = Inherit | Disabled_setting | Policy 'p

definition resolve :: "'p retry_setting \<Rightarrow> 'p \<Rightarrow> 'p \<Rightarrow> 'p" where
  "resolve self dflt disabled =
     (case self of Inherit \<Rightarrow> dflt | Disabled_setting \<Rightarrow> disabled | Policy policy \<Rightarrow> policy)"

datatype retry_decision = Decision_Default | Decision_Retry | Decision_Stop

record retry_schedule =
  max_attempts :: u32
  sch_backoff :: backoff
  sch_jitter :: jitter

definition no_retry :: retry_schedule where
  "no_retry = \<lparr>max_attempts = 1, sch_backoff = Backoff_None, sch_jitter = Jitter_None\<rparr>"

definition schedule_delay_for ::
  "libm \<Rightarrow> clock \<Rightarrow> retry_schedule \<Rightarrow> u32 \<Rightarrow> (duration, retry_config_error) result" where
  "schedule_delay_for m clk self retry_ordinal =
     (if retry_ordinal = 0 \<or> max_attempts self \<le> retry_ordinal
      then Inl (config_error ''retry_ordinal'' ''must be between one and max_attempts - 1'')
      else backoff_delay_for_validated m clk (sch_backoff self) retry_ordinal)"

definition sampled_delay ::
  "libm \<Rightarrow> clock \<Rightarrow> retry_schedule \<Rightarrow> u32 \<Rightarrow> f64 \<Rightarrow> (duration, retry_config_error) result" where
  "sampled_delay m clk self retry_ordinal unit_sample =
     try_bind (schedule_delay_for m clk self retry_ordinal)
       (\<lambda>delay. jitter_apply (clk 2) (sch_jitter self) delay unit_sample (sch_backoff self))"

text \<open>
  The builder has the fields of a schedule, so both are the record \<open>retry_schedule\<close>;
  \<open>build\<close> is what makes a builder a schedule. The clock serves the backoff's reads, \<open>now\<close> the
  jitter's.
\<close>

definition builder_default :: retry_schedule where
  "builder_default = \<lparr>max_attempts = 1, sch_backoff = Backoff_None, sch_jitter = Jitter_None\<rparr>"

definition builder_max_attempts :: "u32 \<Rightarrow> retry_schedule \<Rightarrow> retry_schedule" where
  "builder_max_attempts count self = self\<lparr>max_attempts := count\<rparr>"

definition builder_backoff :: "backoff \<Rightarrow> retry_schedule \<Rightarrow> retry_schedule" where
  "builder_backoff b self = self\<lparr>sch_backoff := b\<rparr>"

definition builder_jitter :: "jitter \<Rightarrow> retry_schedule \<Rightarrow> retry_schedule" where
  "builder_jitter j self = self\<lparr>sch_jitter := j\<rparr>"

definition build :: "clock \<Rightarrow> instant \<Rightarrow> retry_schedule \<Rightarrow> (retry_schedule, retry_config_error) result" where
  "build clk now self =
     (if max_attempts self = 0 then Inl (config_error ''max_attempts'' ''must be at least one'')
      else try_bind (backoff_validate clk (sch_backoff self) (max_attempts self)) (\<lambda>_.
           try_bind (jitter_validate now (sch_jitter self) (sch_backoff self)) (\<lambda>_. Inr self)))"

section \<open>The cap\<close>

lemma validate_duration_Inr: "validate_duration now d f = Inr u \<longleftrightarrow> now + d \<le> INSTANT_MAX"
  by (simp add: validate_duration_def instant_checked_add_def)

lemma instant_fits_duration: "n + d \<le> INSTANT_MAX \<Longrightarrow> d \<le> DURATION_MAX"
  by (simp add: INSTANT_MAX_def DURATION_MAX_def NANOS_PER_SEC_def)

lemma duration_from_seconds_Inr:
  "duration_from_seconds now s f = Inr d \<longleftrightarrow> try_from_secs_f64 s = Some d \<and> now + d \<le> INSTANT_MAX"
  by (auto simp: duration_from_seconds_def try_bind_Inr validate_duration_Inr)

lemma exponential_delay_le:
  assumes "exponential_delay m now i mul mx n = Inr d" and "i \<le> mx" and "mx \<le> DURATION_MAX"
  shows "d \<le> mx"
  using assms scaled_seconds_below [OF assms(3)]
  by (auto simp: exponential_delay_def Let_def duration_from_seconds_Inr split: if_splits)

lemma jitter_apply_le:
  assumes "jitter_apply now j d u (Exponential i mul mx) = Inr d'" and "d \<le> mx"
    and "mx \<le> DURATION_MAX"
  shows "d' \<le> mx"
  using assms scaled_seconds_below [OF assms(3)]
  by (auto simp: jitter_apply_def Let_def scale_duration_def duration_from_seconds_Inr try_bind_Inr
      split: if_splits jitter.splits)

text \<open>What a schedule that was built satisfies, whatever the clock said later.\<close>

definition backoff_wf :: "backoff \<Rightarrow> u32 \<Rightarrow> bool" where
  "backoff_wf b n =
     (case b of
        Sequence delays \<Rightarrow> length delays = unat n - 1
      | Exponential i mul mx \<Rightarrow>
          is_finite mul \<and> \<not> f64_lt mul one_f64 \<and> i \<le> mx \<and> mx \<le> DURATION_MAX
      | _ \<Rightarrow> True)"

definition schedule_wf :: "retry_schedule \<Rightarrow> bool" where
  "schedule_wf s \<longleftrightarrow> max_attempts s \<noteq> 0 \<and> backoff_wf (sch_backoff s) (max_attempts s)
     \<and> (case sch_jitter s of Proportional r \<Rightarrow> is_finite r \<and> in_unit_interval r | _ \<Rightarrow> True)"

lemma unat_u32_as_u64: "unat (ucast (n :: u32) :: u64) = unat n"
  using u32_less [of n] by (simp add: unsigned_ucast_eq take_bit_nat_eq_self)

lemma u64_try_from_u32: "u64_try_from k = Some (ucast (n :: u32)) \<longleftrightarrow> k = unat n"
proof
  assume "u64_try_from k = Some (ucast n)"
  then have k: "k < 2 ^ 64" "(of_nat k :: u64) = ucast n" by (auto simp: u64_try_from_def split: if_splits)
  from k(2) have "unat (of_nat k :: u64) = unat n" by (simp add: unat_u32_as_u64)
  with k(1) show "k = unat n" by (simp add: unat_of_nat)
next
  assume "k = unat n"
  with u32_less [of n] show "u64_try_from k = Some (ucast n)" by (simp add: u64_try_from_def)
qed

lemma backoff_validate_wf: "backoff_validate clk b n = Inr () \<Longrightarrow> backoff_wf b n"
  by (auto simp: backoff_validate_def backoff_validate_values_def backoff_wf_def try_bind_Inr
      u64_try_from_u32 unat_saturating_sub validate_duration_Inr instant_fits_duration
      Let_def split: backoff.splits if_splits)

lemma build_wf: "build clk now b = Inr s \<Longrightarrow> s = b \<and> schedule_wf s"
  by (auto simp: build_def schedule_wf_def try_bind_Inr jitter_validate_def backoff_validate_wf
      split: if_splits jitter.splits)

section \<open>A schedule has a delay for each of its retries\<close>

text \<open>
  The documented range of \<open>f64::powf\<close>: a power of a base at least one to a non-negative exponent
  is a non-negative number or overflows to infinity.
\<close>

definition powf_range :: "libm \<Rightarrow> bool" where
  "powf_range m \<longleftrightarrow> (\<forall>x y. 1 \<le> x \<longrightarrow> 0 \<le> y \<longrightarrow>
     powf_fn m (Finite x) (Finite y) = PosInf \<or> (\<exists>z\<ge>0. powf_fn m (Finite x) (Finite y) = Finite z))"

lemma u32_exponent: "f64_round (of_nat (unat (n :: u32))) = Finite (of_nat (unat n))"
  by (rule f64_round_nat) (rule order_less_trans [OF u32_less], simp)

lemma f64_mul_nonneg_shape:
  assumes "0 < x" and "b = PosInf \<or> (\<exists>z\<ge>0. b = Finite z)"
  shows "f64_mul (Finite x) b = PosInf \<or> (\<exists>y\<ge>0. f64_mul (Finite x) b = Finite y)"
proof (cases b)
  case (Finite z)
  then have z: "0 \<le> z" using assms(2) by simp
  show ?thesis
  proof (cases "x * z = 0")
    case True
    with Finite show ?thesis by (simp add: True)
  next
    case False
    then have "0 < x * z" using assms(1) z by simp
    with Finite show ?thesis using round_pos_nonneg by (auto simp: f64_round_pos)
  qed
qed (use assms in \<open>auto simp: f64_inf_def\<close>)

lemma exponential_delay_total:
  assumes m: "powf_range m" and mul: "is_finite mul" "\<not> f64_lt mul one_f64"
    and i: "i \<le> mx" and mx: "mx \<le> DURATION_MAX" "now + mx \<le> INSTANT_MAX"
  shows "\<exists>d. exponential_delay m now i mul mx n = Inr d"
proof (cases "n = 1 \<or> i = 0 \<or> f64_eq mul one_f64 \<or> i = mx")
  case False
  obtain r where r: "mul = Finite r" "1 \<le> r" using mul by (cases mul) auto
  have "i \<le> DURATION_MAX" using i mx by simp
  then obtain a where a: "as_secs_f64 i = Finite a" "0 < a"
    using as_secs_f64_finite [of i] False by auto
  obtain b where b: "as_secs_f64 mx = Finite b" using as_secs_f64_finite [OF mx(1)] by blast
  define p where "p = powf_fn m mul (f64_round (of_nat (unat (n - 1))))"
  have "p = PosInf \<or> (\<exists>z\<ge>0. p = Finite z)"
    unfolding p_def u32_exponent r(1)
    using m r(2) of_nat_0_le_iff [of "unat (n - 1)"] unfolding powf_range_def by blast
  with a(2) have s: "f64_mul (as_secs_f64 i) p = PosInf \<or> (\<exists>y\<ge>0. f64_mul (as_secs_f64 i) p = Finite y)"
    unfolding a(1) by (rule f64_mul_nonneg_shape)
  show ?thesis
  proof (cases "f64_le (as_secs_f64 mx) (f64_mul (as_secs_f64 i) p)")
    case True
    then show ?thesis by (auto simp: exponential_delay_def Let_def p_def)
  next
    case le: False
    then obtain y where y: "f64_mul (as_secs_f64 i) p = Finite y" "0 \<le> y" "y < b"
      using s b by auto
    have "b \<le> 2 ^ 64" using mx(2) by (intro as_secs_f64_le [OF _ b]) simp
    with y have t: "try_from_secs_f64 (f64_mul (as_secs_f64 i) p)
        = Some (nat (round_half_even (y * of_nat NANOS_PER_SEC)))" by simp
    then have "nat (round_half_even (y * of_nat NANOS_PER_SEC)) \<le> mx"
      by (rule scaled_seconds_below [OF mx(1) le])
    with mx(2) t have "\<exists>d. duration_from_seconds now (f64_mul (as_secs_f64 i) p) ''backoff.exponential'' = Inr d"
      by (auto simp: duration_from_seconds_Inr)
    then show ?thesis by (auto simp: exponential_delay_def Let_def p_def)
  qed
qed (auto simp: exponential_delay_def)

lemma backoff_base_delay_total:
  assumes m: "powf_range m" and wf: "backoff_wf b k" and n: "n \<noteq> 0" "n < k"
    and now: "now + backoff_maximum_delay b \<le> INSTANT_MAX"
  shows "\<exists>d. backoff_base_delay m now b n = Inr d"
proof (cases b)
  case (Sequence delays)
  have "unat (n - 1) \<le> USIZE_MAX"
    using u32_less [of "n - 1"] by (simp add: USIZE_MAX_def)
  moreover have "unat (n - 1) < length delays"
    using n wf Sequence unat_gt_0 [of n] by (auto simp: unat_pred backoff_wf_def word_less_nat_alt)
  ultimately show ?thesis using Sequence
    by (auto simp: backoff_base_delay_def usize_try_from_def get_def)
next
  case (Exponential i mul mx)
  with wf now have "\<exists>d. exponential_delay m now i mul mx n = Inr d"
    by (intro exponential_delay_total [OF m]) (auto simp: backoff_wf_def backoff_maximum_delay_def)
  then show ?thesis using Exponential by (simp add: backoff_base_delay_def)
qed (auto simp: backoff_base_delay_def)

lemma backoff_base_delay_le:
  assumes "backoff_base_delay m now b n = Inr d" and "backoff_wf b k"
  shows "d \<le> backoff_maximum_delay b"
  using assms
  by (auto simp: backoff_base_delay_def backoff_maximum_delay_def backoff_wf_def
      try_bind_Inr usize_try_from_def exponential_delay_le intro!: Max_ge
      split: backoff.splits if_splits)

lemma backoff_delay_le:
  "backoff_delay_for_validated m clk b n = Inr d \<Longrightarrow> backoff_wf b k \<Longrightarrow> d \<le> backoff_maximum_delay b"
  by (auto simp: backoff_delay_for_validated_def try_bind_Inr backoff_base_delay_le split: if_splits)

lemma backoff_delay_total:
  assumes m: "powf_range m" and wf: "backoff_wf b k" and n: "n \<noteq> 0" "n < k"
    and clk: "\<And>i. clk i + backoff_maximum_delay b \<le> INSTANT_MAX"
  shows "\<exists>d. backoff_delay_for_validated m clk b n = Inr d"
proof -
  obtain d where d: "backoff_base_delay m (clk 0) b n = Inr d"
    using backoff_base_delay_total [OF m wf n clk] by blast
  then have "d \<le> backoff_maximum_delay b" using wf by (rule backoff_base_delay_le)
  with d n(1) clk [of 1] show ?thesis
    by (auto simp: backoff_delay_for_validated_def try_bind_Inr validate_duration_Inr)
qed

end
