(* ===== verification/Retry_State.thy ===== *)
theory Retry_State
  imports Retry_Backoff
begin

text \<open>
  The state of one operation's retries: \<open>libs/retry/src/state.rs\<close> and the observation types of
  \<open>libs/retry/src/observation.rs\<close>. The state is a record, a method that takes \<open>&mut self\<close> returns the
  new state first. \<open>RetryState::new\<close> seeds the delay randomizer from the process's hasher keys; the
  seed is an argument here (\<open>with_seed\<close>), so the lemmas hold for every seed.

  The lemmas: the invariant \<open>retry_inv\<close> over every sequence of calls, the attempt budget, the
  delay sampled once per attempt and capped, and the terminal reason that never changes.
\<close>

unbundle bit_operations_syntax

section \<open>Observations\<close>

datatype retry_stop_reason =
    Completed | NotRetryable | ClassifierStopped | Stop_AttemptsExhausted | Disabled
  | UnsafeToReplay | Cancelled | TimedOut | Shutdown | PolicyFailed

record retry_context =
  ctx_attempt :: u32
  ctx_elapsed :: duration
  ctx_remaining :: "duration option"

record retry_report =
  rep_attempts :: u32
  rep_retry_count :: u32
  rep_transport_sends :: u64
  rep_elapsed :: duration
  rep_stop_reason :: "retry_stop_reason option"

definition retry_report_default :: retry_report where
  "retry_report_default = \<lparr>rep_attempts = 0, rep_retry_count = 0, rep_transport_sends = 0,
     rep_elapsed = 0, rep_stop_reason = None\<rparr>"

datatype retry_event =
    AttemptStarted u32
  | AttemptFinished u32 bool
  | RetryScheduled u32 duration
  | Event_Completed retry_report

section \<open>State and errors\<close>

record retry_state =
  schedule :: retry_schedule
  attempts :: u32
  transport_sends :: u64
  random :: u64
  pending_delay :: "duration option"
  stop_reason :: "retry_stop_reason option"

datatype retry_state_error =
    State_Finished
  | State_AttemptsExhausted
  | AttemptNotStarted
  | TransportCountOverflow
  | Schedule retry_config_error

definition retry_state_error_fmt :: "retry_state_error \<Rightarrow> string" where
  "retry_state_error_fmt self =
     (case self of
        State_Finished \<Rightarrow> ''retry operation has already finished''
      | State_AttemptsExhausted \<Rightarrow> ''retry attempt budget is exhausted''
      | AttemptNotStarted \<Rightarrow> ''no retry attempt has started''
      | TransportCountOverflow \<Rightarrow> ''transport send counter overflowed''
      | Schedule error \<Rightarrow> config_error_fmt error)"

definition retry_state_error_source :: "retry_state_error \<Rightarrow> retry_config_error option" where
  "retry_state_error_source self = (case self of Schedule error \<Rightarrow> Some error | _ \<Rightarrow> None)"

section \<open>Operations\<close>

definition with_seed :: "retry_schedule \<Rightarrow> u64 \<Rightarrow> retry_state" where
  "with_seed sched seed = \<lparr>schedule = sched, attempts = 0, transport_sends = 0, random = seed,
     pending_delay = None, stop_reason = None\<rparr>"

definition begin_attempt :: "retry_state \<Rightarrow> retry_state \<times> (u32, retry_state_error) result" where
  "begin_attempt self =
     (if is_some (stop_reason self) then (self, Inl State_Finished)
      else if max_attempts (schedule self) \<le> attempts self then (self, Inl State_AttemptsExhausted)
      else case checked_add (attempts self) 1 of
             None \<Rightarrow> (self, Inl State_AttemptsExhausted)
           | Some n \<Rightarrow> (self\<lparr>attempts := n, pending_delay := None\<rparr>, Inr n))"

definition can_retry :: "retry_state \<Rightarrow> bool" where
  "can_retry self \<longleftrightarrow> stop_reason self = None \<and> 0 < attempts self
     \<and> attempts self < max_attempts (schedule self)"

definition splitmix_output :: "u64 \<Rightarrow> u64" where
  "splitmix_output state =
     (let value = (state XOR drop_bit 30 state) * 0xBF58476D1CE4E5B9;
          value = (value XOR drop_bit 27 value) * 0x94D049BB133111EB
      in value XOR drop_bit 31 value)"

definition next_unit :: "retry_state \<Rightarrow> retry_state \<times> f64" where
  "next_unit self =
     (let r = random self + 0x9E3779B97F4A7C15;
          value = splitmix_output r
      in (self\<lparr>random := r\<rparr>,
          f64_div (f64_round (of_nat (unat (drop_bit 11 value)))) (Finite 9007199254740992)))"

definition next_delay ::
  "libm \<Rightarrow> clock \<Rightarrow> retry_state \<Rightarrow> retry_state \<times> (duration option, retry_state_error) result" where
  "next_delay m clk self =
     (if attempts self = 0 then (self, Inl AttemptNotStarted)
      else if \<not> can_retry self then (self, Inr None)
      else case pending_delay self of
             Some delay \<Rightarrow> (self, Inr (Some delay))
           | None \<Rightarrow>
               (let (self, sample) = next_unit self
                in case sampled_delay m clk (schedule self) (attempts self) sample of
                     Inl e \<Rightarrow> (self, Inl (Schedule e))
                   | Inr delay \<Rightarrow> (self\<lparr>pending_delay := Some delay\<rparr>, Inr (Some delay))))"

definition record_transport_send :: "retry_state \<Rightarrow> retry_state \<times> (unit, retry_state_error) result" where
  "record_transport_send self =
     (if is_some (stop_reason self) then (self, Inl State_Finished)
      else if attempts self = 0 then (self, Inl AttemptNotStarted)
      else case checked_add (transport_sends self) 1 of
             None \<Rightarrow> (self, Inl TransportCountOverflow)
           | Some n \<Rightarrow> (self\<lparr>transport_sends := n\<rparr>, Inr ()))"

definition finish :: "retry_state \<Rightarrow> retry_stop_reason \<Rightarrow> retry_state \<times> bool" where
  "finish self r =
     (if is_some (stop_reason self) then (self, False)
      else (self\<lparr>stop_reason := Some r, pending_delay := None\<rparr>, True))"

definition report :: "retry_state \<Rightarrow> duration \<Rightarrow> retry_report" where
  "report self el = \<lparr>rep_attempts = attempts self, rep_retry_count = saturating_sub (attempts self) 1,
     rep_transport_sends = transport_sends self, rep_elapsed = el, rep_stop_reason = stop_reason self\<rparr>"

definition context_of :: "retry_state \<Rightarrow> duration \<Rightarrow> duration option \<Rightarrow> retry_context" where
  "context_of self el remaining = \<lparr>ctx_attempt = attempts self, ctx_elapsed = el, ctx_remaining = remaining\<rparr>"

section \<open>Sequences of calls\<close>

datatype retry_op = Begin | Next clock | Send | Finish retry_stop_reason

fun retry_step :: "libm \<Rightarrow> retry_op \<Rightarrow> retry_state \<Rightarrow> retry_state" where
  "retry_step m Begin s = fst (begin_attempt s)"
| "retry_step m (Next clk) s = fst (next_delay m clk s)"
| "retry_step m Send s = fst (record_transport_send s)"
| "retry_step m (Finish r) s = fst (finish s r)"

definition retry_run :: "libm \<Rightarrow> retry_op list \<Rightarrow> retry_state \<Rightarrow> retry_state" where
  "retry_run m ops s = fold (retry_step m) ops s"

text \<open>
  The invariant of the type: the attempts stay within the schedule, a sampled delay exists only
  while a retry is possible, and a send needs a started attempt.
\<close>

definition retry_inv :: "retry_state \<Rightarrow> bool" where
  "retry_inv s \<longleftrightarrow> attempts s \<le> max_attempts (schedule s)
     \<and> (pending_delay s \<noteq> None \<longrightarrow> can_retry s)
     \<and> (transport_sends s \<noteq> 0 \<longrightarrow> attempts s \<noteq> 0)"

lemma retry_inv_with_seed: "retry_inv (with_seed sched seed)"
  by (simp add: retry_inv_def with_seed_def)

lemma checked_inc_le:
  fixes a b :: "'a::len word"
  assumes "a < b" and "checked_add a 1 = Some c"
  shows "c \<le> b" and "c \<noteq> 0"
proof -
  have "unat c = unat a + unat (1 :: 'a word)" using assms(2) by (rule unat_checked_add)
  then have c: "unat c = unat a + 1" by simp
  then show "c \<noteq> 0" by (auto simp: unat_eq_zero)
  from c assms(1) show "c \<le> b" by (simp add: word_less_nat_alt word_le_nat_alt)
qed

lemma begin_attempt_inv: "retry_inv s \<Longrightarrow> retry_inv (fst (begin_attempt s))"
  by (auto simp: begin_attempt_def retry_inv_def is_some_def not_le checked_inc_le
      split: option.splits)

lemma next_delay_fields:
  "schedule (fst (next_delay m clk s)) = schedule s"
  "attempts (fst (next_delay m clk s)) = attempts s"
  "transport_sends (fst (next_delay m clk s)) = transport_sends s"
  "stop_reason (fst (next_delay m clk s)) = stop_reason s"
  by (auto simp: next_delay_def next_unit_def Let_def split: option.splits sum.splits)

lemma next_delay_inv: "retry_inv s \<Longrightarrow> retry_inv (fst (next_delay m clk s))"
  by (auto simp: next_delay_def retry_inv_def next_unit_def Let_def can_retry_def
      split: option.splits sum.splits)

lemma record_transport_send_inv: "retry_inv s \<Longrightarrow> retry_inv (fst (record_transport_send s))"
  by (auto simp: record_transport_send_def retry_inv_def can_retry_def split: option.splits)

lemma finish_inv: "retry_inv s \<Longrightarrow> retry_inv (fst (finish s r))"
  by (auto simp: finish_def retry_inv_def)

lemma retry_step_inv: "retry_inv s \<Longrightarrow> retry_inv (retry_step m op s)"
  by (cases op) (simp_all add: begin_attempt_inv next_delay_inv record_transport_send_inv finish_inv)

lemma retry_run_Nil [simp]: "retry_run m [] s = s"
  by (simp add: retry_run_def)

lemma retry_run_Cons [simp]: "retry_run m (op # ops) s = retry_run m ops (retry_step m op s)"
  by (simp add: retry_run_def)

lemma retry_run_inv: "retry_inv s \<Longrightarrow> retry_inv (retry_run m ops s)"
  by (induction ops arbitrary: s) (auto intro: retry_step_inv)

lemma retry_step_schedule [simp]: "schedule (retry_step m op s) = schedule s"
  by (cases op) (auto simp: begin_attempt_def next_delay_fields record_transport_send_def finish_def
      split: option.splits)

lemma retry_run_schedule [simp]: "schedule (retry_run m ops s) = schedule s"
  by (induction ops arbitrary: s) auto

text \<open>How many of a sequence's calls to \<open>begin_attempt\<close> were granted.\<close>

fun granted :: "libm \<Rightarrow> retry_op list \<Rightarrow> retry_state \<Rightarrow> nat" where
  "granted m [] s = 0"
| "granted m (op # ops) s =
     (if op = Begin \<and> \<not> is_err (snd (begin_attempt s)) then 1 else 0) + granted m ops (retry_step m op s)"

lemma begin_attempt_count:
  "unat (attempts (fst (begin_attempt s)))
     = unat (attempts s) + (if is_err (snd (begin_attempt s)) then 0 else 1)"
proof (cases "is_err (snd (begin_attempt s))")
  case True
  then show ?thesis by (auto simp: begin_attempt_def std_simps split: option.splits if_splits)
next
  case False
  then obtain n where n: "checked_add (attempts s) 1 = Some n" "attempts (fst (begin_attempt s)) = n"
    by (auto simp: begin_attempt_def is_err_def split: option.splits if_splits)
  have "unat n = unat (attempts s) + 1" using unat_checked_add [OF n(1)] by simp
  with n False show ?thesis by simp
qed

lemma granted_attempts: "unat (attempts (retry_run m ops s)) = unat (attempts s) + granted m ops s"
proof (induction ops arbitrary: s)
  case (Cons op ops)
  have "unat (attempts (retry_step m op s)) = unat (attempts s)
      + (if op = Begin \<and> \<not> is_err (snd (begin_attempt s)) then 1 else 0)"
    by (cases op) (auto simp: begin_attempt_count next_delay_fields record_transport_send_def
        finish_def split: option.splits)
  with Cons show ?case by simp
qed simp

section \<open>Once finished\<close>

lemma finished_step:
  assumes "stop_reason s = Some r"
  shows "stop_reason (retry_step m op s) = Some r" and "attempts (retry_step m op s) = attempts s"
    and "transport_sends (retry_step m op s) = transport_sends s"
  using assms
  by (cases op; auto simp: begin_attempt_def next_delay_fields record_transport_send_def finish_def
      is_some_def split: option.splits)+

lemma finished_run:
  assumes "stop_reason s = Some r"
  shows "stop_reason (retry_run m ops s) = Some r \<and> attempts (retry_run m ops s) = attempts s
    \<and> transport_sends (retry_run m ops s) = transport_sends s"
  using assms by (induction ops arbitrary: s) (simp_all add: finished_step)

section \<open>The random stream\<close>

lemma unat_drop_bit_11: "unat (drop_bit 11 (w :: u64)) < 2 ^ 53"
proof -
  have w: "unat w < 2 ^ 64" by (rule u64_less)
  then have "unat (drop_bit 11 w) = unat w div 2 ^ 11"
    by (simp add: unsigned_drop_bit_eq drop_bit_nat_def take_bit_nat_eq_self)
  with w show ?thesis by (simp add: less_mult_imp_div_less)
qed

lemma next_unit_value:
  "snd (next_unit s) = Finite (of_nat (unat (drop_bit 11 (splitmix_output (random (fst (next_unit s))))))
                              / 9007199254740992)"
  unfolding next_unit_def Let_def by (simp only: fst_conv snd_conv f64_div_unit [OF unat_drop_bit_11]) simp

lemma next_unit_range: "\<exists>u. snd (next_unit s) = Finite u \<and> 0 \<le> u \<and> u < 1"
proof -
  define n where "n = unat (drop_bit 11 (splitmix_output (random (fst (next_unit s)))))"
  have "(of_nat n :: rat) < 2 ^ 53" unfolding n_def by (rule of_nat_less_pow [OF unat_drop_bit_11])
  then have "0 \<le> of_nat n / (9007199254740992 :: rat) \<and> of_nat n / (9007199254740992 :: rat) < 1" by simp
  then show ?thesis unfolding next_unit_value n_def [symmetric] by blast
qed

section \<open>Delays within the cap\<close>

lemma sampled_delay_le:
  assumes "schedule_wf sched" and "sch_backoff sched = Exponential i mul mx"
    and "sampled_delay m clk sched n u = Inr d"
  shows "d \<le> mx"
proof -
  obtain d0 where d0: "backoff_delay_for_validated m clk (sch_backoff sched) n = Inr d0"
    and ap: "jitter_apply (clk 2) (sch_jitter sched) d0 u (Exponential i mul mx) = Inr d"
    using assms(2,3) by (auto simp: sampled_delay_def schedule_delay_for_def try_bind_Inr split: if_splits)
  have wf: "backoff_wf (Exponential i mul mx) (max_attempts sched)"
    using assms(1,2) by (simp add: schedule_wf_def)
  have "d0 \<le> mx" using backoff_delay_le [OF d0] wf assms(2) by (simp add: backoff_maximum_delay_def)
  then show ?thesis using wf by (intro jitter_apply_le [OF ap]) (auto simp: backoff_wf_def)
qed

lemma next_delay_result_le:
  assumes "schedule_wf (schedule s)" and "sch_backoff (schedule s) = Exponential i mul mx"
    and "\<And>d. pending_delay s = Some d \<Longrightarrow> d \<le> mx"
  shows "snd (next_delay m clk s) = Inr (Some d) \<Longrightarrow> d \<le> mx"
    and "pending_delay (fst (next_delay m clk s)) = Some d \<Longrightarrow> d \<le> mx"
  using assms sampled_delay_le [OF assms(1,2)]
  by (auto simp: next_delay_def next_unit_def Let_def split: option.splits sum.splits if_splits)

lemma retry_step_pending_le:
  assumes "schedule_wf (schedule s)" and "sch_backoff (schedule s) = Exponential i mul mx"
    and "\<And>d. pending_delay s = Some d \<Longrightarrow> d \<le> mx"
  shows "pending_delay (retry_step m op s) = Some d \<Longrightarrow> d \<le> mx"
  using assms next_delay_result_le(2) [OF assms]
  by (cases op) (auto simp: begin_attempt_def record_transport_send_def finish_def
      split: option.splits if_splits)

lemma retry_run_pending_le:
  assumes "schedule_wf (schedule s)" and "sch_backoff (schedule s) = Exponential i mul mx"
    and "\<And>d. pending_delay s = Some d \<Longrightarrow> d \<le> mx"
  shows "pending_delay (retry_run m ops s) = Some d \<Longrightarrow> d \<le> mx"
  using assms
proof (induction ops arbitrary: s)
  case (Cons op ops)
  show ?case
    by (rule Cons.IH [of "retry_step m op s"]) (use Cons.prems retry_step_pending_le in auto)
qed simp

section \<open>Properties\<close>

text \<open>C36. However the calls of one operation are ordered, no delay that \<open>next_delay\<close> hands out exceeds
  the configured maximum of an exponential schedule: for every libm, every jitter, every seed of the
  random stream and every clock.\<close>

theorem retry_delays_capped:
  assumes "build clk now b = Inr sched" and "sch_backoff sched = Exponential initial mul mx"
    and "snd (next_delay m clk' (retry_run m ops (with_seed sched seed))) = Inr (Some d)"
  shows "d \<le> mx"
proof (rule next_delay_result_le(1) [OF _ _ _ assms(3)])
  have wf: "schedule_wf sched" using build_wf [OF assms(1)] by blast
  then show "schedule_wf (schedule (retry_run m ops (with_seed sched seed)))"
    by (simp add: with_seed_def)
  show "sch_backoff (schedule (retry_run m ops (with_seed sched seed))) = Exponential initial mul mx"
    using assms(2) by (simp add: with_seed_def)
  show "d \<le> mx" if "pending_delay (retry_run m ops (with_seed sched seed)) = Some d" for d
    using retry_run_pending_le [OF _ _ _ that] wf assms(2) by (simp add: with_seed_def)
qed

definition example_libm :: libm where
  "example_libm = \<lparr>ln_fn = (\<lambda>_. Finite 1), powf_fn = (\<lambda>x _. x)\<rparr>"

definition example_schedule :: retry_schedule where
  "example_schedule = \<lparr>max_attempts = 5, sch_backoff = Exponential 100000000 (Finite 2) 150000000,
     sch_jitter = Jitter_None\<rparr>"

lemma f64_round_1: "f64_round 1 = Finite 1"
  using f64_round_nat [of 1] by simp

lemma example_schedule_built: "build (\<lambda>_. 7) 7 example_schedule = Inr example_schedule"
  by (simp add: build_def example_schedule_def backoff_validate_def backoff_validate_values_def
      jitter_validate_def validate_duration_def instant_checked_add_def INSTANT_MAX_def NANOS_PER_SEC_def)

lemma jitter_none_sampled:
  "sch_jitter sched = Jitter_None \<Longrightarrow>
   sampled_delay m clk sched n (snd (next_unit s)) = schedule_delay_for m clk sched n"
  using next_unit_range [of s]
  by (auto simp: sampled_delay_def jitter_apply_def in_unit_interval_def try_bind_def split: sum.splits)

lemma next_delay_no_jitter:
  assumes "can_retry s" and "pending_delay s = None" and "sch_jitter (schedule s) = Jitter_None"
  shows "snd (next_delay m clk s)
    = (case schedule_delay_for m clk (schedule s) (attempts s) of Inl e \<Rightarrow> Inl (Schedule e) | Inr d \<Rightarrow> Inr (Some d))"
proof -
  have "attempts s \<noteq> 0" using assms(1) by (auto simp: can_retry_def)
  moreover have "schedule (fst (next_unit s)) = schedule s" "attempts (fst (next_unit s)) = attempts s"
    by (simp_all add: next_unit_def Let_def)
  ultimately show ?thesis using assms jitter_none_sampled [OF assms(3), of m clk "attempts s" s]
    by (simp add: next_delay_def case_prod_beta split: sum.splits)
qed

lemma example_run:
  "retry_run example_libm [Begin, Begin] (with_seed example_schedule 1)
     = (with_seed example_schedule 1)\<lparr>attempts := 2\<rparr>"
  by (simp add: begin_attempt_def with_seed_def example_schedule_def is_some_def checked_add_def
      word_le_nat_alt)

theorem retry_delays_capped_witness:
  "\<exists>d. snd (next_delay example_libm (\<lambda>_. 7) (retry_run example_libm [Begin, Begin] (with_seed example_schedule 1)))
        = Inr (Some d) \<and> d \<le> 150000000"
proof -
  have "snd (next_delay example_libm (\<lambda>_. 7)
      (retry_run example_libm [Begin, Begin] (with_seed example_schedule 1))) = Inr (Some 150000000)"
    unfolding example_run
    by (subst next_delay_no_jitter)
      (simp_all add: can_retry_def with_seed_def example_schedule_def schedule_delay_for_def
        backoff_delay_for_validated_def backoff_base_delay_def exponential_delay_def example_libm_def
        f64_round_1 validate_duration_def instant_checked_add_def INSTANT_MAX_def NANOS_PER_SEC_def)
  moreover have "sch_backoff example_schedule = Exponential 100000000 (Finite 2) 150000000"
    by (simp add: example_schedule_def)
  ultimately show ?thesis using retry_delays_capped [OF example_schedule_built] by blast
qed

text \<open>C37. A schedule that \<open>build\<close> accepted has a delay for exactly the retries one to
  \<open>max_attempts - 1\<close>, as long as the clock leaves room for the largest delay and \<open>powf\<close> has its
  documented range; every other ordinal is an error.\<close>

theorem schedule_delays_exist:
  assumes "build clk now b = Inr sched" and "powf_range m"
    and "\<And>i. clk' i + backoff_maximum_delay (sch_backoff sched) \<le> INSTANT_MAX"
  shows "(\<exists>d. schedule_delay_for m clk' sched n = Inr d \<and> d \<le> backoff_maximum_delay (sch_backoff sched))
           \<longleftrightarrow> n \<noteq> 0 \<and> n < max_attempts sched"
proof -
  have wf: "backoff_wf (sch_backoff sched) (max_attempts sched)"
    using build_wf [OF assms(1)] by (auto simp: schedule_wf_def)
  have "\<exists>d. backoff_delay_for_validated m clk' (sch_backoff sched) n = Inr d"
    if "n \<noteq> 0" "n < max_attempts sched"
    by (rule backoff_delay_total [OF assms(2) wf that assms(3)])
  then show ?thesis using backoff_delay_le [OF _ wf]
    by (auto simp: schedule_delay_for_def not_le [symmetric])
qed

lemma example_powf_range: "powf_range example_libm"
  by (simp add: powf_range_def example_libm_def)

theorem schedule_delays_exist_witness:
  "\<exists>d. schedule_delay_for example_libm (\<lambda>_. 7) example_schedule 4 = Inr d
     \<and> d \<le> backoff_maximum_delay (sch_backoff example_schedule)"
proof -
  have "7 + backoff_maximum_delay (sch_backoff example_schedule) \<le> INSTANT_MAX"
    by (simp add: backoff_maximum_delay_def example_schedule_def INSTANT_MAX_def NANOS_PER_SEC_def)
  moreover have "(4 :: u32) \<noteq> 0" "4 < max_attempts example_schedule"
    by (simp_all add: example_schedule_def)
  ultimately show ?thesis
    using schedule_delays_exist [OF example_schedule_built example_powf_range, of "\<lambda>_. 7" 4] by blast
qed

text \<open>C38. The attempt budget: in every sequence of calls the number of attempts granted is the
  reported attempt count and never exceeds \<open>max_attempts\<close>, and a further attempt is granted
  exactly while the operation is unfinished and below that limit.\<close>

theorem retry_attempt_budget:
  fixes m ops sched seed
  defines "s \<equiv> retry_run m ops (with_seed sched seed)"
  shows "granted m ops (with_seed sched seed) = unat (rep_attempts (report s el))
    \<and> granted m ops (with_seed sched seed) \<le> unat (max_attempts sched)
    \<and> (is_err (snd (begin_attempt s))
         \<longleftrightarrow> is_some (stop_reason s) \<or> granted m ops (with_seed sched seed) = unat (max_attempts sched))"
proof -
  have g: "granted m ops (with_seed sched seed) = unat (attempts s)"
    using granted_attempts [of m ops "with_seed sched seed"] by (simp add: s_def with_seed_def)
  have sch: "schedule s = sched" by (simp add: s_def with_seed_def)
  have "retry_inv s" unfolding s_def by (rule retry_run_inv [OF retry_inv_with_seed])
  then have le: "unat (attempts s) \<le> unat (max_attempts sched)"
    by (simp add: retry_inv_def sch word_le_nat_alt)
  have "unat (attempts s) + 1 < 2 ^ 32" if "unat (attempts s) < unat (max_attempts sched)"
    using that u32_less [of "max_attempts sched"] by linarith
  then have "is_err (snd (begin_attempt s))
      \<longleftrightarrow> stop_reason s \<noteq> None \<or> unat (attempts s) = unat (max_attempts sched)"
    using le by (auto simp: begin_attempt_def is_err_def is_some_def sch checked_add_def word_le_nat_alt
        split: option.splits if_splits)
  moreover have "is_some (stop_reason s) \<longleftrightarrow> stop_reason s \<noteq> None"
    by (simp add: is_some_def split: option.splits)
  ultimately show ?thesis using g le by (simp add: report_def)
qed

text \<open>C39. Jitter is sampled once per attempt: after \<open>next_delay\<close> returned a delay, asking again
  returns the same delay and changes nothing, whatever the clock and however many sends were
  recorded in between.\<close>

theorem retry_delay_sampled_once:
  assumes "next_delay m clk s = (s', Inr (Some d))"
  shows "next_delay m clk' (retry_run m (replicate n Send) s')
           = (retry_run m (replicate n Send) s', Inr (Some d))"
proof -
  have "can_retry s' \<and> pending_delay s' = Some d"
    using assms by (auto simp: next_delay_def next_unit_def Let_def can_retry_def
        split: if_splits option.splits sum.splits)
  then have "can_retry (retry_run m (replicate n Send) s')
      \<and> pending_delay (retry_run m (replicate n Send) s') = Some d"
    by (induction n arbitrary: s') (auto simp: record_transport_send_def can_retry_def split: option.splits)
  then show ?thesis by (auto simp: next_delay_def can_retry_def)
qed

theorem retry_delay_sampled_once_witness:
  "\<exists>s'. next_delay example_libm (\<lambda>_. 0) (retry_run example_libm [Send, Send] s')
     = (retry_run example_libm [Send, Send] s', Inr (Some 150000000))"
proof -
  define s where "s = (with_seed example_schedule 1)\<lparr>attempts := 2, pending_delay := Some 150000000\<rparr>"
  have "next_delay example_libm (\<lambda>_. 7) s = (s, Inr (Some 150000000))"
    by (simp add: s_def next_delay_def can_retry_def with_seed_def example_schedule_def)
  from retry_delay_sampled_once [OF this, of "\<lambda>_. 0" 2] show ?thesis
    by (auto simp: numeral_2_eq_2)
qed

text \<open>The first terminal reason wins: once \<open>finish\<close> returned true, no later call changes the
  reason, the attempts or the sends, every later \<open>finish\<close> returns false, no attempt starts, no send
  is recorded and no delay is handed out.\<close>

theorem retry_first_finish_wins:
  assumes "finish s r = (s0, True)"
  shows "report (retry_run m ops s0) el = report s0 el \<and> rep_stop_reason (report s0 el) = Some r
    \<and> finish (retry_run m ops s0) r' = (retry_run m ops s0, False)
    \<and> begin_attempt (retry_run m ops s0) = (retry_run m ops s0, Inl State_Finished)
    \<and> record_transport_send (retry_run m ops s0) = (retry_run m ops s0, Inl State_Finished)
    \<and> (\<forall>d clk. snd (next_delay m clk (retry_run m ops s0)) \<noteq> Inr (Some d))"
proof -
  have r: "stop_reason s0 = Some r" using assms by (auto simp: finish_def split: if_splits)
  from finished_run [OF r, of m ops] r show ?thesis
    by (auto simp: report_def finish_def begin_attempt_def record_transport_send_def is_some_def
        next_delay_def can_retry_def)
qed

theorem retry_first_finish_wins_witness:
  "\<exists>s0. finish (with_seed example_schedule 1) Cancelled = (s0, True)
     \<and> rep_stop_reason (report (retry_run example_libm [Begin, Finish TimedOut] s0) 3) = Some Cancelled"
proof -
  have "finish (with_seed example_schedule 1) Cancelled
      = ((with_seed example_schedule 1)\<lparr>stop_reason := Some Cancelled\<rparr>, True)"
    by (simp add: finish_def with_seed_def is_some_def)
  from retry_first_finish_wins [OF this, of example_libm "[Begin, Finish TimedOut]" 3] this show ?thesis
    by auto
qed

end
