(* ===== verification/Net_Error.thy ===== *)
theory Net_Error
  imports Retry_State
begin

text \<open>
  The error type of the crate: \<open>src/api/error/mod.rs\<close>, with the identities of
  \<open>src/api/ws/identity.rs\<close>, the close information of \<open>src/api/ws/close.rs\<close> and the timeout phases of
  \<open>src/api/ws/retry.rs\<close> that an error's context carries. The modelled build has the features \<open>ws-client\<close>, which is
  the default, and \<open>http-client\<close>.

  A Rust string is the list of its UTF-8 bytes, so \<open>len\<close> is \<open>length\<close>. Constructors that several
  enums of the source share carry a prefix: \<open>K_\<close> for \<open>ErrorKind\<close>, \<open>St_\<close> for \<open>ErrorStage\<close>, \<open>Tp_\<close> for
  \<open>WsTimeoutPhase\<close>, \<open>Io_\<close> for \<open>IoEndKind\<close>. An error's \<open>source()\<close> is a trait object in the source; the
  type \<open>error_source\<close> has a constructor for each type of this crate that becomes one, one for
  \<open>std::io::Error\<close> and one for any other type, and each names what its own \<open>source()\<close> returns. The
  handshake diagnostic of a context is only carried along and is an opaque handle. The header map of a response head
  is the list of its lines.
\<close>

section \<open>Identities\<close>

datatype client_id = ClientId u64
datatype session_id = SessionId u64
datatype connection_id = ConnectionId u64
datatype attempt_id = AttemptId u64
datatype operation_id = OperationId u64

datatype request_id = RequestId string

fun as_str :: "request_id \<Rightarrow> string" where
  "as_str (RequestId s) = s"

section \<open>Kinds, stages and contexts\<close>

datatype error_kind =
    K_InvalidInput | K_InvalidConfig | K_Io | K_Dns | K_Tls | K_Protocol | K_HandshakeRejected
  | K_ProviderFailed | K_CallbackPanicked | K_RuntimeUnavailable | K_ResourceExhausted | K_QueueFull
  | K_QueueClosed | K_ItemTooLarge | K_PendingLimitReached | K_SubscriptionLimitReached
  | K_CallbackOverflow | K_ControlOverflow | K_ObservationLagged | K_NotConnected | K_NotRunning
  | K_Unsupported | K_SessionAlreadyExists | K_ConnectionClosing | K_Closed | K_EngineDropped
  | K_Cancelled | K_TimedOut | K_DeadlineExceeded | K_DeliveryUnknown | K_RetryExhausted
  | K_InvalidPolicy | K_BodyNotReplayable | K_DuplicateRequestId | K_RoutingDisabled
  | K_RoutingModeMismatch | K_ClientAlreadyExists | K_ClientNotFound | K_Internal | K_HttpStatus

datatype error_stage =
    St_Configuration | St_Provider | St_RequestBuild | St_Dns | St_Tcp | St_Proxy | St_ProxyTls
  | St_Tls | St_Upgrade | St_Admission | St_Queue | St_Write | St_Response | St_Receive
  | St_Heartbeat | St_Close | St_Dispatch | St_NetworkMonitor | St_Runtime

datatype ws_timeout_phase = Tp_Admission | Tp_Write | Tp_Response | Tp_Attempt | Tp_Total

datatype io_end_kind = Io_PeerClose | Io_UnexpectedEof | Io_ConnectionReset | Io_ProtocolError | Io_Other

record peer_close =
  pc_code :: "u16 option"
  pc_reason :: string

datatype handshake_diagnostic = Diagnostic nat

text \<open>The identities, budgets and failures of HTTP: \<open>HttpRequestId\<close>, \<open>TimeoutPhase\<close>, \<open>HttpRedirectError\<close> and
  \<open>HttpResponseHead\<close>.\<close>

datatype http_request_id = HttpRequestId u64

datatype http_timeout_phase = Ht_Admission | Ht_Connect | Ht_Headers | Ht_IdleRead | Ht_Attempt | Ht_Total

datatype http_redirect_error = InsecureTarget | OriginNotAllowed | TooManyRedirects | InvalidLocation

text \<open>\<open>TransportErrorKind\<close> and \<open>RetryReason\<close> of \<open>src/api/http/retry.rs\<close>, which a classified HTTP failure keeps.\<close>

datatype transport_error_kind =
    Tr_Dns | Tr_Connect | Tr_Tls | Tr_TimeoutBeforeSend | Tr_Write | Tr_ReadReset | Tr_BodyRead | Tr_Protocol
  | Tr_DeliveryUnknown

datatype http_retry_reason =
    Reason_HttpStatus u16 | Reason_Transport transport_error_kind | Reason_BodyRead | Reason_Application | Reason_RetryAfter

text \<open>A header value as its accessors show it: \<open>to_str\<close>, which fails on other than visible ASCII, and \<open>is_sensitive\<close>.\<close>

record header_value =
  hv_str :: "string option"
  hv_sensitive :: bool

type_synonym header_map = "(string \<times> header_value) list"

record http_response_head =
  head_status :: u16
  head_headers :: header_map

record error_context =
  stage :: "error_stage option"
  ec_client_id :: "client_id option"
  ec_session_id :: "session_id option"
  ec_connection_id :: "connection_id option"
  ec_attempt_id :: "attempt_id option"
  ec_request_id :: "request_id option"
  ec_ws_timeout_phase :: "ws_timeout_phase option"
  http_status :: "u16 option"
  ec_http_request_id :: "http_request_id option"
  ec_http_timeout_phase :: "http_timeout_phase option"
  http_attempt :: "u32 option"
  diagnostic :: "handshake_diagnostic option"
  ec_peer_close :: "peer_close option"
  io_end :: "io_end_kind option"

definition error_context_default :: error_context where
  "error_context_default = \<lparr>stage = None, ec_client_id = None, ec_session_id = None,
     ec_connection_id = None, ec_attempt_id = None, ec_request_id = None, ec_ws_timeout_phase = None,
     http_status = None, ec_http_request_id = None, ec_http_timeout_phase = None, http_attempt = None,
     diagnostic = None, ec_peer_close = None, io_end = None\<rparr>"

section \<open>Errors\<close>

text \<open>\<open>ConfigError\<close> has the two fields of \<open>RetryConfigError\<close>; it is a type of its own in the source.\<close>

datatype conf_error = ConfigError (conf_field: string) (conf_reason: string)

datatype common_error = Common_None | RuntimeError | PostError

datatype net_error =
    NetError (kind: error_kind) (err_context: error_context) (config_error_of: "conf_error option")
      (net_source: "error_source option") (retry_report_of: "retry_report option")
      (http_response_head_of: "http_response_head option")
and error_source =
    Src_NetError net_error
  | Src_ConfigError conf_error
  | Src_RetryConfigError retry_config_error
  | Src_RetryStateError retry_state_error
  | Src_ReceiveLagged u64
  | Src_CommonError common_error
  | Src_BudgetExpired instant http_timeout_phase
  | Src_HttpRedirectError http_redirect_error
  | Src_ClassifiedHttpFailure http_retry_reason error_source
  | Src_Io nat "error_source option"
  | Src_Other nat "error_source option"

definition net_error_new :: "error_kind \<Rightarrow> net_error" where
  "net_error_new k = NetError k error_context_default None None None None"

text \<open>\<open>impl From<ErrorKind> for NetError\<close>.\<close>

abbreviation from_kind :: "error_kind \<Rightarrow> net_error" where
  "from_kind \<equiv> net_error_new"

definition with_source :: "error_kind \<Rightarrow> error_source \<Rightarrow> net_error" where
  "with_source k src = NetError k error_context_default None (Some src) None None"

definition with_context :: "net_error \<Rightarrow> error_context \<Rightarrow> net_error" where
  "with_context self ctx =
     NetError (kind self) ctx (config_error_of self) (net_source self) (retry_report_of self) (http_response_head_of self)"

definition with_stage :: "net_error \<Rightarrow> error_stage \<Rightarrow> net_error" where
  "with_stage self st = with_context self ((err_context self)\<lparr>stage := Some st\<rparr>)"

definition with_ws_timeout_phase :: "net_error \<Rightarrow> ws_timeout_phase \<Rightarrow> net_error" where
  "with_ws_timeout_phase self p = with_context self ((err_context self)\<lparr>ec_ws_timeout_phase := Some p\<rparr>)"

definition with_http_request_id :: "net_error \<Rightarrow> http_request_id \<Rightarrow> net_error" where
  "with_http_request_id self i = with_context self ((err_context self)\<lparr>ec_http_request_id := Some i\<rparr>)"

definition with_http_attempt :: "net_error \<Rightarrow> u32 \<Rightarrow> net_error" where
  "with_http_attempt self n = with_context self ((err_context self)\<lparr>http_attempt := Some n\<rparr>)"

definition with_timeout_phase :: "net_error \<Rightarrow> http_timeout_phase \<Rightarrow> net_error" where
  "with_timeout_phase self p = with_context self ((err_context self)\<lparr>ec_http_timeout_phase := Some p\<rparr>)"

definition with_http_response_head :: "net_error \<Rightarrow> http_response_head \<Rightarrow> net_error" where
  "with_http_response_head self head =
     NetError (kind self) ((err_context self)\<lparr>http_status := Some (head_status head)\<rparr>) (config_error_of self)
       (net_source self) (retry_report_of self) (Some head)"

definition with_retry_report :: "net_error \<Rightarrow> retry_report \<Rightarrow> net_error" where
  "with_retry_report self r =
     NetError (kind self) (err_context self) (config_error_of self) (net_source self) (Some r)
       (http_response_head_of self)"

definition from_http_status :: "u16 \<Rightarrow> net_error" where
  "from_http_status status =
     with_context (net_error_new K_HttpStatus) (error_context_default\<lparr>http_status := Some status\<rparr>)"

text \<open>\<open>impl From<ConfigError>\<close> and \<open>NetError::config\<close>.\<close>

definition from_config_error :: "conf_error \<Rightarrow> net_error" where
  "from_config_error v =
     NetError K_InvalidConfig (err_context (with_stage (net_error_new K_InvalidConfig) St_Configuration))
       (Some v) (Some (Src_ConfigError v)) None None"

definition config :: "string \<Rightarrow> string \<Rightarrow> net_error" where
  "config fld rsn = from_config_error (ConfigError fld rsn)"

definition input :: "string \<Rightarrow> string \<Rightarrow> net_error" where
  "input fld rsn =
     NetError K_InvalidInput (err_context (with_stage (net_error_new K_InvalidInput) St_RequestBuild))
       (Some (ConfigError fld rsn)) None None None"

definition from_poison :: net_error where
  "from_poison = net_error_new K_Internal"

definition from_retry_config_error :: "retry_config_error \<Rightarrow> net_error" where
  "from_retry_config_error e =
     (let base = with_stage (with_source K_InvalidConfig (Src_RetryConfigError e)) St_Configuration
      in NetError (kind base) (err_context base) (Some (ConfigError (err_field e) (err_reason e)))
           (net_source base) (retry_report_of base) (http_response_head_of base))"

definition protocol :: "error_source \<Rightarrow> net_error" where
  "protocol src = with_source K_Protocol src"

definition provider :: "error_source \<Rightarrow> net_error" where
  "provider src = with_stage (with_source K_ProviderFailed src) St_Provider"

definition from_io_error :: "nat \<Rightarrow> error_source option \<Rightarrow> net_error" where
  "from_io_error io_kind src = with_source K_Io (Src_Io io_kind src)"

definition from_common_error :: "common_error \<Rightarrow> net_error" where
  "from_common_error v =
     (let k = (case v of Common_None \<Rightarrow> K_Internal | RuntimeError \<Rightarrow> K_RuntimeUnavailable
                | PostError \<Rightarrow> K_QueueClosed)
      in with_stage (with_source k (Src_CommonError v)) St_Runtime)"

text \<open>\<open>Error::source\<close> of every type that occurs in a chain.\<close>

fun source_of :: "error_source \<Rightarrow> error_source option" where
  "source_of (Src_NetError e) = net_source e"
| "source_of (Src_ConfigError e) = None"
| "source_of (Src_RetryConfigError e) = None"
| "source_of (Src_RetryStateError e) = map_option Src_RetryConfigError (retry_state_error_source e)"
| "source_of (Src_ReceiveLagged n) = None"
| "source_of (Src_CommonError e) = None"
| "source_of (Src_BudgetExpired d p) = None"
| "source_of (Src_HttpRedirectError e) = None"
| "source_of (Src_ClassifiedHttpFailure r s) = Some s"
| "source_of (Src_Io k s) = s"
| "source_of (Src_Other i s) = s"

text \<open>\<open>NetError::io_kind\<close>: the first I/O category within 64 links of the chain.\<close>

fun io_kind_within :: "nat \<Rightarrow> error_source option \<Rightarrow> nat option" where
  "io_kind_within 0 src = None"
| "io_kind_within (Suc n) src =
     (case src of
        None \<Rightarrow> None
      | Some (Src_Io k _) \<Rightarrow> Some k
      | Some s \<Rightarrow> io_kind_within n (source_of s))"

definition io_kind :: "net_error \<Rightarrow> nat option" where
  "io_kind self = io_kind_within 64 (net_source self)"

section \<open>Admission and receive errors\<close>

record 'v enqueue_error =
  rejected_value :: 'v
  rejected_error :: net_error

definition into_parts :: "'v enqueue_error \<Rightarrow> 'v \<times> net_error" where
  "into_parts self = (rejected_value self, rejected_error self)"

datatype receive_error = Lagged u64 | Receive_Failed net_error

definition from_receive_error :: "receive_error \<Rightarrow> net_error" where
  "from_receive_error v =
     (case v of
        Lagged skipped \<Rightarrow> with_stage (with_source K_ObservationLagged (Src_ReceiveLagged skipped)) St_Receive
      | Receive_Failed e \<Rightarrow> e)"

datatype try_receive_error = Try_Empty | Try_Closed | Try_Lagged u64 | Try_Failed net_error

section \<open>Identity allocation\<close>

text \<open>\<open>next_value\<close>: the counter holds the last allocated value; it never wraps.\<close>

definition next_value :: "u64 \<Rightarrow> u64 \<times> (u64, net_error) result" where
  "next_value counter =
     (case checked_add counter 1 of
        None \<Rightarrow> (counter, Inl (from_kind K_ResourceExhausted))
      | Some v \<Rightarrow> (v, Inr v))"

section \<open>Rules\<close>

lemma error_simps [simp]:
  "kind (net_error_new k) = k" "err_context (net_error_new k) = error_context_default"
  "net_source (net_error_new k) = None" "retry_report_of (net_error_new k) = None"
  "kind (with_context e c) = kind e" "err_context (with_context e c) = c"
  "net_source (with_context e c) = net_source e" "retry_report_of (with_context e c) = retry_report_of e"
  "kind (with_source k s) = k" "err_context (with_source k s) = error_context_default"
  "net_source (with_source k s) = Some s" "retry_report_of (with_source k s) = None"
  "kind (with_stage e st) = kind e" "err_context (with_stage e st) = (err_context e)\<lparr>stage := Some st\<rparr>"
  "net_source (with_stage e st) = net_source e" "retry_report_of (with_stage e st) = retry_report_of e"
  "kind (with_ws_timeout_phase e p) = kind e"
  "err_context (with_ws_timeout_phase e p) = (err_context e)\<lparr>ec_ws_timeout_phase := Some p\<rparr>"
  "net_source (with_ws_timeout_phase e p) = net_source e"
  "retry_report_of (with_ws_timeout_phase e p) = retry_report_of e"
  "kind (with_retry_report e r) = kind e" "err_context (with_retry_report e r) = err_context e"
  "net_source (with_retry_report e r) = net_source e" "retry_report_of (with_retry_report e r) = Some r"
  "kind (with_http_request_id e i) = kind e" "net_source (with_http_request_id e i) = net_source e"
  "err_context (with_http_request_id e i) = (err_context e)\<lparr>ec_http_request_id := Some i\<rparr>"
  "kind (with_http_attempt e n) = kind e" "net_source (with_http_attempt e n) = net_source e"
  "err_context (with_http_attempt e n) = (err_context e)\<lparr>http_attempt := Some n\<rparr>"
  "kind (with_timeout_phase e q) = kind e" "net_source (with_timeout_phase e q) = net_source e"
  "err_context (with_timeout_phase e q) = (err_context e)\<lparr>ec_http_timeout_phase := Some q\<rparr>"
  "kind (with_http_response_head e h) = kind e" "net_source (with_http_response_head e h) = net_source e"
  by (simp_all add: with_http_request_id_def with_http_attempt_def with_timeout_phase_def with_http_response_head_def net_error_new_def with_context_def with_source_def with_stage_def
      with_ws_timeout_phase_def with_retry_report_def)

lemma error_context_default_simps [simp]:
  "stage error_context_default = None" "ec_ws_timeout_phase error_context_default = None"
  "ec_connection_id error_context_default = None"
  by (simp_all add: error_context_default_def)

text \<open>Identities of one allocator are positive and never repeat.\<close>

lemma next_value_Inr:
  "snd (next_value c) = Inr v \<Longrightarrow> fst (next_value c) = v \<and> unat v = unat c + 1"
  by (auto simp: next_value_def split: option.splits dest: unat_checked_add)

end
