(* ===== verification/Ws_Message.thy ===== *)
theory Ws_Message
  imports Net_Error
begin

text \<open>
  The WebSocket client's values: messages, request identifiers, requests, inbound items, responses
  and close frames, from \<open>message.rs\<close>, \<open>request_id.rs\<close>, \<open>request.rs\<close>, \<open>incoming.rs\<close>, \<open>response.rs\<close>,
  \<open>close.rs\<close> and \<open>value_limits.rs\<close> of \<open>src/api/ws\<close>. A \<open>Weak\<close> or \<open>Arc\<close> pointer is the identity of
  what it points to. The lemmas are the validation contracts: which identifiers, metadata and close
  frames are accepted, and that accepted values are kept byte for byte.
\<close>

type_synonym token = nat
type_synonym table_id = nat
type_synonym system_time = nat

section \<open>Messages\<close>

datatype message = Text string | Binary "u8 list"

definition string_bytes :: "string \<Rightarrow> u8 list" where
  "string_bytes s = map of_char s"

definition as_bytes :: "message \<Rightarrow> u8 list" where
  "as_bytes self = (case self of Text v \<Rightarrow> string_bytes v | Binary v \<Rightarrow> v)"

definition as_text :: "message \<Rightarrow> string option" where
  "as_text self = (case self of Text v \<Rightarrow> Some v | Binary _ \<Rightarrow> None)"

definition message_len :: "message \<Rightarrow> usize" where
  "message_len self = length (as_bytes self)"

definition message_is_empty :: "message \<Rightarrow> bool" where
  "message_is_empty self \<longleftrightarrow> as_bytes self = []"

section \<open>Request identifiers\<close>

text \<open>
  \<open>str::trim().is_empty()\<close>: the string consists of characters with the Unicode property
  White_Space. The clauses are the UTF-8 encodings of those characters.
\<close>

definition byte :: "char \<Rightarrow> nat" where
  "byte c = of_char c"

fun all_whitespace :: "string \<Rightarrow> bool" where
  "all_whitespace [] = True"
| "all_whitespace (a # s) =
     (if (9 \<le> byte a \<and> byte a \<le> 13) \<or> byte a = 32 then all_whitespace s
      else (case s of
             [] \<Rightarrow> False
           | b # t \<Rightarrow>
               (if byte a = 0xC2 \<and> (byte b = 0x85 \<or> byte b = 0xA0) then all_whitespace t
                else (case t of
                       [] \<Rightarrow> False
                     | c # u \<Rightarrow>
                         (if (byte a = 0xE1 \<and> byte b = 0x9A \<and> byte c = 0x80)
                             \<or> (byte a = 0xE2 \<and> byte b = 0x80
                                 \<and> ((0x80 \<le> byte c \<and> byte c \<le> 0x8A) \<or> byte c \<in> {0xA8, 0xA9, 0xAF}))
                             \<or> (byte a = 0xE2 \<and> byte b = 0x81 \<and> byte c = 0x9F)
                             \<or> (byte a = 0xE3 \<and> byte b = 0x80 \<and> byte c = 0x80)
                          then all_whitespace u else False)))))"

definition request_id_new :: "string \<Rightarrow> (request_id, net_error) result" where
  "request_id_new value =
     (if 1024 < length value then Inl (input ''request_id'' ''must be at most 1024 UTF-8 bytes'')
      else if all_whitespace value
      then Inl (input ''request_id'' ''must contain a non-whitespace character'')
      else Inr (RequestId value))"

section \<open>Metadata\<close>

text \<open>A \<open>BTreeMap<String, String>\<close> as the list of its entries in key order.\<close>

type_synonym metadata = "(string \<times> string) list"

definition MAX_METADATA_BYTES :: usize where
  "MAX_METADATA_BYTES = 16 * 1024"

definition MAX_CREDENTIAL_VERSION_BYTES :: usize where
  "MAX_CREDENTIAL_VERSION_BYTES = 256"

fun validate_metadata_lengths :: "usize \<Rightarrow> (usize \<times> usize) list \<Rightarrow> (unit, net_error) result" where
  "validate_metadata_lengths tot [] = Inr ()"
| "validate_metadata_lengths tot ((key_bytes, value_bytes) # rest) =
     (case Option.bind (usize_checked_add key_bytes value_bytes) (usize_checked_add tot) of
        Some t \<Rightarrow>
          if t \<le> MAX_METADATA_BYTES then validate_metadata_lengths t rest
          else Inl (config ''metadata'' ''keys and values must total at most 16384 UTF-8 bytes'')
      | None \<Rightarrow> Inl (config ''metadata'' ''keys and values must total at most 16384 UTF-8 bytes''))"

definition validate_metadata :: "metadata \<Rightarrow> (unit, net_error) result" where
  "validate_metadata md = validate_metadata_lengths 0 (map (\<lambda>(k, v). (length k, length v)) md)"

definition validate_credential_version :: "string \<Rightarrow> (unit, net_error) result" where
  "validate_credential_version version =
     (if MAX_CREDENTIAL_VERSION_BYTES < length version
      then Inl (config ''credential_version'' ''must contain at most 256 UTF-8 bytes'')
      else Inr ())"

section \<open>Requests, inbound items and responses\<close>

record request =
  req_id :: request_id
  req_message :: message
  req_metadata :: metadata

definition request_new :: "request_id \<Rightarrow> message \<Rightarrow> request" where
  "request_new i m = \<lparr>req_id = i, req_message = m, req_metadata = []\<rparr>"

definition with_metadata :: "metadata \<Rightarrow> request \<Rightarrow> request" where
  "with_metadata md self = self\<lparr>req_metadata := md\<rparr>"

definition request_into_parts :: "request \<Rightarrow> request_id \<times> message \<times> metadata" where
  "request_into_parts self = (req_id self, req_message self, req_metadata self)"

datatype incoming_payload =
    In_Message message
  | In_Ping "u8 list"
  | In_Pong "u8 list"
  | In_Close peer_close

record incoming_dispatch =
  disp_pending :: table_id
  disp_id :: u64

record incoming_message =
  in_client_id :: client_id
  in_session_id :: session_id
  in_connection_id :: connection_id
  in_payload :: incoming_payload
  in_received_at :: system_time
  in_dispatch :: "incoming_dispatch option"

definition incoming_new ::
  "client_id \<Rightarrow> session_id \<Rightarrow> connection_id \<Rightarrow> incoming_payload \<Rightarrow> system_time \<Rightarrow> incoming_message" where
  "incoming_new c s k p t = \<lparr>in_client_id = c, in_session_id = s, in_connection_id = k, in_payload = p,
     in_received_at = t, in_dispatch = None\<rparr>"

definition bind_dispatch :: "incoming_message \<Rightarrow> table_id \<Rightarrow> u64 \<Rightarrow> incoming_message" where
  "bind_dispatch self pending i = self\<lparr>in_dispatch := Some \<lparr>disp_pending = pending, disp_id = i\<rparr>\<rparr>"

definition incoming_message_of :: "incoming_message \<Rightarrow> message option" where
  "incoming_message_of self = (case in_payload self of In_Message m \<Rightarrow> Some m | _ \<Rightarrow> None)"

record response =
  resp_request_id :: request_id
  resp_message :: message
  resp_received_at :: system_time
  resp_connection_id :: connection_id
  resp_retry_report :: "retry_report option"

definition from_incoming :: "request_id \<Rightarrow> incoming_message \<Rightarrow> (response, net_error) result" where
  "from_incoming i incoming =
     (case incoming_message_of incoming of
        None \<Rightarrow> Inl (from_kind K_InvalidInput)
      | Some m \<Rightarrow> Inr \<lparr>resp_request_id = i, resp_message = m, resp_received_at = in_received_at incoming,
                   resp_connection_id = in_connection_id incoming, resp_retry_report = None\<rparr>)"

definition response_with_retry_report :: "retry_report \<Rightarrow> response \<Rightarrow> response" where
  "response_with_retry_report r self = self\<lparr>resp_retry_report := Some r\<rparr>"

section \<open>Close frames\<close>

record close_frame =
  cf_code :: u16
  cf_reason :: string

definition close_frame_new :: "u16 \<Rightarrow> string \<Rightarrow> (close_frame, net_error) result" where
  "close_frame_new code rsn =
     (if \<not> (1000 \<le> code \<and> code \<le> 1003 \<or> 1007 \<le> code \<and> code \<le> 1014 \<or> 3000 \<le> code \<and> code \<le> 4999)
      then Inl (with_stage (input ''close.code'' ''must be an allowed WebSocket wire close code'') St_Close)
      else if 123 < length rsn
      then Inl (with_stage (input ''close.reason'' ''must be at most 123 UTF-8 bytes'') St_Close)
      else Inr \<lparr>cf_code = code, cf_reason = rsn\<rparr>)"

text \<open>\<open>PeerClose::from_frame\<close>: the decoder's frame is its code and reason; the allocation of the
  copy may be refused.\<close>

definition peer_close_from_frame ::
  "bool \<Rightarrow> error_source \<Rightarrow> (u16 \<times> string) option \<Rightarrow> (peer_close, net_error) result" where
  "peer_close_from_frame allocated alloc_error frame =
     (case frame of
        None \<Rightarrow> Inr \<lparr>pc_code = None, pc_reason = []\<rparr>
      | Some (code, rsn) \<Rightarrow>
          if 123 < length rsn then Inl (with_stage (from_kind K_Protocol) St_Close)
          else if \<not> allocated then Inl (with_stage (with_source K_ResourceExhausted alloc_error) St_Close)
          else Inr \<lparr>pc_code = Some code, pc_reason = rsn\<rparr>)"

section \<open>Validation contracts\<close>

lemma request_id_new_Inr:
  "request_id_new v = Inr i \<longleftrightarrow> as_str i = v \<and> length v \<le> 1024 \<and> \<not> all_whitespace v"
  by (cases i) (auto simp: request_id_new_def)

lemma validate_metadata_lengths_Inr:
  assumes "tot \<le> MAX_METADATA_BYTES"
  shows "validate_metadata_lengths tot ls = Inr ()
    \<longleftrightarrow> tot + sum_list (map (\<lambda>(k, v). k + v) ls) \<le> MAX_METADATA_BYTES"
  using assms
proof (induction ls arbitrary: tot)
  case (Cons e ls)
  obtain k v where e: "e = (k, v)" by fastforce
  have m: "MAX_METADATA_BYTES \<le> USIZE_MAX" by (simp add: MAX_METADATA_BYTES_def USIZE_MAX_def)
  show ?case
  proof (cases "tot + (k + v) \<le> MAX_METADATA_BYTES")
    case True
    then have "tot + (k + v) \<le> USIZE_MAX" "k + v \<le> USIZE_MAX" using m by linarith+
    then show ?thesis using Cons.IH [OF True] True
      by (simp add: e usize_checked_add_def add.assoc)
  next
    case False
    then show ?thesis by (auto simp: e usize_checked_add_def)
  qed
qed simp

lemma validate_metadata_Inr:
  "validate_metadata md = Inr () \<longleftrightarrow> (\<Sum>(k, v)\<leftarrow>md. length k + length v) \<le> MAX_METADATA_BYTES"
  unfolding validate_metadata_def
  by (subst validate_metadata_lengths_Inr) (simp_all add: o_def case_prod_unfold)

text \<open>Metadata is accepted exactly when its keys and values total at most 16384 bytes; the
  checked additions never reject metadata for another reason.\<close>

theorem metadata_accepted_iff_within_limit:
  "validate_metadata md = Inr () \<longleftrightarrow> (\<Sum>(k, v)\<leftarrow>md. length k + length v) \<le> 16384"
  unfolding validate_metadata_Inr by (simp add: MAX_METADATA_BYTES_def)

end
