(* ===== verification/Ws_Retry.thy ===== *)
theory Ws_Retry
  imports Ws_Message
begin

text \<open>
  Which WebSocket failures may be retried: \<open>src/api/ws/retry.rs\<close>. A classifier is a user callback;
  it is a function whose value \<open>None\<close> stands for a panic, which \<open>isolate_classifier\<close> turns into an
  error. An observer is its identity. The lemmas show that no selection of error kinds makes a
  terminal error retryable and that the classification of timeouts follows the whole chain of
  sources.
\<close>

type_synonym observer = nat

datatype ws_replay_safety = Safety_Never | IdempotentByContract | IdempotencyKey

section \<open>Classification of errors\<close>

text \<open>What one link of a chain of sources says about the expired budget, and the loop of
  \<open>timeout_phase\<close> over at most \<open>n\<close> links.\<close>

definition own_timeout_phase :: "error_source \<Rightarrow> ws_timeout_phase option" where
  "own_timeout_phase src =
     (case src of
        Src_NetError e \<Rightarrow>
          (case ec_ws_timeout_phase (err_context e) of
             Some p \<Rightarrow> Some p
           | None \<Rightarrow>
               if kind e = K_TimedOut
               then (case stage (err_context e) of
                       Some St_Write \<Rightarrow> Some Tp_Write
                     | Some St_Response \<Rightarrow> Some Tp_Response
                     | Some St_Admission \<Rightarrow> Some Tp_Admission
                     | _ \<Rightarrow> None)
               else None)
      | _ \<Rightarrow> None)"

fun timeout_phase_within :: "nat \<Rightarrow> error_source option \<Rightarrow> ws_timeout_phase option" where
  "timeout_phase_within 0 current = None"
| "timeout_phase_within (Suc n) current =
     (case current of
        None \<Rightarrow> None
      | Some src \<Rightarrow>
          (case own_timeout_phase src of
             Some p \<Rightarrow> Some p
           | None \<Rightarrow> timeout_phase_within n (source_of src)))"

definition timeout_phase :: "net_error \<Rightarrow> ws_timeout_phase option" where
  "timeout_phase e = timeout_phase_within 32 (Some (Src_NetError e))"

definition terminal_error :: "net_error \<Rightarrow> bool" where
  "terminal_error e \<longleftrightarrow>
     timeout_phase e \<in> {Some Tp_Admission, Some Tp_Total}
   \<or> kind e \<in> {K_Cancelled, K_Closed, K_EngineDropped, K_InvalidConfig, K_InvalidInput, K_InvalidPolicy,
       K_CallbackPanicked, K_RuntimeUnavailable, K_Internal}
   \<or> stage (err_context e) \<in> {Some St_RequestBuild, Some St_Configuration}
   \<or> (stage (err_context e) = Some St_Admission \<and> timeout_phase e \<noteq> Some Tp_Attempt)"

section \<open>Selections\<close>

record ws_send_retry_on =
  errors :: "error_kind list"
  write_timeout :: bool

definition send_retry_none :: ws_send_retry_on where
  "send_retry_none = \<lparr>errors = [], write_timeout = False\<rparr>"

definition send_with_write_errors :: "bool \<Rightarrow> ws_send_retry_on \<Rightarrow> ws_send_retry_on" where
  "send_with_write_errors enabled self =
     self\<lparr>errors := (if enabled then [K_Io, K_DeliveryUnknown, K_NotConnected] else [])\<rparr>"

definition send_with_errors :: "error_kind list \<Rightarrow> ws_send_retry_on \<Rightarrow> ws_send_retry_on" where
  "send_with_errors es self = self\<lparr>errors := es\<rparr>"

definition send_with_write_timeout :: "bool \<Rightarrow> ws_send_retry_on \<Rightarrow> ws_send_retry_on" where
  "send_with_write_timeout enabled self = self\<lparr>write_timeout := enabled\<rparr>"

definition send_allows :: "ws_send_retry_on \<Rightarrow> net_error \<Rightarrow> bool" where
  "send_allows self e =
     (if terminal_error e then False
      else case timeout_phase e of
             Some Tp_Write \<Rightarrow> write_timeout self
           | Some _ \<Rightarrow> False
           | None \<Rightarrow> kind e \<in> set (errors self))"

record ws_request_retry_on =
  write_on :: ws_send_retry_on
  response_timeout_on :: bool
  attempt_timeout_on :: bool

definition request_retry_none :: ws_request_retry_on where
  "request_retry_none = \<lparr>write_on = send_retry_none, response_timeout_on = False, attempt_timeout_on = False\<rparr>"

definition request_with_write_errors :: "bool \<Rightarrow> ws_request_retry_on \<Rightarrow> ws_request_retry_on" where
  "request_with_write_errors enabled self = self\<lparr>write_on := send_with_write_errors enabled (write_on self)\<rparr>"

definition request_with_errors :: "error_kind list \<Rightarrow> ws_request_retry_on \<Rightarrow> ws_request_retry_on" where
  "request_with_errors es self = self\<lparr>write_on := send_with_errors es (write_on self)\<rparr>"

definition request_with_write_timeout :: "bool \<Rightarrow> ws_request_retry_on \<Rightarrow> ws_request_retry_on" where
  "request_with_write_timeout enabled self = self\<lparr>write_on := send_with_write_timeout enabled (write_on self)\<rparr>"

definition request_with_response_timeout :: "bool \<Rightarrow> ws_request_retry_on \<Rightarrow> ws_request_retry_on" where
  "request_with_response_timeout enabled self = self\<lparr>response_timeout_on := enabled\<rparr>"

definition request_with_attempt_timeout :: "bool \<Rightarrow> ws_request_retry_on \<Rightarrow> ws_request_retry_on" where
  "request_with_attempt_timeout enabled self = self\<lparr>attempt_timeout_on := enabled\<rparr>"

definition request_allows :: "ws_request_retry_on \<Rightarrow> net_error \<Rightarrow> bool" where
  "request_allows self e =
     (if terminal_error e then False
      else case timeout_phase e of
             Some Tp_Attempt \<Rightarrow> attempt_timeout_on self
           | Some Tp_Response \<Rightarrow> response_timeout_on self
           | Some Tp_Admission \<Rightarrow> False
           | Some Tp_Total \<Rightarrow> False
           | _ \<Rightarrow> send_allows (write_on self) e)"

section \<open>Policies\<close>

type_synonym send_classifier = "net_error \<Rightarrow> retry_context \<Rightarrow> retry_decision option"
type_synonym request_classifier = "(response, net_error) result \<Rightarrow> retry_context \<Rightarrow> retry_decision option"

definition isolate_classifier :: "'a option \<Rightarrow> ('a, net_error) result" where
  "isolate_classifier callback =
     (case callback of
        Some v \<Rightarrow> Inr v
      | None \<Rightarrow> Inl (with_stage (from_kind K_CallbackPanicked) St_Provider))"

record ws_send_retry_policy =
  sp_schedule :: retry_schedule
  sp_retry_on :: ws_send_retry_on
  sp_safety :: ws_replay_safety
  sp_classifier :: "send_classifier option"
  sp_observer :: "observer option"

definition send_no_retry :: ws_send_retry_policy where
  "send_no_retry = \<lparr>sp_schedule = no_retry, sp_retry_on = send_retry_none, sp_safety = Safety_Never,
     sp_classifier = None, sp_observer = None\<rparr>"

definition send_allows_replay :: "ws_send_retry_policy \<Rightarrow> bool" where
  "send_allows_replay self \<longleftrightarrow> sp_safety self \<noteq> Safety_Never"

definition send_should_retry_error :: "ws_send_retry_policy \<Rightarrow> net_error \<Rightarrow> bool" where
  "send_should_retry_error self e = send_allows (sp_retry_on self) e"

definition send_classify ::
  "ws_send_retry_policy \<Rightarrow> net_error \<Rightarrow> retry_context \<Rightarrow> (retry_decision, net_error) result" where
  "send_classify self e retry =
     (case sp_classifier self of
        None \<Rightarrow> Inr Decision_Default
      | Some classifier \<Rightarrow> isolate_classifier (classifier e retry))"

record ws_request_retry_policy =
  rp_schedule :: retry_schedule
  rp_retry_on :: ws_request_retry_on
  rp_safety :: ws_replay_safety
  rp_classifier :: "request_classifier option"
  rp_observer :: "observer option"

definition request_no_retry :: ws_request_retry_policy where
  "request_no_retry = \<lparr>rp_schedule = no_retry, rp_retry_on = request_retry_none, rp_safety = Safety_Never,
     rp_classifier = None, rp_observer = None\<rparr>"

definition request_allows_replay :: "ws_request_retry_policy \<Rightarrow> bool" where
  "request_allows_replay self \<longleftrightarrow> rp_safety self \<noteq> Safety_Never"

definition request_should_retry_error :: "ws_request_retry_policy \<Rightarrow> net_error \<Rightarrow> bool" where
  "request_should_retry_error self e = request_allows (rp_retry_on self) e"

definition request_classify ::
  "ws_request_retry_policy \<Rightarrow> (response, net_error) result \<Rightarrow> retry_context
   \<Rightarrow> (retry_decision, net_error) result" where
  "request_classify self outcome retry =
     (case rp_classifier self of
        None \<Rightarrow> Inr Decision_Default
      | Some classifier \<Rightarrow> isolate_classifier (classifier outcome retry))"

section \<open>Builders\<close>

text \<open>The builders start from the policy that never retries; \<open>build\<close> cannot fail.\<close>

definition send_builder :: ws_send_retry_policy where
  "send_builder = send_no_retry"

definition send_builder_schedule :: "retry_schedule \<Rightarrow> ws_send_retry_policy \<Rightarrow> ws_send_retry_policy" where
  "send_builder_schedule v self = self\<lparr>sp_schedule := v\<rparr>"

definition send_builder_retry_on :: "ws_send_retry_on \<Rightarrow> ws_send_retry_policy \<Rightarrow> ws_send_retry_policy" where
  "send_builder_retry_on v self = self\<lparr>sp_retry_on := v\<rparr>"

definition send_builder_safety :: "ws_replay_safety \<Rightarrow> ws_send_retry_policy \<Rightarrow> ws_send_retry_policy" where
  "send_builder_safety v self = self\<lparr>sp_safety := v\<rparr>"

definition send_builder_observer :: "observer \<Rightarrow> ws_send_retry_policy \<Rightarrow> ws_send_retry_policy" where
  "send_builder_observer v self = self\<lparr>sp_observer := Some v\<rparr>"

definition send_builder_classifier :: "send_classifier \<Rightarrow> ws_send_retry_policy \<Rightarrow> ws_send_retry_policy" where
  "send_builder_classifier v self = self\<lparr>sp_classifier := Some v\<rparr>"

definition send_build :: "ws_send_retry_policy \<Rightarrow> (ws_send_retry_policy, retry_config_error) result" where
  "send_build self = Inr self"

definition request_builder :: ws_request_retry_policy where
  "request_builder = request_no_retry"

definition request_builder_schedule :: "retry_schedule \<Rightarrow> ws_request_retry_policy \<Rightarrow> ws_request_retry_policy" where
  "request_builder_schedule v self = self\<lparr>rp_schedule := v\<rparr>"

definition request_builder_retry_on ::
  "ws_request_retry_on \<Rightarrow> ws_request_retry_policy \<Rightarrow> ws_request_retry_policy" where
  "request_builder_retry_on v self = self\<lparr>rp_retry_on := v\<rparr>"

definition request_builder_safety :: "ws_replay_safety \<Rightarrow> ws_request_retry_policy \<Rightarrow> ws_request_retry_policy" where
  "request_builder_safety v self = self\<lparr>rp_safety := v\<rparr>"

definition request_builder_observer :: "observer \<Rightarrow> ws_request_retry_policy \<Rightarrow> ws_request_retry_policy" where
  "request_builder_observer v self = self\<lparr>rp_observer := Some v\<rparr>"

definition request_builder_classifier ::
  "request_classifier \<Rightarrow> ws_request_retry_policy \<Rightarrow> ws_request_retry_policy" where
  "request_builder_classifier v self = self\<lparr>rp_classifier := Some v\<rparr>"

definition request_build :: "ws_request_retry_policy \<Rightarrow> (ws_request_retry_policy, retry_config_error) result" where
  "request_build self = Inr self"

section \<open>Wrapping\<close>

text \<open>
  The classification of a timeout survives wrapping: a wrapper that is no timeout itself, whose
  context names no phase, has the phase of what it wraps, up to the length of the chain.
\<close>

lemma timeout_phase_step:
  "timeout_phase e =
     (case own_timeout_phase (Src_NetError e) of
        Some p \<Rightarrow> Some p | None \<Rightarrow> timeout_phase_within 31 (net_source e))"
  unfolding timeout_phase_def
  using timeout_phase_within.simps(2) [of 31 "Some (Src_NetError e)"]
  by (simp del: timeout_phase_within.simps split: option.split)

lemma timeout_phase_within_Suc:
  "timeout_phase_within n c = Some p \<Longrightarrow> timeout_phase_within (Suc n) c = Some p"
proof (induction n arbitrary: c)
  case (Suc n)
  obtain src where c: "c = Some src" using Suc.prems by (cases c) auto
  show ?case
  proof (cases "own_timeout_phase src")
    case None
    then have "timeout_phase_within n (source_of src) = Some p" using Suc.prems c by simp
    then have "timeout_phase_within (Suc n) (source_of src) = Some p" by (rule Suc.IH)
    with None c show ?thesis by (simp only: timeout_phase_within.simps(2) [of "Suc n"] option.case)
  qed (use Suc.prems c in simp)
qed simp

lemma request_allows_not_terminal: "request_allows on e \<Longrightarrow> \<not> terminal_error e"
  by (auto simp: request_allows_def split: if_splits)

lemma send_allows_not_terminal: "send_allows on e \<Longrightarrow> \<not> terminal_error e"
  by (auto simp: send_allows_def split: if_splits)

text \<open>C34. The expired budget stays recognisable through the wrapping that an uncertain delivery
  adds: when an error's own chain names its timeout phase within 31 links, the error rewrapped as
  \<open>DeliveryUnknown\<close> with the same context names the same phase.\<close>

theorem timeout_phase_survives_delivery_wrapping:
  assumes "timeout_phase_within 31 (Some (Src_NetError e)) = Some p"
  shows "timeout_phase (with_context (with_source K_DeliveryUnknown (Src_NetError e)) (err_context e)) = Some p"
    (is "timeout_phase ?w = _")
proof (cases "ec_ws_timeout_phase (err_context e)")
  case None
  then have "own_timeout_phase (Src_NetError ?w) = None" by (simp add: own_timeout_phase_def)
  then show ?thesis using assms by (subst timeout_phase_step) simp
next
  case (Some q)
  have "own_timeout_phase (Src_NetError e) = Some q" using Some by (simp add: own_timeout_phase_def)
  moreover have "timeout_phase_within (Suc 30) (Some (Src_NetError e)) = Some p" using assms by simp
  ultimately have "q = p" by (simp only: timeout_phase_within.simps option.case option.inject)
  moreover have "own_timeout_phase (Src_NetError ?w) = Some q" using Some by (simp add: own_timeout_phase_def)
  ultimately show ?thesis by (subst timeout_phase_step) simp
qed

theorem timeout_phase_survives_delivery_wrapping_witness:
  "timeout_phase_within 31 (Some (Src_NetError (with_stage (from_kind K_TimedOut) St_Write))) = Some Tp_Write
   \<and> timeout_phase (with_context (with_source K_DeliveryUnknown
         (Src_NetError (with_stage (from_kind K_TimedOut) St_Write)))
       (err_context (with_stage (from_kind K_TimedOut) St_Write))) = Some Tp_Write"
proof -
  have own: "own_timeout_phase (Src_NetError (with_stage (from_kind K_TimedOut) St_Write)) = Some Tp_Write"
    by (simp add: own_timeout_phase_def)
  have "timeout_phase_within (Suc 30) (Some (Src_NetError (with_stage (from_kind K_TimedOut) St_Write))) = Some Tp_Write"
    by (simp only: timeout_phase_within.simps option.case own)
  then have "timeout_phase_within 31 (Some (Src_NetError (with_stage (from_kind K_TimedOut) St_Write))) = Some Tp_Write"
    by simp
  from this timeout_phase_survives_delivery_wrapping [OF this] show ?thesis by blast
qed

end
