(* ===== verification/Ws_Operation.thy ===== *)
theory Ws_Operation
  imports Ws_Retry
begin

text \<open>
  Options, states and results of WebSocket operations: \<open>src/api/ws/options.rs\<close>,
  \<open>src/api/ws/operation.rs\<close>, \<open>src/api/ws/task.rs\<close>, the limits of \<open>src/api/ws/config.rs\<close> that the
  write queue and the pending table validate, and \<open>src/module/ws_client/timeout_budget.rs\<close>.
  A cancellation group is its identity in the store of the theory \<open>Cancel_Domain\<close>. The largest
  number of permits of a Tokio semaphore is a parameter, \<open>max_permits\<close>.
\<close>

type_synonym group_id = nat

section \<open>Options\<close>

datatype message_lane = Lane_Normal | Lane_Urgent

datatype priority = Low | Normal | High

datatype disconnected_policy = Reject | WaitForReconnect

datatype response_timeout_origin = Registered | Origin_Written

record send_options =
  so_lane :: message_lane
  so_priority :: priority
  so_enqueue_timeout :: "duration option"
  so_write_timeout :: duration
  so_deadline :: "instant option"
  so_retry_setting :: "ws_send_retry_policy retry_setting"
  so_disconnected :: disconnected_policy
  so_cancellation :: "group_id option"
  so_metadata :: metadata

definition send_options_default :: send_options where
  "send_options_default = \<lparr>so_lane = Lane_Normal, so_priority = Normal, so_enqueue_timeout = None,
     so_write_timeout = 10 * NANOS_PER_SEC, so_deadline = None, so_retry_setting = Inherit,
     so_disconnected = Reject, so_cancellation = None, so_metadata = []\<rparr>"

text \<open>\<open>config::deadline\<close>, with the clock's reading.\<close>

definition nonzero_duration :: "duration \<Rightarrow> string \<Rightarrow> (unit, net_error) result" where
  "nonzero_duration v fld = (if v = 0 then Inl (config fld ''must be greater than zero'') else Inr ())"

definition deadline_check :: "instant \<Rightarrow> duration \<Rightarrow> string \<Rightarrow> bool \<Rightarrow> (unit, net_error) result" where
  "deadline_check now v fld allow_zero =
     try_bind (if \<not> allow_zero then nonzero_duration v fld else Inr ()) (\<lambda>_.
       if instant_checked_add now v = None
       then Inl (config fld ''must fit a monotonic Instant deadline'') else Inr ())"

definition send_options_validate :: "clock \<Rightarrow> send_options \<Rightarrow> (unit, net_error) result" where
  "send_options_validate clk self =
     (if so_lane self = Lane_Urgent \<and> so_priority self \<noteq> Normal
      then Inl (config ''priority'' ''must be Normal for the Urgent lane'')
      else try_bind (case so_enqueue_timeout self of
                       Some t \<Rightarrow> deadline_check (clk 0) t ''enqueue_timeout'' True | None \<Rightarrow> Inr ()) (\<lambda>_.
           try_bind (deadline_check (clk 1) (so_write_timeout self) ''write_timeout'' True) (\<lambda>_.
           validate_metadata (so_metadata self))))"

record request_options =
  ro_send :: send_options
  ro_response_timeout :: duration
  ro_response_timeout_origin :: response_timeout_origin
  ro_registration_deadline :: "instant option"

definition request_options_default :: request_options where
  "request_options_default = \<lparr>ro_send = send_options_default, ro_response_timeout = 30 * NANOS_PER_SEC,
     ro_response_timeout_origin = Origin_Written, ro_registration_deadline = None\<rparr>"

definition request_options_validate :: "clock \<Rightarrow> request_options \<Rightarrow> (unit, net_error) result" where
  "request_options_validate clk self =
     (if so_lane (ro_send self) \<noteq> Lane_Normal
      then Inl (config ''send.lane'' ''tracked requests require the Normal lane'')
      else try_bind
        (map_err (\<lambda>e. case config_error_of e of
                         Some d \<Rightarrow> config (''send.'' @ conf_field d) (conf_reason d)
                       | None \<Rightarrow> e)
          (send_options_validate clk (ro_send self)))
        (\<lambda>_. deadline_check (clk 2) (ro_response_timeout self) ''response_timeout'' True))"

section \<open>Limits\<close>

definition positive :: "usize \<Rightarrow> string \<Rightarrow> (unit, net_error) result" where
  "positive v fld = (if v = 0 then Inl (config fld ''must be greater than zero'') else Inr ())"

definition permits :: "usize \<Rightarrow> usize \<Rightarrow> string \<Rightarrow> (unit, net_error) result" where
  "permits max_permits v fld =
     try_bind (positive v fld) (\<lambda>_.
       if max_permits < v then Inl (config fld ''must not exceed Tokio Semaphore::MAX_PERMITS'') else Inr ())"

record queue_limit =
  max_items :: usize
  max_bytes :: usize

definition queue_limit_default :: queue_limit where
  "queue_limit_default = \<lparr>max_items = 128, max_bytes = 1024 * 1024\<rparr>"

definition U32_MAX :: nat where
  "U32_MAX = 2 ^ 32 - 1"

definition queue_limit_validate_fields ::
  "usize \<Rightarrow> queue_limit \<Rightarrow> string \<Rightarrow> string \<Rightarrow> (unit, net_error) result" where
  "queue_limit_validate_fields max_permits self items_field bytes_field =
     try_bind (permits max_permits (max_items self) items_field) (\<lambda>_.
     try_bind (permits max_permits (max_bytes self) bytes_field) (\<lambda>_.
       if U32_MAX < max_bytes self then Inl (config bytes_field ''must fit a u32 byte allowance'')
       else Inr ()))"

definition queue_limit_validate :: "usize \<Rightarrow> queue_limit \<Rightarrow> (unit, net_error) result" where
  "queue_limit_validate max_permits self =
     queue_limit_validate_fields max_permits self ''max_items'' ''max_bytes''"

record request_limits =
  max_pending :: usize
  manual_response_grace :: duration

definition request_limits_default :: request_limits where
  "request_limits_default = \<lparr>max_pending = 4096, manual_response_grace = 2 * NANOS_PER_SEC\<rparr>"

definition request_limits_validate :: "usize \<Rightarrow> instant \<Rightarrow> request_limits \<Rightarrow> (unit, net_error) result" where
  "request_limits_validate max_permits now self =
     try_bind (permits max_permits (max_pending self) ''requests.max_pending'') (\<lambda>_.
       deadline_check now (manual_response_grace self) ''requests.manual_response_grace'' True)"

section \<open>Operation states\<close>

datatype operation_phase = WaitingForCapacity | Prepared | Queued | Writing | AwaitingResponse | Finished

datatype delivery_evidence = NotStarted | Delivery_Unknown | Delivery_Written | ResponseConfirmed

datatype task_success = Success_Written | ResponseReceived

datatype termination_outcome =
    TerminatedBeforeWrite | TerminatedAfterWrite | Outcome_DeliveryUnknown | AlreadyFinished

datatype write_outcome = Write_Written | Write_ResponseConfirmed

record operation_snapshot =
  phase :: operation_phase
  delivery :: delivery_evidence
  op_result :: "(task_success, net_error) result option"

datatype task_end_cause =
    Cause_Completed | Cause_Cancelled | Cause_Expired | Cause_Disconnected | Cause_Shutdown | Cause_Failed

datatype task_source =
    Source_RequestOperation metadata
  | Source_Message message
  | Source_Request request

record task_event =
  te_client_id :: client_id
  te_session_id :: session_id
  te_operation_id :: operation_id
  te_connection_id :: "connection_id option"
  te_source :: task_source
  te_lane :: message_lane
  te_phase :: operation_phase
  te_delivery :: delivery_evidence
  te_cause :: task_end_cause
  te_result :: "(task_success, net_error) result"

fun add_entry_bytes :: "usize \<Rightarrow> metadata \<Rightarrow> (usize, net_error) result" where
  "add_entry_bytes bytes [] = Inr bytes"
| "add_entry_bytes bytes ((key, v) # rest) =
     (case Option.bind (usize_checked_add bytes (length key)) (\<lambda>size. usize_checked_add size (length v)) of
        Some b \<Rightarrow> add_entry_bytes b rest
      | None \<Rightarrow> Inl (from_kind K_ItemTooLarge))"

definition payload_bytes :: "task_source \<Rightarrow> (usize, net_error) result" where
  "payload_bytes self =
     (case self of
        Source_RequestOperation md \<Rightarrow> add_entry_bytes 0 md
      | Source_Message m \<Rightarrow> Inr (message_len m)
      | Source_Request r \<Rightarrow>
          try_bind (ok_or (usize_checked_add (message_len (req_message r)) (length (as_str (req_id r))))
                      (from_kind K_ItemTooLarge))
            (\<lambda>bytes. add_entry_bytes bytes (req_metadata r)))"

section \<open>Timeout budgets\<close>

record timeout_budget =
  budget_at :: instant
  budget_phase :: ws_timeout_phase

definition budget_earlier :: "timeout_budget option \<Rightarrow> timeout_budget option \<Rightarrow> timeout_budget option" where
  "budget_earlier left right =
     (case (left, right) of
        (Some l, Some r) \<Rightarrow> Some (if budget_at l \<le> budget_at r then l else r)
      | (l, r) \<Rightarrow> or_option l r)"

definition budget_timeout_error :: "timeout_budget \<Rightarrow> net_error" where
  "budget_timeout_error self = with_ws_timeout_phase (from_kind K_TimedOut) (budget_phase self)"

definition earliest :: "instant option \<Rightarrow> instant option \<Rightarrow> instant option" where
  "earliest left right =
     (case (left, right) of (Some l, Some r) \<Rightarrow> Some (min l r) | (l, r) \<Rightarrow> or_option l r)"

lemma earliest_simps [simp]:
  "earliest None r = r" "earliest l None = l" "earliest (Some a) (Some b) = Some (min a b)"
  by (auto simp: earliest_def or_option_def split: option.splits)

lemma budget_earlier_at:
  "map_option budget_at (budget_earlier l r) = earliest (map_option budget_at l) (map_option budget_at r)"
  by (auto simp: budget_earlier_def or_option_def min_def split: option.splits)

lemma add_entry_bytes_Inr:
  "add_entry_bytes b md = Inr n \<Longrightarrow> n = b + (\<Sum>(k, v)\<leftarrow>md. length k + length v)"
  by (induction b md rule: add_entry_bytes.induct)
    (auto simp: usize_checked_add_def split: if_splits option.splits)

lemma deadline_check_Inr:
  "deadline_check now v fld True = Inr () \<longleftrightarrow> now + v \<le> INSTANT_MAX"
  by (simp add: deadline_check_def instant_checked_add_def)

lemma send_options_validate_Inr:
  "send_options_validate clk o1 = Inr () \<longleftrightarrow>
     (so_lane o1 = Lane_Normal \<or> so_priority o1 = Normal)
     \<and> is_none_or (so_enqueue_timeout o1) (\<lambda>t. clk 0 + t \<le> INSTANT_MAX)
     \<and> clk 1 + so_write_timeout o1 \<le> INSTANT_MAX
     \<and> validate_metadata (so_metadata o1) = Inr ()"
  by (cases "so_lane o1")
    (auto simp: send_options_validate_def try_bind_Inr deadline_check_Inr is_none_or_iff split: option.splits)

text \<open>C35. Request options are accepted exactly when the request uses the normal lane, each of its
  relative limits still fits the clock, and its metadata is within the limit.\<close>

theorem request_options_accepted_iff:
  "request_options_validate clk ro = Inr () \<longleftrightarrow>
     so_lane (ro_send ro) = Lane_Normal
     \<and> is_none_or (so_enqueue_timeout (ro_send ro)) (\<lambda>t. clk 0 + t \<le> INSTANT_MAX)
     \<and> clk 1 + so_write_timeout (ro_send ro) \<le> INSTANT_MAX
     \<and> clk 2 + ro_response_timeout ro \<le> INSTANT_MAX
     \<and> (\<Sum>(k, v)\<leftarrow>so_metadata (ro_send ro). length k + length v) \<le> 16384"
proof -
  have "request_options_validate clk ro = Inr () \<longleftrightarrow> so_lane (ro_send ro) = Lane_Normal
      \<and> send_options_validate clk (ro_send ro) = Inr ()
      \<and> deadline_check (clk 2) (ro_response_timeout ro) ''response_timeout'' True = Inr ()"
    by (auto simp: request_options_validate_def try_bind_Inr)
  then show ?thesis
    unfolding send_options_validate_Inr validate_metadata_Inr deadline_check_Inr
    by (auto simp: MAX_METADATA_BYTES_def)
qed

end
