(* ===== verification/Cancel_Domain.thy ===== *)
theory Cancel_Domain
  imports Ws_Operation "HOL-Library.Multiset"
begin

text \<open>
  The cancellation tree of \<open>src/api/ws/cancellation.rs\<close>. The nodes are allocations shared by
  \<open>Arc\<close>, so the state is a store from addresses to nodes: \<open>cn_strong\<close> is the strong count of the
  node's \<open>Arc\<close>, and a \<open>Weak\<close> upgrades exactly when its address is still in the store. The
  addresses, tokens and gates of new objects are arguments, chosen by the allocator. The order of
  a hash map's values is unspecified; \<open>cn_children\<close> and \<open>cn_hooks\<close> list the entries in any order.
  The notifications and the hooks that \<open>cancel\<close> runs after it has released the gate are returned
  as a list of effects, in the order the code runs them.
\<close>

type_synonym hook_id = nat
type_synonym gate_id = nat

section \<open>The store\<close>

record cancel_node =
  cn_strong :: nat
  cn_gate :: gate_id
  cn_cancelled :: bool
  cn_notification :: token
  cn_parent :: "group_id option"
  cn_children :: "group_id list"
  cn_hooks :: "hook_id list"

record cancel_store =
  nodes :: "group_id \<Rightarrow> cancel_node option"
  live_hooks :: "hook_id set"
  gate_poisoned :: "gate_id \<Rightarrow> bool"

datatype cancel_effect = Notify token | Run_hook hook_id

definition set_node :: "cancel_store \<Rightarrow> group_id \<Rightarrow> cancel_node option \<Rightarrow> cancel_store" where
  "set_node st g n = st\<lparr>nodes := (nodes st)(g := n)\<rparr>"

definition upd_node :: "cancel_store \<Rightarrow> group_id \<Rightarrow> (cancel_node \<Rightarrow> cancel_node) \<Rightarrow> cancel_store" where
  "upd_node st g f = set_node st g (map_option f (nodes st g))"

section \<open>Operations\<close>

definition new_state :: "gate_id \<Rightarrow> token \<Rightarrow> cancel_node" where
  "new_state gate tok = \<lparr>cn_strong = 1, cn_gate = gate, cn_cancelled = False, cn_notification = tok,
     cn_parent = None, cn_children = [], cn_hooks = []\<rparr>"

definition group_new :: "cancel_store \<Rightarrow> group_id \<Rightarrow> gate_id \<Rightarrow> token \<Rightarrow> cancel_store" where
  "group_new st a gate tok =
     (set_node st a (Some (new_state gate tok)))\<lparr>gate_poisoned := (gate_poisoned st)(gate := False)\<rparr>"

definition is_cancelled :: "cancel_store \<Rightarrow> group_id \<Rightarrow> bool" where
  "is_cancelled st g = is_some_and (nodes st g) cn_cancelled"

text \<open>\<open>self.clone()\<close> of an \<open>Arc\<close>, and \<open>CancellationState::child\<close>.\<close>

definition arc_clone :: "cancel_store \<Rightarrow> group_id \<Rightarrow> cancel_store" where
  "arc_clone st g = upd_node st g (\<lambda>n. n\<lparr>cn_strong := cn_strong n + 1\<rparr>)"

definition group_child ::
  "cancel_store \<Rightarrow> group_id \<Rightarrow> group_id \<Rightarrow> token \<Rightarrow> cancel_store \<times> cancel_effect list" where
  "group_child st g a tok =
     (case nodes st g of
        None \<Rightarrow> (st, [])
      | Some self \<Rightarrow>
          let cancelled = cn_cancelled self;
              child = \<lparr>cn_strong = 1, cn_gate = cn_gate self, cn_cancelled = cancelled,
                       cn_notification = tok, cn_parent = Some g, cn_children = [], cn_hooks = []\<rparr>;
              st = set_node (arc_clone st g) a (Some child);
              st = upd_node st g (\<lambda>n. n\<lparr>cn_children := cn_children n @ [a]\<rparr>)
          in (st, if cancelled then [Notify tok] else []))"

text \<open>The loop of \<open>cancel\<close>; the head of \<open>pending\<close> is the top of the stack.\<close>

partial_function (option) cancel_loop ::
  "cancel_store \<Rightarrow> group_id list \<Rightarrow> group_id list \<Rightarrow> hook_id list
     \<Rightarrow> (cancel_store \<times> group_id list \<times> hook_id list) option" where
  "cancel_loop st pending cancelled hooks =
     (case pending of
        [] \<Rightarrow> Some (st, cancelled, hooks)
      | domain # rest \<Rightarrow>
          (case nodes st domain of
             None \<Rightarrow> cancel_loop st rest cancelled hooks
           | Some n \<Rightarrow>
               cancel_loop (upd_node st domain (\<lambda>n. n\<lparr>cn_cancelled := True, cn_hooks := []\<rparr>))
                 (rev (filter (\<lambda>c. nodes st c \<noteq> None) (cn_children n)) @ rest)
                 (cancelled @ [domain])
                 (hooks @ filter (\<lambda>h. h \<in> live_hooks st) (cn_hooks n))))"

definition notification_of :: "cancel_store \<Rightarrow> group_id \<Rightarrow> cancel_effect list" where
  "notification_of st g = (case nodes st g of None \<Rightarrow> [] | Some n \<Rightarrow> [Notify (cn_notification n)])"

definition group_cancel :: "cancel_store \<Rightarrow> group_id \<Rightarrow> (cancel_store \<times> cancel_effect list) option" where
  "group_cancel st g =
     map_option (\<lambda>(st, cancelled, hooks). (st, concat (map (notification_of st) cancelled) @ map Run_hook hooks))
       (cancel_loop st [g] [] [])"

definition lock_if_active :: "cancel_store \<Rightarrow> group_id \<Rightarrow> (unit, net_error) result" where
  "lock_if_active st g =
     (case nodes st g of
        None \<Rightarrow> Inr ()
      | Some n \<Rightarrow>
          if gate_poisoned st (cn_gate n) then Inl (from_kind K_Internal)
          else if cn_cancelled n then Inl (from_kind K_Cancelled)
          else Inr ())"

text \<open>
  \<open>bind_cancel_hook\<close>, with the address of the new hook and whether the allocator grants the
  table's reservation; the guard it returns holds one more strong reference to the node.
\<close>

record cancel_hook_guard =
  hg_owner :: group_id
  hg_hook :: hook_id

definition bind_cancel_hook ::
  "cancel_store \<Rightarrow> group_id \<Rightarrow> hook_id \<Rightarrow> bool
     \<Rightarrow> (cancel_hook_guard, net_error) result \<times> cancel_store" where
  "bind_cancel_hook st g h allocated =
     (case lock_if_active st g of
        Inl e \<Rightarrow> (Inl e, st)
      | Inr _ \<Rightarrow>
          if \<not> allocated then (Inl (from_kind K_Internal), st)
          else (Inr \<lparr>hg_owner = g, hg_hook = h\<rparr>,
                (upd_node (arc_clone st g) g (\<lambda>n. n\<lparr>cn_hooks := cn_hooks n @ [h]\<rparr>))
                  \<lparr>live_hooks := insert h (live_hooks st)\<rparr>))"

text \<open>
  \<open>Drop for CancellationState\<close>: \<open>unwind\<close> is its loop, which frees every ancestor whose last strong
  reference was the one given up by the node below it, and \<open>arc_drop\<close> is the end of one strong
  reference.
\<close>

definition forget_child :: "cancel_store \<Rightarrow> group_id \<Rightarrow> group_id \<Rightarrow> cancel_store" where
  "forget_child st p c = upd_node st p (\<lambda>n. n\<lparr>cn_children := removeAll c (cn_children n)\<rparr>)"

partial_function (option) unwind :: "cancel_store \<Rightarrow> group_id \<Rightarrow> cancel_store option" where
  "unwind st ancestor =
     (case nodes st ancestor of
        None \<Rightarrow> Some st
      | Some n \<Rightarrow>
          if cn_strong n = 1 then
            (case cn_parent n of
               None \<Rightarrow> Some (set_node st ancestor None)
             | Some p \<Rightarrow> unwind (forget_child (set_node st ancestor None) p ancestor) p)
          else Some (upd_node st ancestor (\<lambda>n. n\<lparr>cn_strong := cn_strong n - 1\<rparr>)))"

definition drop_state :: "cancel_store \<Rightarrow> group_id \<Rightarrow> cancel_node \<Rightarrow> cancel_store option" where
  "drop_state st g n =
     (case cn_parent n of
        None \<Rightarrow> Some (set_node st g None)
      | Some p \<Rightarrow> unwind (forget_child (set_node st g None) p g) p)"

definition arc_drop :: "cancel_store \<Rightarrow> group_id \<Rightarrow> cancel_store option" where
  "arc_drop st g =
     (case nodes st g of
        None \<Rightarrow> Some st
      | Some n \<Rightarrow>
          if cn_strong n = 1 then drop_state st g n
          else Some (upd_node st g (\<lambda>n. n\<lparr>cn_strong := cn_strong n - 1\<rparr>)))"

definition hook_guard_drop :: "cancel_store \<Rightarrow> cancel_hook_guard \<Rightarrow> cancel_store option" where
  "hook_guard_drop st guard =
     map_option (\<lambda>st. st\<lparr>live_hooks := live_hooks st - {hg_hook guard}\<rparr>)
       (arc_drop (upd_node st (hg_owner guard) (\<lambda>n. n\<lparr>cn_hooks := removeAll (hg_hook guard) (cn_hooks n)\<rparr>))
          (hg_owner guard))"

text \<open>\<open>CancellationGuard\<close>: it cancels its group when it is dropped armed.\<close>

record cancellation_guard =
  guard_group :: group_id
  armed :: bool

definition cancel_on_drop :: "cancel_store \<Rightarrow> group_id \<Rightarrow> cancellation_guard \<times> cancel_store" where
  "cancel_on_drop st g = (\<lparr>guard_group = g, armed = True\<rparr>, arc_clone st g)"

definition guard_drop ::
  "cancel_store \<Rightarrow> cancellation_guard \<Rightarrow> (cancel_store \<times> cancel_effect list) option" where
  "guard_drop st guard =
     Option.bind (if armed guard then group_cancel st (guard_group guard) else Some (st, []))
       (\<lambda>(st, effects). map_option (\<lambda>st. (st, effects)) (arc_drop st (guard_group guard)))"

definition disarm :: "cancel_store \<Rightarrow> cancellation_guard \<Rightarrow> (group_id \<times> cancel_store) option" where
  "disarm st guard =
     (let guard = guard\<lparr>armed := False\<rparr>
      in map_option (\<lambda>(st, _). (guard_group guard, st)) (guard_drop (arc_clone st (guard_group guard)) guard))"

section \<open>Descendants and the loop of \<open>cancel\<close>\<close>

definition kids :: "cancel_store \<Rightarrow> group_id \<Rightarrow> group_id list" where
  "kids st g = (case nodes st g of None \<Rightarrow> [] | Some n \<Rightarrow> filter (\<lambda>c. nodes st c \<noteq> None) (cn_children n))"

definition descends :: "cancel_store \<Rightarrow> group_id \<Rightarrow> group_id \<Rightarrow> bool" where
  "descends st = (\<lambda>a b. b \<in> set (kids st a))\<^sup>*\<^sup>*"

definition ranked :: "cancel_store \<Rightarrow> (group_id \<Rightarrow> nat) \<Rightarrow> bool" where
  "ranked st r \<longleftrightarrow> (\<forall>g. \<forall>c \<in> set (kids st g). r c < r g)"

definition mark :: "group_id set \<Rightarrow> cancel_store \<Rightarrow> cancel_store" where
  "mark S st = st\<lparr>nodes := \<lambda>h. map_option
     (\<lambda>n. if h \<in> S then n\<lparr>cn_cancelled := True, cn_hooks := []\<rparr> else n) (nodes st h)\<rparr>"

definition hooks_at :: "cancel_store \<Rightarrow> group_id set \<Rightarrow> hook_id set" where
  "hooks_at st S = {k. \<exists>h \<in> S. \<exists>n. nodes st h = Some n \<and> k \<in> set (cn_hooks n) \<and> k \<in> live_hooks st}"

lemma set_node_simps [simp]:
  "nodes (set_node st g n) = (nodes st)(g := n)" "live_hooks (set_node st g n) = live_hooks st"
  "gate_poisoned (set_node st g n) = gate_poisoned st"
  by (simp_all add: set_node_def)

lemma upd_node_simps [simp]:
  "nodes (upd_node st g f) = (nodes st)(g := map_option f (nodes st g))"
  "live_hooks (upd_node st g f) = live_hooks st" "gate_poisoned (upd_node st g f) = gate_poisoned st"
  by (simp_all add: upd_node_def)

lemma mark_simps [simp]:
  "live_hooks (mark S st) = live_hooks st" "gate_poisoned (mark S st) = gate_poisoned st"
  "nodes (mark S st) h = map_option
     (\<lambda>n. if h \<in> S then n\<lparr>cn_cancelled := True, cn_hooks := []\<rparr> else n) (nodes st h)"
  by (simp_all add: mark_def)

lemma upd_node_mark:
  "upd_node st d (\<lambda>n. n\<lparr>cn_cancelled := True, cn_hooks := []\<rparr>) = mark {d} st"
  by (auto simp: upd_node_def set_node_def mark_def fun_eq_iff option.map_ident)

lemma mark_mark: "mark T (mark S st) = mark (S \<union> T) st"
  by (rule cancel_store.equality)
    (auto simp: mark_def fun_eq_iff option.map_comp comp_def intro!: option.map_cong)

lemma mark_empty: "mark {} st = st"
  by (simp add: mark_def option.map_ident)

lemma kids_mark [simp]: "kids (mark S st) = kids st"
  by (auto simp: kids_def fun_eq_iff split: option.splits)

lemma descends_mark [simp]: "descends (mark S st) = descends st"
  by (simp add: descends_def)

lemma ranked_mark [simp]: "ranked (mark S st) = ranked st"
  by (simp add: ranked_def fun_eq_iff)

lemma descends_refl [simp]: "descends st g g"
  by (simp add: descends_def)

lemma descends_step: "descends st g h \<longleftrightarrow> h = g \<or> (\<exists>c \<in> set (kids st g). descends st c h)"
  unfolding descends_def by (auto elim: converse_rtranclpE intro: converse_rtranclp_into_rtranclp)

lemma descends_snoc: "descends st g h \<Longrightarrow> c \<in> set (kids st h) \<Longrightarrow> descends st g c"
  unfolding descends_def by (rule rtranclp.rtrancl_into_rtrancl)

lemma kids_live: "c \<in> set (kids st g) \<Longrightarrow> nodes st c \<noteq> None"
  by (auto simp: kids_def split: option.splits)

lemma cancel_loop_step:
  assumes "nodes st d = Some n"
  shows "cancel_loop st (d # rest) cs hs =
    cancel_loop (mark {d} st) (rev (kids st d) @ rest) (cs @ [d])
      (hs @ filter (\<lambda>h. h \<in> live_hooks st) (cn_hooks n))"
  using assms by (subst cancel_loop.simps) (simp add: kids_def upd_node_mark)

lemma cancel_loop_correct:
  assumes "ranked st r" and "\<forall>p \<in> set ps. nodes st p \<noteq> None"
  shows "\<exists>cs' hs'. cancel_loop st ps cs hs =
      Some (mark {h. \<exists>p \<in> set ps. descends st p h} st, cs @ cs', hs @ hs')
    \<and> set cs' = {h. \<exists>p \<in> set ps. descends st p h}
    \<and> set hs' = hooks_at st {h. \<exists>p \<in> set ps. descends st p h}"
  using assms
proof (induction "mset (map r ps)" arbitrary: st ps cs hs rule: wf_induct_rule [OF wf_mult [OF wf_less_than]])
  case (1 ps st cs hs)
  show ?case
  proof (cases ps)
    case Nil
    then show ?thesis by (simp add: cancel_loop.simps mark_empty hooks_at_def)
  next
    case (Cons d rest)
    then obtain n where n: "nodes st d = Some n" using 1 by auto
    let ?qs = "rev (kids st d) @ rest"
    let ?D = "\<lambda>ps. {h. \<exists>p \<in> set ps. descends st p h}"
    have less: "(mset (map r ?qs), mset (map r ps)) \<in> mult less_than"
      using one_step_implies_mult [of "{#r d#}" "mset (map r (kids st d))" less_than "mset (map r rest)"]
        1 Cons by (auto simp: ranked_def add.commute)
    have live: "\<forall>p \<in> set ?qs. nodes (mark {d} st) p \<noteq> None"
      using 1 Cons kids_live by auto
    have D: "?D ps = insert d (?D ?qs)"
      using Cons descends_step [of st d] by auto
    let ?hs = "hs @ filter (\<lambda>h. h \<in> live_hooks st) (cn_hooks n)"
    have "\<exists>cs' hs'. cancel_loop (mark {d} st) ?qs (cs @ [d]) ?hs =
        Some (mark {h. \<exists>p \<in> set ?qs. descends (mark {d} st) p h} (mark {d} st), (cs @ [d]) @ cs', ?hs @ hs')
      \<and> set cs' = {h. \<exists>p \<in> set ?qs. descends (mark {d} st) p h}
      \<and> set hs' = hooks_at (mark {d} st) {h. \<exists>p \<in> set ?qs. descends (mark {d} st) p h}"
      by (rule 1(1) [OF less _ live]) (simp add: 1)
    then obtain cs' hs' where
      loop: "cancel_loop (mark {d} st) ?qs (cs @ [d]) ?hs =
        Some (mark (?D ?qs) (mark {d} st), (cs @ [d]) @ cs', ?hs @ hs')"
      and cs': "set cs' = ?D ?qs" and hs': "set hs' = hooks_at (mark {d} st) (?D ?qs)"
      unfolding descends_mark by blast
    have hooks: "hooks_at st (?D ps) =
        set (filter (\<lambda>h. h \<in> live_hooks st) (cn_hooks n)) \<union> hooks_at (mark {d} st) (?D ?qs)"
      unfolding D using n by (fastforce simp: hooks_at_def split: if_splits)
    have "cancel_loop st ps cs hs = Some (mark (?D ps) st, cs @ (d # cs'),
        hs @ (filter (\<lambda>h. h \<in> live_hooks st) (cn_hooks n) @ hs'))"
      unfolding Cons cancel_loop_step [OF n] loop unfolding mark_mark D [unfolded Cons] by simp
    moreover have "set (d # cs') = ?D ps" using cs' D by simp
    ultimately show ?thesis using hs' hooks by (metis set_append)
  qed
qed

lemma group_cancel_correct:
  assumes "ranked st r" and "nodes st g \<noteq> None"
  shows "\<exists>cs hs. group_cancel st g = Some (mark {h. descends st g h} st,
        concat (map (notification_of st) cs) @ map Run_hook hs)
    \<and> set cs = {h. descends st g h} \<and> set hs = hooks_at st {h. descends st g h}"
proof -
  have keep: "notification_of (mark S st) = notification_of st" for S
    by (auto simp: notification_of_def fun_eq_iff split: option.splits)
  show ?thesis
    using cancel_loop_correct [of st r "[g]" "[]" "[]"] assms
    by (auto simp: group_cancel_def keep)
qed

section \<open>The invariant of the tree\<close>

text \<open>
  A child is live, points back to its parent, shares its gate and is cancelled when the parent is;
  a parent is live and lists its child; a strong count covers the live children; a cancelled node
  keeps no hook; the tree has no cycle.
\<close>

definition node_ok :: "cancel_store \<Rightarrow> group_id \<Rightarrow> cancel_node \<Rightarrow> bool" where
  "node_ok st g n \<longleftrightarrow>
     distinct (cn_children n) \<and> length (cn_children n) \<le> cn_strong n \<and> 0 < cn_strong n
     \<and> (cn_cancelled n \<longrightarrow> cn_hooks n = [])
     \<and> (\<forall>c \<in> set (cn_children n). \<exists>m. nodes st c = Some m \<and> cn_parent m = Some g
          \<and> cn_gate m = cn_gate n \<and> (cn_cancelled n \<longrightarrow> cn_cancelled m))
     \<and> (\<forall>p. cn_parent n = Some p \<longrightarrow> (\<exists>m. nodes st p = Some m \<and> g \<in> set (cn_children m)))"

definition cancel_inv :: "cancel_store \<Rightarrow> bool" where
  "cancel_inv st \<longleftrightarrow> finite (dom (nodes st)) \<and> (\<forall>g n. nodes st g = Some n \<longrightarrow> node_ok st g n)
     \<and> (\<exists>r. ranked st r)"

text \<open>A handle is a strong reference that no live child accounts for.\<close>

definition has_handle :: "cancel_store \<Rightarrow> group_id \<Rightarrow> bool" where
  "has_handle st g \<longleftrightarrow> is_some_and (nodes st g) (\<lambda>n. length (cn_children n) < cn_strong n)"

lemma kids_children:
  assumes "cancel_inv st" and "nodes st g = Some n"
  shows "kids st g = cn_children n"
  using assms by (fastforce simp: kids_def cancel_inv_def node_ok_def filter_id_conv)

lemma ranked_kids_subset:
  assumes "ranked st r" and "\<And>g. set (kids st' g) \<subseteq> set (kids st g)"
  shows "ranked st' r"
  using assms by (fastforce simp: ranked_def)

lemma cancel_inv_descends:
  assumes inv: "cancel_inv st" and "is_cancelled st g" and d: "descends st g h"
  shows "is_cancelled st h"
  using d unfolding descends_def
proof (induction rule: rtranclp_induct)
  case base
  then show ?case using assms by simp
next
  case (step y z)
  then obtain n where n: "nodes st y = Some n" "cn_cancelled n"
    by (auto simp: is_cancelled_def is_some_and_iff)
  with inv step(2) kids_children [OF inv n(1)] show ?case
    by (fastforce simp: cancel_inv_def node_ok_def is_cancelled_def is_some_and_iff)
qed

lemma cancel_inv_mark:
  assumes inv: "cancel_inv st"
    and closed: "\<And>g c. g \<in> S \<Longrightarrow> c \<in> set (kids st g) \<Longrightarrow> c \<in> S"
  shows "cancel_inv (mark S st)"
proof -
  have ok: "node_ok (mark S st) g n" if "nodes (mark S st) g = Some n" for g n
  proof -
    from that obtain m where m: "nodes st g = Some m"
      and n: "n = (if g \<in> S then m\<lparr>cn_cancelled := True, cn_hooks := []\<rparr> else m)"
      by auto
    have ok: "node_ok st g m" using inv m by (simp add: cancel_inv_def)
    have at: "\<exists>z'. nodes (mark S st) h = Some z' \<and> cn_parent z' = cn_parent z
        \<and> cn_gate z' = cn_gate z \<and> cn_children z' = cn_children z
        \<and> (cn_cancelled z' \<longleftrightarrow> cn_cancelled z \<or> h \<in> S)" if "nodes st h = Some z" for h z
      using that by simp
    have fields: "cn_children n = cn_children m" "cn_gate n = cn_gate m" "cn_parent n = cn_parent m"
      "cn_cancelled n \<longleftrightarrow> cn_cancelled m \<or> g \<in> S"
      by (simp_all add: n)
    have kid: "\<exists>z'. nodes (mark S st) c = Some z' \<and> cn_parent z' = Some g \<and> cn_gate z' = cn_gate n
        \<and> (cn_cancelled n \<longrightarrow> cn_cancelled z')" if c: "c \<in> set (cn_children m)" for c
    proof -
      have "g \<in> S \<Longrightarrow> c \<in> S" using closed kids_children [OF inv m] c by auto
      moreover obtain z where "nodes st c = Some z" "cn_parent z = Some g" "cn_gate z = cn_gate m"
        "cn_cancelled m \<longrightarrow> cn_cancelled z"
        using ok c unfolding node_ok_def by blast
      ultimately show ?thesis unfolding fields using at by metis
    qed
    have par: "\<exists>z'. nodes (mark S st) p = Some z' \<and> g \<in> set (cn_children z')" if "cn_parent m = Some p" for p
      using ok that at unfolding node_ok_def by metis
    show ?thesis
      using ok kid par unfolding node_ok_def fields by (simp add: n del: mark_simps)
  qed
  have "dom (nodes (mark S st)) = dom (nodes st)" by (auto simp: dom_def)
  with inv ok show ?thesis by (simp add: cancel_inv_def)
qed

lemma cancel_inv_cancel:
  assumes "cancel_inv st" and "nodes st g \<noteq> None" and "group_cancel st g = Some (st', effects)"
  shows "cancel_inv st'"
proof -
  obtain r where "ranked st r" using assms by (auto simp: cancel_inv_def)
  then have "st' = mark {h. descends st g h} st"
    using group_cancel_correct assms by fastforce
  moreover have "cancel_inv (mark {h. descends st g h} st)"
    by (rule cancel_inv_mark [OF assms(1)]) (auto intro: descends_snoc)
  ultimately show ?thesis by simp
qed

lemma cancel_inv_new:
  assumes inv: "cancel_inv st" and fresh: "nodes st a = None"
  shows "cancel_inv (group_new st a gate tok)"
proof -
  let ?st = "group_new st a gate tok"
  have other: "nodes ?st h = nodes st h" if "h \<noteq> a" for h using that by (simp add: group_new_def)
  have nodes_a: "nodes ?st a = Some (new_state gate tok)" by (simp add: group_new_def)
  have unlisted: "a \<notin> set (cn_children n)" "cn_parent n \<noteq> Some a" if "nodes st g = Some n" for g n
    using inv fresh that by (fastforce simp: cancel_inv_def node_ok_def)+
  have "node_ok ?st g n" if "nodes ?st g = Some n" for g n
  proof (cases "g = a")
    case True
    then show ?thesis using that nodes_a by (auto simp: node_ok_def new_state_def)
  next
    case False
    then have "nodes st g = Some n" "node_ok st g n"
      using that other inv by (auto simp: cancel_inv_def)
    then show ?thesis using unlisted other unfolding node_ok_def by metis
  qed
  moreover have "kids ?st = kids st"
  proof
    fix g
    show "kids ?st g = kids st g"
    proof (cases "g = a")
      case True
      then show ?thesis using fresh nodes_a by (simp add: kids_def new_state_def)
    next
      case False
      have "nodes ?st x = nodes st x" if "nodes st g = Some n" "x \<in> set (cn_children n)" for n x
        using that unlisted other by metis
      then show ?thesis
        unfolding kids_def other [OF False] by (auto split: option.splits intro!: filter_cong)
    qed
  qed
  moreover have "dom (nodes ?st) = insert a (dom (nodes st))"
    by (auto simp: dom_def group_new_def)
  ultimately show ?thesis using inv by (auto simp: cancel_inv_def ranked_def)
qed

lemma group_child_nodes:
  assumes "nodes st g = Some n" and "a \<noteq> g"
  shows "nodes (fst (group_child st g a tok)) = (nodes st)
    (g \<mapsto> n\<lparr>cn_strong := cn_strong n + 1, cn_children := cn_children n @ [a]\<rparr>,
     a \<mapsto> \<lparr>cn_strong = 1, cn_gate = cn_gate n, cn_cancelled = cn_cancelled n, cn_notification = tok,
           cn_parent = Some g, cn_children = [], cn_hooks = []\<rparr>)"
  using assms by (auto simp: group_child_def arc_clone_def Let_def)

lemma cancel_inv_child:
  assumes inv: "cancel_inv st" and g: "nodes st g = Some n" and fresh: "nodes st a = None"
  shows "cancel_inv (fst (group_child st g a tok))"
proof -
  let ?st = "fst (group_child st g a tok)"
  have ne: "a \<noteq> g" using g fresh by auto
  note nodes = group_child_nodes [OF g ne, of tok]
  have unlisted: "a \<notin> set (cn_children m)" "cn_parent m \<noteq> Some a" if "nodes st h = Some m" for h m
    using inv fresh that by (fastforce simp: cancel_inv_def node_ok_def)+
  have old: "node_ok st h m" if "nodes st h = Some m" for h m
    using inv that by (simp add: cancel_inv_def)
  obtain r where r: "ranked st r" using inv by (auto simp: cancel_inv_def)
  then have irrefl: "g \<notin> set (cn_children n)"
    using kids_children [OF inv g] unfolding ranked_def by (metis less_irrefl)
  have ok: "node_ok ?st h m" if m: "nodes ?st h = Some m" for h m
  proof -
    consider "h = a" | "h = g" | "h \<noteq> a" "h \<noteq> g" by blast
    then show ?thesis
    proof cases
      case 1
      then show ?thesis using m ne unfolding node_ok_def nodes by auto
    next
      case 2
      then show ?thesis using m g ne old [OF g] unlisted [OF g] irrefl unfolding node_ok_def nodes by auto
    next
      case 3
      then have h: "nodes st h = Some m" using m nodes by simp
      show ?thesis using old [OF h] unlisted [OF h] 3 g unfolding node_ok_def nodes by auto
    qed
  qed
  have kids: "set (kids ?st h) \<subseteq> (if h = g then insert a (set (kids st g)) else if h = a then {} else set (kids st h))"
    for h
    using g ne unlisted fresh unfolding kids_def nodes by (auto split: option.splits if_splits)
  have "a \<notin> set (kids st h)" for h using kids_live fresh by blast
  then have "c \<in> set (kids ?st h) \<Longrightarrow> (if c = a then 0 else Suc (r c)) < (if h = a then 0 else Suc (r h))" for h c
    using r kids [of h] ne unfolding ranked_def by (cases "h = a"; cases "h = g") auto
  then have "ranked ?st (\<lambda>x. if x = a then 0 else Suc (r x))"
    unfolding ranked_def by blast
  moreover have "finite (dom (nodes ?st))" using inv by (simp add: nodes cancel_inv_def)
  ultimately show ?thesis using ok by (auto simp: cancel_inv_def)
qed

lemma cancel_inv_node: "cancel_inv st \<Longrightarrow> nodes st g = Some n \<Longrightarrow> node_ok st g n"
  by (simp add: cancel_inv_def)

lemma cancel_inv_parent:
  assumes "cancel_inv st" and "nodes st g = Some n" and "cn_parent n = Some p"
  obtains m where "nodes st p = Some m" and "g \<in> set (cn_children m)"
  using cancel_inv_node [OF assms(1,2)] assms(3) by (auto simp: node_ok_def)

lemma cancel_inv_other [simp]:
  "cancel_inv (st\<lparr>live_hooks := x\<rparr>) = cancel_inv st"
  "cancel_inv (st\<lparr>gate_poisoned := y\<rparr>) = cancel_inv st"
  by (simp_all add: cancel_inv_def node_ok_def ranked_def kids_def)

lemma cancel_inv_upd:
  assumes inv: "cancel_inv st" and n: "nodes st g = Some n"
    and same: "cn_children (f n) = cn_children n" "cn_gate (f n) = cn_gate n"
      "cn_cancelled (f n) = cn_cancelled n" "cn_parent (f n) = cn_parent n"
    and strong: "length (cn_children n) \<le> cn_strong (f n)" "0 < cn_strong (f n)"
    and hooks: "cn_cancelled n \<longrightarrow> cn_hooks (f n) = []"
  shows "cancel_inv (upd_node st g f)"
proof -
  let ?st = "upd_node st g f"
  have at: "\<exists>z'. nodes ?st h = Some z' \<and> cn_parent z' = cn_parent z \<and> cn_gate z' = cn_gate z
      \<and> cn_children z' = cn_children z \<and> cn_cancelled z' = cn_cancelled z" if "nodes st h = Some z" for h z
    using that n same by (cases "h = g") auto
  have ok: "node_ok ?st h z" if z: "nodes ?st h = Some z" for h z
  proof -
    obtain y where y: "nodes st h = Some y" "z = (if h = g then f n else y)"
      using z n by (auto split: if_splits)
    then have "node_ok st h y" using inv by (simp add: cancel_inv_def)
    moreover have "cn_children z = cn_children y" "cn_gate z = cn_gate y" "cn_parent z = cn_parent y"
      "cn_cancelled z = cn_cancelled y"
      using y n same by auto
    moreover have "length (cn_children z) \<le> cn_strong z" "0 < cn_strong z" "cn_cancelled z \<longrightarrow> cn_hooks z = []"
      using y n same strong hooks calculation(1) by (auto simp: node_ok_def)
    ultimately show ?thesis unfolding node_ok_def using at by metis
  qed
  have "kids ?st h = kids st h" for h
    using n same by (auto simp: kids_def split: option.splits intro!: filter_cong)
  then have "ranked ?st = ranked st" by (simp add: ranked_def fun_eq_iff)
  moreover have "dom (nodes ?st) = dom (nodes st)" using n by (auto simp: dom_def)
  ultimately show ?thesis using inv ok unfolding cancel_inv_def by metis
qed

lemma cancel_inv_clone:
  assumes "cancel_inv st" and "nodes st g \<noteq> None"
  shows "cancel_inv (arc_clone st g)"
proof -
  obtain n where n: "nodes st g = Some n" using assms by auto
  show ?thesis unfolding arc_clone_def
    by (rule cancel_inv_upd [OF assms(1) n]) (use cancel_inv_node [OF assms(1) n] in \<open>auto simp: node_ok_def\<close>)
qed

lemma cancel_inv_drop_node:
  assumes inv: "cancel_inv st" and g: "nodes st g = Some n" and leaf: "cn_children n = []"
    and root: "cn_parent n = None"
  shows "cancel_inv (set_node st g None)"
proof -
  let ?st = "set_node st g None"
  have other: "g \<notin> set (cn_children m)" "cn_parent m \<noteq> Some g" if "nodes st h = Some m" for h m
    using inv g leaf root that by (fastforce simp: cancel_inv_def node_ok_def)+
  have "node_ok ?st h m" if "nodes ?st h = Some m" for h m
  proof -
    have h: "h \<noteq> g" "nodes st h = Some m" using that by (auto split: if_splits)
    then have "node_ok st h m" using inv by (simp add: cancel_inv_def)
    then show ?thesis using other [OF h(2)] unfolding node_ok_def by auto
  qed
  moreover obtain r where "ranked st r" using inv by (auto simp: cancel_inv_def)
  then have "ranked ?st r"
    by (rule ranked_kids_subset) (auto simp: kids_def split: option.splits if_splits)
  moreover have "finite (dom (nodes ?st))" using inv by (simp add: cancel_inv_def)
  ultimately show ?thesis by (auto simp: cancel_inv_def)
qed

lemma cancel_inv_drop_child:
  assumes inv: "cancel_inv st" and g: "nodes st g = Some n" and leaf: "cn_children n = []"
    and parent: "cn_parent n = Some p"
  shows "cancel_inv (forget_child (set_node st g None) p g)"
    and "has_handle (forget_child (set_node st g None) p g) p"
proof -
  let ?st = "forget_child (set_node st g None) p g"
  obtain m where m: "nodes st p = Some m" "g \<in> set (cn_children m)"
    using cancel_inv_parent [OF inv g parent] by blast
  have ne: "p \<noteq> g" using m g leaf by auto
  have nodes: "nodes ?st = (nodes st)(g := None, p \<mapsto> m\<lparr>cn_children := removeAll g (cn_children m)\<rparr>)"
    using m ne by (simp add: forget_child_def)
  have only: "h = p" if "nodes st h = Some y" "g \<in> set (cn_children y)" for h y
    using cancel_inv_node [OF inv that(1)] that(2) g parent by (auto simp: node_ok_def)
  have noparent: "cn_parent y \<noteq> Some g" if "nodes st h = Some y" for h y
    using cancel_inv_parent [OF inv that] g leaf by force
  have old: "node_ok st h y" if "nodes st h = Some y" for h y
    using inv that by (simp add: cancel_inv_def)
  have len: "length (removeAll g (cn_children m)) < length (cn_children m)"
    using m(2) by (rule length_removeAll_less)
  have ok: "node_ok ?st h y" if y: "nodes ?st h = Some y" for h y
  proof (cases "h = p")
    case True
    then have "y = m\<lparr>cn_children := removeAll g (cn_children m)\<rparr>" using y nodes by simp
    then show ?thesis
      using True old [OF m(1)] noparent [OF m(1)] len m ne unfolding node_ok_def nodes
      by (auto simp: distinct_removeAll)
  next
    case False
    then have h: "nodes st h = Some y" "h \<noteq> g" using y nodes by (auto split: if_splits)
    then show ?thesis
      using False old [OF h(1)] noparent [OF h(1)] only [OF h(1)] m ne unfolding node_ok_def nodes
      by auto
  qed
  obtain r where "ranked st r" using inv by (auto simp: cancel_inv_def)
  then have "ranked ?st r"
    by (rule ranked_kids_subset) (use m ne in \<open>auto simp: kids_def nodes split: option.splits if_splits\<close>)
  moreover have "finite (dom (nodes ?st))" using inv by (simp add: nodes cancel_inv_def)
  ultimately show "cancel_inv ?st" using ok by (auto simp: cancel_inv_def)
  show "has_handle ?st p"
    using len old [OF m(1)] by (auto simp: has_handle_def nodes is_some_and_def node_ok_def)
qed

section \<open>Dropping references\<close>

lemma arc_drop_unwind: "arc_drop st g = unwind st g"
  by (subst unwind.simps) (simp add: arc_drop_def drop_state_def split: option.split)

definition flags_kept :: "cancel_store \<Rightarrow> cancel_store \<Rightarrow> bool" where
  "flags_kept st st' \<longleftrightarrow> (\<forall>h m. nodes st' h = Some m \<longrightarrow>
     (\<exists>n. nodes st h = Some n \<and> cn_cancelled m = cn_cancelled n \<and> cn_notification m = cn_notification n))"

lemma flags_kept_trans: "flags_kept a b \<Longrightarrow> flags_kept b c \<Longrightarrow> flags_kept a c"
  unfolding flags_kept_def by metis

lemma unwind_shared:
  assumes inv: "cancel_inv st" and n: "nodes st g = Some n"
    and handle: "length (cn_children n) < cn_strong n" and shared: "cn_strong n \<noteq> 1"
  shows "\<exists>st'. unwind st g = Some st' \<and> cancel_inv st' \<and> flags_kept st st'
    \<and> (\<forall>h. nodes st h \<noteq> None \<longrightarrow> nodes st' h \<noteq> None)"
proof -
  let ?f = "\<lambda>n. n\<lparr>cn_strong := cn_strong n - 1\<rparr>"
  have "cancel_inv (upd_node st g ?f)"
    by (rule cancel_inv_upd [OF inv n])
      (use cancel_inv_node [OF inv n] handle shared in \<open>auto simp: node_ok_def\<close>)
  moreover have "unwind st g = Some (upd_node st g ?f)"
    using n shared by (subst unwind.simps) simp
  moreover have "flags_kept st (upd_node st g ?f)"
    using n by (auto simp: flags_kept_def)
  ultimately show ?thesis using n by auto
qed

lemma unwind_correct:
  assumes "cancel_inv st" and "has_handle st g"
  shows "\<exists>st'. unwind st g = Some st' \<and> cancel_inv st' \<and> flags_kept st st'
    \<and> (\<forall>h. h \<noteq> g \<longrightarrow> has_handle st h \<longrightarrow> nodes st' h \<noteq> None)"
  using assms
proof (induction "card (dom (nodes st))" arbitrary: st g rule: less_induct)
  case less
  obtain n where n: "nodes st g = Some n" and handle: "length (cn_children n) < cn_strong n"
    using less.prems(2) by (auto simp: has_handle_def is_some_and_iff)
  have fin: "finite (dom (nodes st))" using less.prems by (simp add: cancel_inv_def)
  show ?case
  proof (cases "cn_strong n = 1")
    case False
    show ?thesis
      using unwind_shared [OF less.prems(1) n handle False] by (fastforce simp: has_handle_def is_some_and_iff)
  next
    case True
    then have leaf: "cn_children n = []" using handle by simp
    show ?thesis
    proof (cases "cn_parent n")
      case None
      have "unwind st g = Some (set_node st g None)" using n True None by (subst unwind.simps) simp
      moreover have "flags_kept st (set_node st g None)" by (auto simp: flags_kept_def)
      ultimately show ?thesis
        using cancel_inv_drop_node [OF less.prems(1) n leaf None] by (auto simp: has_handle_def is_some_and_iff)
    next
      case (Some p)
      let ?st = "forget_child (set_node st g None) p g"
      note drop = cancel_inv_drop_child [OF less.prems(1) n leaf Some]
      obtain m where m: "nodes st p = Some m" "g \<in> set (cn_children m)"
        using cancel_inv_parent [OF less.prems(1) n Some] .
      have ne: "p \<noteq> g" using m n leaf by auto
      have nodes: "nodes ?st = (nodes st)(g := None, p \<mapsto> m\<lparr>cn_children := removeAll g (cn_children m)\<rparr>)"
        using m ne by (simp add: forget_child_def)
      have unwind: "unwind st g = unwind ?st p" using n True Some by (subst unwind.simps) simp
      have "dom (nodes ?st) = dom (nodes st) - {g}" using m ne by (auto simp: nodes)
      then have "card (dom (nodes ?st)) < card (dom (nodes st))"
        using fin n by (auto intro!: psubset_card_mono)
      then obtain st' where st': "unwind ?st p = Some st'" "cancel_inv st'" "flags_kept ?st st'"
        "\<forall>h. h \<noteq> p \<longrightarrow> has_handle ?st h \<longrightarrow> nodes st' h \<noteq> None"
        using less.hyps [OF _ drop] by blast
      have "flags_kept st ?st" using m ne by (auto simp: flags_kept_def nodes)
      then have flags: "flags_kept st st'" using st'(3) flags_kept_trans by blast
      have "nodes st' h \<noteq> None" if h: "h \<noteq> g" "has_handle st h" for h
      proof (cases "h = p")
        case False
        then have "has_handle ?st h" using h by (simp add: has_handle_def nodes)
        then show ?thesis using st'(4) False by blast
      next
        case True
        let ?m = "m\<lparr>cn_children := removeAll g (cn_children m)\<rparr>"
        have "length (removeAll g (cn_children m)) < length (cn_children m)"
          using m(2) by (rule length_removeAll_less)
        moreover have "length (cn_children m) < cn_strong m" using h m True by (simp add: has_handle_def is_some_and_def)
        ultimately have "nodes ?st p = Some ?m" "length (cn_children ?m) < cn_strong ?m" "cn_strong ?m \<noteq> 1"
          by (simp_all add: nodes)
        then show ?thesis using unwind_shared [OF drop(1)] st'(1) True by fastforce
      qed
      then show ?thesis unfolding unwind using st' flags by blast
    qed
  qed
qed

section \<open>Runs of the tree\<close>

text \<open>
  What the clients of the tree can do: every call is made through a handle, so its node is live,
  the allocator hands out an address that is not in use, and only an existing handle is dropped.
\<close>

inductive cancel_step :: "cancel_store \<Rightarrow> cancel_store \<Rightarrow> bool" where
  step_new: "nodes st a = None \<Longrightarrow> cancel_step st (group_new st a gate tok)"
| step_child: "nodes st g \<noteq> None \<Longrightarrow> nodes st a = None \<Longrightarrow> cancel_step st (fst (group_child st g a tok))"
| step_clone: "nodes st g \<noteq> None \<Longrightarrow> cancel_step st (arc_clone st g)"
| step_cancel: "nodes st g \<noteq> None \<Longrightarrow> group_cancel st g = Some (st', effects) \<Longrightarrow> cancel_step st st'"
| step_bind: "nodes st g \<noteq> None \<Longrightarrow> cancel_step st (snd (bind_cancel_hook st g h allocated))"
| step_drop: "has_handle st g \<Longrightarrow> arc_drop st g = Some st' \<Longrightarrow> cancel_step st st'"
| step_hook_drop: "has_handle st (hg_owner guard) \<Longrightarrow> hook_guard_drop st guard = Some st' \<Longrightarrow> cancel_step st st'"
| step_guard_drop: "has_handle st (guard_group guard) \<Longrightarrow> guard_drop st guard = Some (st', effects)
    \<Longrightarrow> cancel_step st st'"
| step_disarm: "has_handle st (guard_group guard) \<Longrightarrow> disarm st guard = Some (g, st') \<Longrightarrow> cancel_step st st'"
| step_poison: "cancel_step st (st\<lparr>gate_poisoned := (gate_poisoned st)(gate := True)\<rparr>)"

definition cancel_empty :: cancel_store where
  "cancel_empty = \<lparr>nodes = (\<lambda>_. None), live_hooks = {}, gate_poisoned = (\<lambda>_. False)\<rparr>"

definition cancel_reachable :: "cancel_store \<Rightarrow> bool" where
  "cancel_reachable = cancel_step\<^sup>*\<^sup>* cancel_empty"

lemma cancel_inv_empty: "cancel_inv cancel_empty"
  by (simp add: cancel_inv_def cancel_empty_def ranked_def kids_def)

lemma has_handle_live: "has_handle st g \<Longrightarrow> nodes st g \<noteq> None"
  by (auto simp: has_handle_def is_some_and_iff)

lemma has_handle_mark [simp]: "has_handle (mark S st) g = has_handle st g"
  by (auto simp: has_handle_def is_some_and_def split: option.splits)

lemma cancel_has_handle:
  assumes "cancel_inv st" and "nodes st g \<noteq> None" and "group_cancel st g = Some (st', effects)"
  shows "has_handle st' h = has_handle st h"
proof -
  obtain r where "ranked st r" using assms by (auto simp: cancel_inv_def)
  then have "st' = mark {h. descends st g h} st" using group_cancel_correct assms by fastforce
  then show ?thesis by simp
qed

lemma cancel_inv_arc_drop:
  assumes "cancel_inv st" and "has_handle st g" and "arc_drop st g = Some st'"
  shows "cancel_inv st'"
  using unwind_correct [OF assms(1,2)] assms(3) by (auto simp: arc_drop_unwind)

lemma cancel_inv_bind:
  assumes inv: "cancel_inv st" and "nodes st g \<noteq> None"
  shows "cancel_inv (snd (bind_cancel_hook st g h allocated))"
proof (cases "lock_if_active st g = Inr () \<and> allocated")
  case True
  obtain n where n: "nodes st g = Some n" using assms by auto
  then have active: "\<not> cn_cancelled n"
    using True by (auto simp: lock_if_active_def split: if_splits)
  have n': "nodes (arc_clone st g) g = Some (n\<lparr>cn_strong := cn_strong n + 1\<rparr>)"
    using n by (simp add: arc_clone_def)
  have "cancel_inv (upd_node (arc_clone st g) g (\<lambda>n. n\<lparr>cn_hooks := cn_hooks n @ [h]\<rparr>))"
    by (rule cancel_inv_upd [OF cancel_inv_clone [OF assms] n'])
      (use active cancel_inv_node [OF inv n] in \<open>auto simp: node_ok_def\<close>)
  then show ?thesis using True by (simp add: bind_cancel_hook_def)
next
  case False
  then show ?thesis using inv by (auto simp: bind_cancel_hook_def split: sum.splits)
qed

lemma cancel_inv_hook_drop:
  assumes inv: "cancel_inv st" and handle: "has_handle st (hg_owner guard)"
    and drop: "hook_guard_drop st guard = Some st'"
  shows "cancel_inv st'"
proof -
  let ?st = "upd_node st (hg_owner guard) (\<lambda>n. n\<lparr>cn_hooks := removeAll (hg_hook guard) (cn_hooks n)\<rparr>)"
  obtain n where n: "nodes st (hg_owner guard) = Some n" "length (cn_children n) < cn_strong n"
    using handle by (auto simp: has_handle_def is_some_and_iff)
  have "cancel_inv ?st"
    by (rule cancel_inv_upd [OF inv n(1)]) (use cancel_inv_node [OF inv n(1)] in \<open>auto simp: node_ok_def\<close>)
  moreover have "has_handle ?st (hg_owner guard)" using n by (simp add: has_handle_def is_some_and_def)
  moreover obtain st1 where "arc_drop ?st (hg_owner guard) = Some st1"
    "st' = st1\<lparr>live_hooks := live_hooks st1 - {hg_hook guard}\<rparr>"
    using drop by (auto simp: hook_guard_drop_def)
  ultimately show ?thesis using cancel_inv_arc_drop by simp
qed

lemma cancel_inv_guard_drop:
  assumes "cancel_inv st" and "has_handle st (guard_group guard)"
    and "guard_drop st guard = Some (st', effects)"
  shows "cancel_inv st'"
proof (cases "armed guard")
  case True
  then obtain st1 e1 where c: "group_cancel st (guard_group guard) = Some (st1, e1)"
    "arc_drop st1 (guard_group guard) = Some st'"
    using assms by (auto simp: guard_drop_def bind_eq_Some_conv)
  show ?thesis
    using cancel_inv_arc_drop [OF cancel_inv_cancel [OF assms(1) _ c(1)] _ c(2)]
      cancel_has_handle [OF assms(1) _ c(1)] assms has_handle_live by blast
next
  case False
  then show ?thesis using assms cancel_inv_arc_drop by (auto simp: guard_drop_def)
qed

lemma cancel_inv_disarm:
  assumes "cancel_inv st" and "has_handle st (guard_group guard)" and "disarm st guard = Some (g, st')"
  shows "cancel_inv st'"
proof -
  have "has_handle (arc_clone st (guard_group guard)) (guard_group guard)"
    using assms(2) by (auto simp: has_handle_def arc_clone_def is_some_and_def split: option.splits)
  then show ?thesis
    using assms cancel_inv_clone [OF assms(1) has_handle_live [OF assms(2)]]
      cancel_inv_guard_drop [of "arc_clone st (guard_group guard)" "guard\<lparr>armed := False\<rparr>"]
    by (auto simp: disarm_def Let_def)
qed

lemma cancel_inv_step: "cancel_step st st' \<Longrightarrow> cancel_inv st \<Longrightarrow> cancel_inv st'"
  by (induction rule: cancel_step.induct)
    (auto intro: cancel_inv_new cancel_inv_child cancel_inv_clone cancel_inv_cancel cancel_inv_bind
      cancel_inv_arc_drop cancel_inv_hook_drop cancel_inv_guard_drop cancel_inv_disarm)

lemma cancel_reachable_inv: "cancel_reachable st \<Longrightarrow> cancel_inv st"
  unfolding cancel_reachable_def
  by (induction rule: rtranclp_induct) (auto intro: cancel_inv_empty cancel_inv_step)

section \<open>Properties\<close>

text \<open>
  Two trees for the examples: a root with one child, and a root that was cancelled before its
  child was created.
\<close>

definition example_root :: cancel_store where
  "example_root = group_new cancel_empty 0 0 10"

definition example_tree :: cancel_store where
  "example_tree = fst (group_child example_root 0 1 11)"

definition example_cancelled :: cancel_store where
  "example_cancelled = fst (group_child (mark {0} example_root) 0 1 11)"

lemma example_root_nodes: "nodes example_root = [0 \<mapsto> new_state 0 10]"
  by (simp add: example_root_def group_new_def cancel_empty_def)

lemma example_root_reachable: "cancel_reachable example_root"
  unfolding cancel_reachable_def example_root_def
  by (intro r_into_rtranclp step_new) (simp add: cancel_empty_def)

lemma example_tree_reachable: "cancel_reachable example_tree"
  unfolding cancel_reachable_def example_tree_def
  by (rule rtranclp.rtrancl_into_rtrancl [OF example_root_reachable [unfolded cancel_reachable_def]])
    (rule step_child; simp add: example_root_nodes)

lemma example_root_cancel: "group_cancel example_root 0 = Some (mark {0} example_root, [Notify 10])"
proof -
  have "cancel_loop example_root [0] [] [] = Some (mark {0} example_root, [0], [])"
    by (subst cancel_loop_step [where n = "new_state 0 10"])
      (simp_all add: example_root_nodes new_state_def kids_def cancel_loop.simps)
  then show ?thesis
    by (simp add: group_cancel_def notification_of_def example_root_nodes new_state_def)
qed

lemma example_cancelled_reachable: "cancel_reachable example_cancelled"
proof -
  have "cancel_reachable (mark {0} example_root)"
    unfolding cancel_reachable_def
    by (rule rtranclp.rtrancl_into_rtrancl [OF example_root_reachable [unfolded cancel_reachable_def]])
      (rule step_cancel [OF _ example_root_cancel], simp add: example_root_nodes)
  then show ?thesis
    unfolding cancel_reachable_def example_cancelled_def
    by (rule rtranclp.rtrancl_into_rtrancl) (rule step_child; simp add: example_root_nodes)
qed

lemma example_kids: "kids example_tree 0 = [1]" "kids example_cancelled 0 = [1]"
  by (simp_all add: example_tree_def example_cancelled_def kids_def group_child_def arc_clone_def
      example_root_nodes new_state_def Let_def)

text \<open>C32. In every reachable state of the tree, all the descendants of a cancelled group are
  cancelled: a child created after the cancellation, or under a cancelled intermediate group,
  included.\<close>

theorem descendants_of_cancelled_are_cancelled:
  assumes "cancel_reachable st" and "is_cancelled st g" and "descends st g h"
  shows "is_cancelled st h"
  using cancel_inv_descends cancel_reachable_inv assms by blast

theorem descendants_of_cancelled_are_cancelled_witness:
  "cancel_reachable example_cancelled \<and> is_cancelled example_cancelled 0
     \<and> descends example_cancelled 0 1 \<and> is_cancelled example_cancelled 1"
proof -
  have "is_cancelled example_cancelled 0"
    by (simp add: is_cancelled_def example_cancelled_def group_child_def arc_clone_def
        example_root_nodes new_state_def Let_def is_some_and_def)
  moreover have "descends example_cancelled 0 1"
    by (subst descends_step) (simp add: example_kids)
  ultimately show ?thesis
    using descendants_of_cancelled_are_cancelled [OF example_cancelled_reachable]
      example_cancelled_reachable by blast
qed

text \<open>C31. \<open>cancel\<close> returns, cancels the group's live descendants and no other group, wakes the
  waiters of each of them, runs exactly the live hooks bound to them, and afterwards each of them
  refuses admission.\<close>

theorem cancel_reaches_exactly_the_subtree:
  assumes "cancel_reachable st" and "nodes st g \<noteq> None"
  shows "\<exists>st' effects. group_cancel st g = Some (st', effects)
    \<and> (\<forall>h. is_cancelled st' h = (is_cancelled st h \<or> descends st g h))
    \<and> (\<forall>tok. Notify tok \<in> set effects =
          (\<exists>h n. descends st g h \<and> nodes st h = Some n \<and> cn_notification n = tok))
    \<and> (\<forall>k. Run_hook k \<in> set effects =
          (\<exists>h n. descends st g h \<and> nodes st h = Some n \<and> k \<in> set (cn_hooks n) \<and> k \<in> live_hooks st))
    \<and> (\<forall>h. descends st g h \<longrightarrow> is_err (lock_if_active st' h))"
proof -
  have inv: "cancel_inv st" using assms cancel_reachable_inv by blast
  then obtain r where r: "ranked st r" by (auto simp: cancel_inv_def)
  have live: "nodes st h \<noteq> None" if "descends st g h" for h
    using that assms(2) kids_live unfolding descends_def by (induction rule: rtranclp_induct) auto
  obtain cs hs where c: "group_cancel st g = Some (mark {h. descends st g h} st,
      concat (map (notification_of st) cs) @ map Run_hook hs)"
    "set cs = {h. descends st g h}" "set hs = hooks_at st {h. descends st g h}"
    using group_cancel_correct [OF r assms(2)] by blast
  show ?thesis
  proof (intro exI conjI, rule c(1))
    show "\<forall>h. is_cancelled (mark {h. descends st g h} st) h = (is_cancelled st h \<or> descends st g h)"
      using live by (fastforce simp: is_cancelled_def is_some_and_iff)
  next
    show "\<forall>h. descends st g h \<longrightarrow> is_err (lock_if_active (mark {h. descends st g h} st) h)"
      using live by (fastforce simp: lock_if_active_def is_err_def split: option.splits)
  qed (use c live in \<open>force simp: hooks_at_def notification_of_def split: option.splits\<close>)+
qed

theorem cancel_reaches_exactly_the_subtree_witness:
  "cancel_reachable example_tree \<and> nodes example_tree 0 \<noteq> None \<and> \<not> is_cancelled example_tree 1
     \<and> (\<exists>st' effects. group_cancel example_tree 0 = Some (st', effects) \<and> is_cancelled st' 1
          \<and> Notify 11 \<in> set effects)"
proof -
  have tree: "nodes example_tree 0 \<noteq> None" "\<not> is_cancelled example_tree 1"
    "\<exists>n. nodes example_tree 1 = Some n \<and> cn_notification n = 11"
    by (simp_all add: example_tree_def group_child_def arc_clone_def example_root_nodes new_state_def
        Let_def is_cancelled_def is_some_and_def)
  moreover have "descends example_tree 0 1" by (subst descends_step) (simp add: example_kids)
  ultimately show ?thesis
    using cancel_reaches_exactly_the_subtree [OF example_tree_reachable tree(1)]
      example_tree_reachable by blast
qed

end
