(* ===== verification/Machine.thy ===== *)
theory Machine
  imports Prelude
begin

text \<open>
  Contracts of the components that are driven by a sequence of calls: an invariant that every call
  keeps, a value that is decided at most once, and a measure of progress that never falls. A
  component's theory proves the laws for one call on its own definitions and obtains the facts
  about whole runs by interpretation.
\<close>

locale machine =
  fixes step :: "'e \<Rightarrow> 's \<Rightarrow> 's"
    and inv :: "'s \<Rightarrow> bool"
  assumes inv_step: "inv s \<Longrightarrow> inv (step e s)"
begin

lemma inv_run: "inv s \<Longrightarrow> inv (fold step es s)"
  by (induction es arbitrary: s) (auto intro: inv_step)

lemma run_induct:
  assumes "inv s" and "P s s"
    and "\<And>t e. inv t \<Longrightarrow> P s t \<Longrightarrow> P s (step e t)"
  shows "P s (fold step es s)"
proof (induction es rule: rev_induct)
  case Nil
  then show ?case using assms(2) by simp
next
  case (snoc e es)
  then show ?case using assms(1,3) inv_run by simp
qed

end

locale latch = machine step inv for step :: "'e \<Rightarrow> 's \<Rightarrow> 's" and inv :: "'s \<Rightarrow> bool" +
  fixes decided :: "'s \<Rightarrow> 'v option"
  assumes decided_step: "inv s \<Longrightarrow> decided s = Some v \<Longrightarrow> decided (step e s) = Some v"
begin

lemma decided_run: "inv s \<Longrightarrow> decided s = Some v \<Longrightarrow> decided (fold step es s) = Some v"
  by (induction es arbitrary: s) (auto intro: inv_step decided_step)

lemma decided_agree:
  assumes "inv s" "decided (fold step es s) = Some v" "decided (fold step (es @ es') s) = Some w"
  shows "v = w"
  using decided_run [OF inv_run [OF assms(1)] assms(2), of es'] assms(3) by simp

end

locale progress = machine step inv for step :: "'e \<Rightarrow> 's \<Rightarrow> 's" and inv :: "'s \<Rightarrow> bool" +
  fixes level :: "'s \<Rightarrow> nat"
  assumes level_step: "inv s \<Longrightarrow> level s \<le> level (step e s)"
begin

lemma level_run: "inv s \<Longrightarrow> level s \<le> level (fold step es s)"
  by (induction es arbitrary: s) (auto intro: inv_step order_trans [OF level_step])

end

end
