(* ===== verification/Operation_Control.thy ===== *)
theory Operation_Control
  imports Cancel_Domain Machine
begin

text \<open>
  The state and completion authority of one send or request operation,
  \<open>src/module/ws_client/operation_control.rs\<close>. An operation's immutable configuration and its
  mutex-protected state are one record; every method is one critical section, a function from the
  record to the record. What a method reads from outside is its environment: the clock's readings,
  the cancellation tree and which tokens are cancelled. The side effects that the code runs after
  it has released its locks are a record \<open>operation_publication\<close>, and \<open>dispatch\<close> lists them in the
  order the code runs them. A poisoned mutex is a flag: \<open>lock\<close> recovers from it, the methods that
  map it to an error check it. \<open>terminate\<close>, \<open>prepare_termination\<close> and the first half of
  \<open>start_data_write\<close> call into the pending table and are in the theory \<open>Native_Pending\<close>.
\<close>

type_synonym queue_id = nat
type_synonym reservation = nat
type_synonym op_id = nat

section \<open>State\<close>

record observation =
  obs_source :: task_source
  obs_reservation :: reservation

record pending_identity =
  pi_table :: table_id
  pi_id :: request_id
  pi_token :: u64

record operation_state =
  snapshot :: operation_snapshot
  os_connection :: "connection_id option"
  response_deadline :: "instant option"
  os_observation :: "observation option"
  os_queue :: "queue_id option"
  os_pending :: "pending_identity option"
  os_retirement :: "token option"
  os_hook :: "cancel_hook_guard option"
  data_in_flight :: bool
  os_retry :: retry_state
  retry_started :: instant
  os_retry_report :: "retry_report option"
  retry_stop :: "retry_stop_reason option"
  retry_attempt_open :: bool

record operation_control =
  oc_client_id :: client_id
  oc_session_id :: session_id
  oc_id :: operation_id
  oc_lane :: message_lane
  tracked :: bool
  retry_policy :: "ws_send_retry_policy option"
  oc_deadline :: "instant option"
  deadline_phase :: ws_timeout_phase
  oc_group :: "group_id option"
  op_state :: operation_state
  op_poisoned :: bool
  cancelled_token :: token
  written_token :: token

record op_env =
  clk :: clock
  cancels :: cancel_store
  token_cancelled :: "token \<Rightarrow> bool"

definition upd_state :: "(operation_state \<Rightarrow> operation_state) \<Rightarrow> operation_control \<Rightarrow> operation_control" where
  "upd_state f self = self\<lparr>op_state := f (op_state self)\<rparr>"

definition upd_snapshot :: "(operation_snapshot \<Rightarrow> operation_snapshot) \<Rightarrow> operation_control \<Rightarrow> operation_control" where
  "upd_snapshot f = upd_state (\<lambda>s. s\<lparr>snapshot := f (snapshot s)\<rparr>)"

abbreviation op_phase :: "operation_control \<Rightarrow> operation_phase" where
  "op_phase self \<equiv> phase (snapshot (op_state self))"

abbreviation op_delivery :: "operation_control \<Rightarrow> delivery_evidence" where
  "op_delivery self \<equiv> delivery (snapshot (op_state self))"

abbreviation op_outcome :: "operation_control \<Rightarrow> (task_success, net_error) result option" where
  "op_outcome self \<equiv> op_result (snapshot (op_state self))"

section \<open>Publications\<close>

record operation_publication =
  pub_task :: "(reservation \<times> task_event) option"
  pub_cancelled :: "token option"
  pub_written :: "token option"
  pub_retirement :: "token option"
  pub_queue :: "(queue_id option \<times> token \<times> net_error) option"
  pub_hook :: "cancel_hook_guard option"
  pub_retired_error :: "net_error option"
  pub_retry :: "(observer \<times> retry_event option \<times> retry_event) option"

definition publication_default :: operation_publication where
  "publication_default = \<lparr>pub_task = None, pub_cancelled = None, pub_written = None,
     pub_retirement = None, pub_queue = None, pub_hook = None, pub_retired_error = None,
     pub_retry = None\<rparr>"

datatype op_effect =
    E_QueueCancel queue_id token net_error
  | E_DropHook cancel_hook_guard
  | E_Cancel token
  | E_Publish reservation task_event
  | E_Notify observer retry_event

definition opt_effect :: "('a \<Rightarrow> op_effect list) \<Rightarrow> 'a option \<Rightarrow> op_effect list" where
  "opt_effect f x = (case x of None \<Rightarrow> [] | Some v \<Rightarrow> f v)"

definition dispatch :: "operation_publication \<Rightarrow> op_effect list" where
  "dispatch self =
     opt_effect (\<lambda>(queue, tok, error). opt_effect (\<lambda>q. [E_QueueCancel q tok error]) queue) (pub_queue self)
     @ opt_effect (\<lambda>h. [E_DropHook h]) (pub_hook self)
     @ opt_effect (\<lambda>tok. [E_Cancel tok]) (pub_retirement self)
     @ opt_effect (\<lambda>tok. [E_Cancel tok]) (pub_cancelled self)
     @ opt_effect (\<lambda>(reserved, event). [E_Publish reserved event]) (pub_task self)
     @ opt_effect (\<lambda>tok. [E_Cancel tok]) (pub_written self)
     @ opt_effect (\<lambda>(obs, att, completed).
         opt_effect (\<lambda>a. [E_Notify obs a]) att @ [E_Notify obs completed]) (pub_retry self)"

section \<open>Construction and reads\<close>

text \<open>\<open>new\<close> is \<open>new_with_deadline_phase\<close> at \<open>Total\<close>. The seed of the retry state and the two tokens
  are chosen by their constructors.\<close>

definition new_with_deadline_phase ::
  "client_id \<Rightarrow> session_id \<Rightarrow> operation_id \<Rightarrow> send_options \<Rightarrow> bool \<Rightarrow> task_source \<Rightarrow> reservation
     \<Rightarrow> ws_timeout_phase \<Rightarrow> u64 \<Rightarrow> instant \<Rightarrow> token \<Rightarrow> token \<Rightarrow> operation_control" where
  "new_with_deadline_phase client sess i options is_tracked source reserved ph seed now ctok wtok =
     (let policy = (case so_retry_setting options of
                      Policy p \<Rightarrow> if \<not> is_tracked then Some p else None
                    | _ \<Rightarrow> None);
          sched = map_or no_retry sp_schedule policy
      in \<lparr>oc_client_id = client, oc_session_id = sess, oc_id = i, oc_lane = so_lane options,
          tracked = is_tracked, retry_policy = policy, oc_deadline = so_deadline options,
          deadline_phase = ph, oc_group = so_cancellation options,
          op_state = \<lparr>snapshot = \<lparr>phase = WaitingForCapacity, delivery = NotStarted, op_result = None\<rparr>,
            os_connection = None, response_deadline = None,
            os_observation = Some \<lparr>obs_source = source, obs_reservation = reserved\<rparr>,
            os_queue = None, os_pending = None, os_retirement = None, os_hook = None,
            data_in_flight = False, os_retry = with_seed sched seed, retry_started = now,
            os_retry_report = None, retry_stop = None, retry_attempt_open = False\<rparr>,
          op_poisoned = False, cancelled_token = ctok, written_token = wtok\<rparr>)"

definition operation_new ::
  "client_id \<Rightarrow> session_id \<Rightarrow> operation_id \<Rightarrow> send_options \<Rightarrow> bool \<Rightarrow> task_source \<Rightarrow> reservation
     \<Rightarrow> u64 \<Rightarrow> instant \<Rightarrow> token \<Rightarrow> token \<Rightarrow> operation_control" where
  "operation_new client sess i options is_tracked source reserved =
     new_with_deadline_phase client sess i options is_tracked source reserved Tp_Total"

definition set_retry_started :: "instant \<Rightarrow> operation_control \<Rightarrow> operation_control" where
  "set_retry_started started self =
     (if attempts (os_retry (op_state self)) = 0 \<and> os_retry_report (op_state self) = None
      then upd_state (\<lambda>s. s\<lparr>retry_started := started\<rparr>) self else self)"

definition op_retry_report :: "instant \<Rightarrow> operation_control \<Rightarrow> retry_report" where
  "op_retry_report now self =
     (case os_retry_report (op_state self) of
        Some r \<Rightarrow> r
      | None \<Rightarrow> report (os_retry (op_state self)) (elapsed (retry_started (op_state self)) now))"

definition raw_replay_allowed :: "operation_control \<Rightarrow> bool" where
  "raw_replay_allowed self \<longleftrightarrow> \<not> tracked self \<and> is_some_and (retry_policy self) send_allows_replay"

definition absolute_budget :: "operation_control \<Rightarrow> timeout_budget option" where
  "absolute_budget self = map_option (\<lambda>t. \<lparr>budget_at = t, budget_phase = deadline_phase self\<rparr>) (oc_deadline self)"

definition op_budget :: "operation_control \<Rightarrow> timeout_budget option" where
  "op_budget self = budget_earlier (absolute_budget self)
     (map_option (\<lambda>t. \<lparr>budget_at = t, budget_phase = Tp_Response\<rparr>) (response_deadline (op_state self)))"

definition op_deadline :: "operation_control \<Rightarrow> instant option" where
  "op_deadline self = earliest (oc_deadline self) (response_deadline (op_state self))"

definition set_response_deadline :: "instant option \<Rightarrow> operation_control \<Rightarrow> operation_control" where
  "set_response_deadline t = upd_state (\<lambda>s. s\<lparr>response_deadline := t\<rparr>)"

definition op_snapshot :: "operation_control \<Rightarrow> (operation_snapshot, net_error) result" where
  "op_snapshot self = (if op_poisoned self then Inl from_poison else Inr (snapshot (op_state self)))"

definition is_finished :: "operation_control \<Rightarrow> bool" where
  "is_finished self = is_some (op_outcome self)"

definition response_confirmed :: "operation_control \<Rightarrow> bool" where
  "response_confirmed self \<longleftrightarrow> op_delivery self = ResponseConfirmed"

definition selected_error :: "operation_control \<Rightarrow> net_error option" where
  "selected_error self =
     (case op_outcome self of Some (Inl e) \<Rightarrow> Some e | _ \<Rightarrow> None)"

section \<open>Activity\<close>

definition timeout_error_until :: "operation_control \<Rightarrow> instant option \<Rightarrow> net_error" where
  "timeout_error_until self until =
     (let ph = (case (until, response_deadline (op_state self)) of
                  (Some d, Some r) \<Rightarrow>
                    if d = r \<and> is_none_or (oc_deadline self) (\<lambda>absolute. r < absolute)
                    then Tp_Response else deadline_phase self
                | _ \<Rightarrow> deadline_phase self)
      in with_ws_timeout_phase (from_kind K_TimedOut) ph)"

definition deadline_error :: "operation_control \<Rightarrow> net_error" where
  "deadline_error self = timeout_error_until self (op_deadline self)"

definition check_active_until ::
  "op_env \<Rightarrow> instant \<Rightarrow> operation_control \<Rightarrow> instant option \<Rightarrow> (unit, net_error) result" where
  "check_active_until env now self until =
     (case op_outcome self of
        Some (Inl e) \<Rightarrow> Inl e
      | Some (Inr _) \<Rightarrow> Inl (from_kind K_Closed)
      | None \<Rightarrow>
          if is_some_and (oc_group self) (is_cancelled (cancels env))
             \<or> token_cancelled env (cancelled_token self)
          then Inl (from_kind K_Cancelled)
          else if is_some_and until (\<lambda>d. d \<le> now) then Inl (timeout_error_until self until)
          else Inr ())"

definition check_active :: "op_env \<Rightarrow> instant \<Rightarrow> operation_control \<Rightarrow> (unit, net_error) result" where
  "check_active env now self = check_active_until env now self (op_deadline self)"

text \<open>\<open>self.group.as_ref().map(|group| group.inner.lock_if_active()).transpose()\<close>.\<close>

definition lock_domain :: "op_env \<Rightarrow> operation_control \<Rightarrow> (unit, net_error) result" where
  "lock_domain env self =
     (case oc_group self of None \<Rightarrow> Inr () | Some g \<Rightarrow> lock_if_active (cancels env) g)"

section \<open>Bindings and phases\<close>

definition bind_request ::
  "op_env \<Rightarrow> table_id \<Rightarrow> request_id \<Rightarrow> u64 \<Rightarrow> operation_control
     \<Rightarrow> operation_control \<times> (unit, net_error) result" where
  "bind_request env table i tok self =
     (if op_poisoned self then (self, Inl from_poison)
      else case check_active env (clk env 0) self of
             Inl e \<Rightarrow> (self, Inl e)
           | Inr _ \<Rightarrow>
               if is_some (os_pending (op_state self)) then (self, Inl (from_kind K_Internal))
               else (upd_state (\<lambda>s. s\<lparr>os_pending := Some \<lparr>pi_table = table, pi_id = i, pi_token = tok\<rparr>\<rparr>) self,
                     Inr ()))"

definition bind_queue :: "queue_id option \<Rightarrow> operation_control \<Rightarrow> operation_control" where
  "bind_queue q = upd_state (\<lambda>s. s\<lparr>os_queue := q\<rparr>)"

text \<open>
  \<open>bind_cancellation\<close>: it returns the cancellation tree with the hook bound and the guard that the
  code drops at its end, the replaced one or, for a finished operation, the new one.
\<close>

definition bind_cancellation ::
  "cancel_store \<Rightarrow> hook_id \<Rightarrow> bool \<Rightarrow> operation_control
     \<Rightarrow> operation_control \<times> cancel_store \<times> op_effect list \<times> (unit, net_error) result" where
  "bind_cancellation st h allocated self =
     (case oc_group self of
        None \<Rightarrow> (self, st, [], Inr ())
      | Some g \<Rightarrow>
          (case bind_cancel_hook st g h allocated of
             (Inl e, st) \<Rightarrow> (self, st, [], Inl e)
           | (Inr guard, st) \<Rightarrow>
               if op_outcome self = None
               then (upd_state (\<lambda>s. s\<lparr>os_hook := Some guard\<rparr>) self, st,
                     opt_effect (\<lambda>r. [E_DropHook r]) (os_hook (op_state self)), Inr ())
               else (self, st, [E_DropHook guard], Inr ())))"

definition prepare :: "op_env \<Rightarrow> operation_control \<Rightarrow> operation_control \<times> (unit, net_error) result" where
  "prepare env self =
     (if op_poisoned self then (self, Inl from_poison)
      else case check_active env (clk env 0) self of
             Inl e \<Rightarrow> (self, Inl e)
           | Inr _ \<Rightarrow>
               if op_phase self \<noteq> WaitingForCapacity then (self, Inl (from_kind K_Internal))
               else (upd_snapshot (\<lambda>s. s\<lparr>phase := Prepared\<rparr>) self, Inr ()))"

definition enqueue :: "op_env \<Rightarrow> operation_control \<Rightarrow> operation_control \<times> (unit, net_error) result" where
  "enqueue env self =
     (if op_poisoned self then (self, Inl from_poison)
      else case check_active env (clk env 0) self of
             Inl e \<Rightarrow> (self, Inl e)
           | Inr _ \<Rightarrow>
               if op_phase self \<notin> {Prepared, WaitingForCapacity} then (self, Inl (from_kind K_InvalidInput))
               else (upd_snapshot (\<lambda>s. s\<lparr>phase := Queued\<rparr>) self, Inr ()))"

definition mark_writing :: "op_env \<Rightarrow> connection_id \<Rightarrow> operation_control \<Rightarrow> operation_control \<times> bool" where
  "mark_writing env con self =
     (if is_err (check_active env (clk env 0) self) \<or> op_phase self \<noteq> Queued then (self, False)
      else (upd_state (\<lambda>s. s\<lparr>os_connection := Some con\<rparr>) (upd_snapshot (\<lambda>s. s\<lparr>phase := Writing\<rparr>) self), True))"

section \<open>Write attempts\<close>

definition notify_observer :: "operation_control \<Rightarrow> retry_event \<Rightarrow> op_effect list" where
  "notify_observer self event =
     opt_effect (\<lambda>obs. [E_Notify obs event]) (Option.bind (retry_policy self) sp_observer)"

definition invalid_policy :: "retry_state_error \<Rightarrow> net_error" where
  "invalid_policy e = with_source K_InvalidPolicy (Src_RetryStateError e)"

definition begin_write_attempt ::
  "op_env \<Rightarrow> operation_control \<Rightarrow> operation_control \<times> op_effect list \<times> (unit, net_error) result" where
  "begin_write_attempt env self =
     (if tracked self \<or> retry_attempt_open (op_state self) \<or> is_some (op_outcome self) then (self, [], Inr ())
      else case check_active_until env (clk env 0) self (oc_deadline self) of
             Inl e \<Rightarrow> (self, [], Inl e)
           | Inr _ \<Rightarrow>
               (case begin_attempt (os_retry (op_state self)) of
                  (r, Inl e) \<Rightarrow> (upd_state (\<lambda>s. s\<lparr>os_retry := r\<rparr>) self, [], Inl (invalid_policy e))
                | (r, Inr n) \<Rightarrow>
                    (upd_state (\<lambda>s. s\<lparr>os_retry := r, retry_attempt_open := True\<rparr>) self,
                     notify_observer self (AttemptStarted n), Inr ())))"

text \<open>
  The second half of \<open>start_data_write\<close>, after the response deadline was refreshed:
  \<open>open_data_attempt\<close> accounts for a new write attempt and its dispatch, the rest is
  \<open>start_data_write_locked\<close>.
\<close>

definition open_data_attempt ::
  "operation_control \<Rightarrow> operation_control \<times> (u32 option, net_error) result" where
  "open_data_attempt self =
     (let (self, opened) =
        (if retry_attempt_open (op_state self) then (self, Inr None)
         else case begin_attempt (os_retry (op_state self)) of
                (r, Inl e) \<Rightarrow> (upd_state (\<lambda>s. s\<lparr>os_retry := r\<rparr>) self, Inl (invalid_policy e))
              | (r, Inr n) \<Rightarrow> (upd_state (\<lambda>s. s\<lparr>os_retry := r, retry_attempt_open := True\<rparr>) self, Inr (Some n)))
      in case opened of
           Inl e \<Rightarrow> (self, Inl e)
         | Inr started \<Rightarrow>
             (case record_transport_send (os_retry (op_state self)) of
                (r, Inl e) \<Rightarrow> (upd_state (\<lambda>s. s\<lparr>os_retry := r\<rparr>) self, Inl (invalid_policy e))
              | (r, Inr _) \<Rightarrow> (upd_state (\<lambda>s. s\<lparr>os_retry := r\<rparr>) self, Inr started)))"

definition confirmed_continuation :: "bool \<Rightarrow> operation_control \<Rightarrow> bool" where
  "confirmed_continuation continuation self \<longleftrightarrow>
     continuation \<and> op_delivery self = ResponseConfirmed \<and> op_outcome self = Some (Inr ResponseReceived)"

definition start_data_write_locked ::
  "op_env \<Rightarrow> bool \<Rightarrow> operation_control \<Rightarrow> operation_control \<times> op_effect list \<times> (bool, net_error) result" where
  "start_data_write_locked env continuation self =
     (if is_err (lock_domain env self) then (self, [], Inr False)
      else
        let confirmed = confirmed_continuation continuation self;
            active = confirmed \<or> (\<not> is_err (check_active_until env (clk env 0) self (oc_deadline self))
                                   \<and> op_phase self = Writing)
        in if \<not> active then (self, [], Inr False)
           else
             let (self, opened) =
               (if \<not> data_in_flight (op_state self) \<and> \<not> confirmed then open_data_attempt self
                else (self, Inr None))
             in case opened of
                  Inl e \<Rightarrow> (self, [], Inl e)
                | Inr started \<Rightarrow>
                    (upd_snapshot (\<lambda>s. if delivery s = NotStarted then s\<lparr>delivery := Delivery_Unknown\<rparr> else s)
                       (upd_state (\<lambda>s. s\<lparr>data_in_flight := True\<rparr>) self),
                     opt_effect (\<lambda>n. notify_observer self (AttemptStarted n)) started, Inr True))"

definition has_in_flight_data :: "operation_control \<Rightarrow> bool" where
  "has_in_flight_data self \<longleftrightarrow> data_in_flight (op_state self)
     \<and> op_delivery self \<noteq> ResponseConfirmed \<and> op_delivery self \<noteq> Delivery_Written"

definition bind_write_retirement :: "token \<Rightarrow> operation_control \<Rightarrow> operation_control \<times> op_effect list" where
  "bind_write_retirement tok self =
     (upd_state (\<lambda>s. s\<lparr>os_retirement := Some tok\<rparr>) self,
      if data_in_flight (op_state self) \<and> is_some_and (op_outcome self) is_err then [E_Cancel tok] else [])"

definition retire_write :: "operation_control \<Rightarrow> op_effect list" where
  "retire_write self = opt_effect (\<lambda>tok. [E_Cancel tok]) (os_retirement (op_state self))"

definition op_requeue :: "op_env \<Rightarrow> operation_control \<Rightarrow> operation_control \<times> bool" where
  "op_requeue env self =
     (if is_err (check_active env (clk env 0) self) \<or> op_phase self \<noteq> Writing then (self, False)
      else (upd_state (\<lambda>s. s\<lparr>data_in_flight := False, os_retirement := None\<rparr>)
              (upd_snapshot (\<lambda>s. s\<lparr>phase := Queued\<rparr>) self), True))"

section \<open>Terminal selection\<close>

definition stop_for :: "op_env \<Rightarrow> operation_control \<Rightarrow> task_end_cause \<Rightarrow> retry_stop_reason" where
  "stop_for env self cause =
     (case cause of
        Cause_Completed \<Rightarrow> Completed
      | Cause_Cancelled \<Rightarrow> Cancelled
      | Cause_Expired \<Rightarrow>
          if is_some_and (oc_deadline self) (\<lambda>d. d \<le> clk env 1) then TimedOut
          else map_or TimedOut (\<lambda>s. s) (retry_stop (op_state self))
      | Cause_Shutdown \<Rightarrow> Shutdown
      | _ \<Rightarrow> map_or NotRetryable (\<lambda>s. s) (retry_stop (op_state self)))"

definition finish_locked ::
  "op_env \<Rightarrow> operation_control \<Rightarrow> (task_success, net_error) result \<Rightarrow> task_end_cause
     \<Rightarrow> operation_publication \<Rightarrow> operation_control \<times> operation_publication" where
  "finish_locked env self result cause pub =
     (let s = op_state self;
          ph = phase (snapshot s);
          retry = fst (finish (os_retry s) (stop_for env self cause));
          rep = report retry (elapsed (retry_started s) (clk env 2));
          result = map_err (\<lambda>e. with_retry_report e rep) result;
          obs = Option.bind (retry_policy self) sp_observer;
          pub = (case obs of
                   None \<Rightarrow> pub
                 | Some v \<Rightarrow> pub\<lparr>pub_retry := Some (v,
                     (if retry_attempt_open s then Some (AttemptFinished (rep_attempts rep) True) else None),
                     Event_Completed rep)\<rparr>);
          attempt_open = (if is_some obs then False else retry_attempt_open s);
          pub = (case os_observation s of
                   None \<Rightarrow> pub
                 | Some ob \<Rightarrow> pub\<lparr>pub_task := Some (obs_reservation ob,
                     \<lparr>te_client_id = oc_client_id self, te_session_id = oc_session_id self,
                      te_operation_id = oc_id self, te_connection_id = os_connection s,
                      te_source = obs_source ob, te_lane = oc_lane self, te_phase = ph,
                      te_delivery = delivery (snapshot s), te_cause = cause, te_result = result\<rparr>)\<rparr>);
          pub = pub\<lparr>pub_hook := os_hook s\<rparr>
      in (self\<lparr>op_state := s\<lparr>os_retry := retry, retry_attempt_open := attempt_open,
            os_retry_report := Some rep,
            snapshot := (snapshot s)\<lparr>op_result := Some result, phase := Finished\<rparr>,
            os_observation := None, os_hook := None\<rparr>\<rparr>, pub))"

definition stage_of_phase :: "operation_phase \<Rightarrow> error_stage" where
  "stage_of_phase ph =
     (case ph of
        WaitingForCapacity \<Rightarrow> St_Admission
      | Prepared \<Rightarrow> St_Queue
      | Queued \<Rightarrow> St_Queue
      | Writing \<Rightarrow> St_Write
      | AwaitingResponse \<Rightarrow> St_Response
      | Finished \<Rightarrow> St_Dispatch)"

definition failure_context :: "operation_control \<Rightarrow> error_context \<Rightarrow> error_context" where
  "failure_context self ctx =
     (let ctx = ctx\<lparr>ec_client_id := Some (oc_client_id self), ec_session_id := Some (oc_session_id self),
                    ec_connection_id := or_option (os_connection (op_state self)) (ec_connection_id ctx)\<rparr>;
          ctx = (case os_pending (op_state self) of
                   None \<Rightarrow> ctx | Some identity \<Rightarrow> ctx\<lparr>ec_request_id := Some (pi_id identity)\<rparr>)
      in if stage ctx = None then ctx\<lparr>stage := Some (stage_of_phase (op_phase self))\<rparr> else ctx)"

definition failure_error :: "operation_control \<Rightarrow> net_error \<Rightarrow> net_error" where
  "failure_error self e =
     (let e = with_context e (failure_context self (err_context e))
      in if op_delivery self = Delivery_Unknown \<and> kind e \<noteq> K_DeliveryUnknown
         then with_context (with_source K_DeliveryUnknown (Src_NetError e)) (err_context e)
         else e)"

definition outcome_of :: "delivery_evidence \<Rightarrow> termination_outcome" where
  "outcome_of d =
     (case d of
        NotStarted \<Rightarrow> TerminatedBeforeWrite
      | Delivery_Unknown \<Rightarrow> Outcome_DeliveryUnknown
      | Delivery_Written \<Rightarrow> TerminatedAfterWrite
      | ResponseConfirmed \<Rightarrow> TerminatedAfterWrite)"

definition select_failure_locked ::
  "op_env \<Rightarrow> operation_control \<Rightarrow> net_error \<Rightarrow> task_end_cause \<Rightarrow> operation_publication
     \<Rightarrow> operation_control \<times> termination_outcome \<times> operation_publication" where
  "select_failure_locked env self e cause pub =
     (if is_some (op_outcome self) then (self, AlreadyFinished, pub)
      else
        let outcome = outcome_of (op_delivery self);
            e = failure_error self e;
            pub = (if data_in_flight (op_state self)
                   then pub\<lparr>pub_retirement := os_retirement (op_state self)\<rparr> else pub);
            pub = pub\<lparr>pub_cancelled := Some (cancelled_token self),
                      pub_queue := Some (os_queue (op_state self), cancelled_token self, e),
                      pub_written := Some (written_token self)\<rparr>;
            (self, pub) = finish_locked env self (Inl e) cause pub
        in (self, outcome, pub))"

definition select_failure ::
  "op_env \<Rightarrow> operation_control \<Rightarrow> net_error \<Rightarrow> task_end_cause
     \<Rightarrow> operation_control \<times> termination_outcome \<times> operation_publication" where
  "select_failure env self e cause =
     select_failure_locked env self e cause (publication_default\<lparr>pub_retired_error := Some e\<rparr>)"

definition select_written ::
  "op_env \<Rightarrow> operation_control \<Rightarrow> operation_control \<times> bool \<times> operation_publication" where
  "select_written env self =
     (case lock_domain env self of
        Inl e \<Rightarrow> (let (self, _, pub) = select_failure env self e Cause_Cancelled in (self, False, pub))
      | Inr _ \<Rightarrow>
          if is_some (op_outcome self)
          then (self, op_delivery self = ResponseConfirmed, publication_default)
          else (case check_active env (clk env 0) self of
                  Inl e \<Rightarrow> (let (self, _, pub) = select_failure env self e Cause_Expired in (self, False, pub))
                | Inr _ \<Rightarrow>
                    let self = upd_state (\<lambda>s. s\<lparr>data_in_flight := False\<rparr>)
                                 (upd_snapshot (\<lambda>s. s\<lparr>delivery := Delivery_Written\<rparr>) self);
                        pub = publication_default\<lparr>pub_written := Some (written_token self)\<rparr>
                    in if tracked self then (upd_snapshot (\<lambda>s. s\<lparr>phase := AwaitingResponse\<rparr>) self, True, pub)
                       else let (self, pub) = finish_locked env self (Inr Success_Written) Cause_Completed pub
                            in (self, True, pub)))"

definition select_response ::
  "op_env \<Rightarrow> operation_control \<Rightarrow> operation_control \<times> bool \<times> operation_publication" where
  "select_response env self =
     (case lock_domain env self of
        Inl e \<Rightarrow> (let (self, _, pub) = select_failure env self e Cause_Cancelled in (self, False, pub))
      | Inr _ \<Rightarrow>
          if is_some (op_outcome self) then (self, False, publication_default)
          else (case check_active env (clk env 0) self of
                  Inl e \<Rightarrow> (let (self, _, pub) = select_failure env self e Cause_Expired in (self, False, pub))
                | Inr _ \<Rightarrow>
                    let self = upd_state (\<lambda>s. s\<lparr>data_in_flight := False\<rparr>)
                                 (upd_snapshot (\<lambda>s. s\<lparr>delivery := ResponseConfirmed\<rparr>) self);
                        (self, pub) = finish_locked env self (Inr ResponseReceived) Cause_Completed
                                        (publication_default\<lparr>pub_written := Some (written_token self)\<rparr>)
                    in (self, True, pub)))"

text \<open>\<open>written\<close>, once its token is cancelled.\<close>

definition op_written :: "operation_control \<Rightarrow> (write_outcome, net_error) result" where
  "op_written self =
     (if op_poisoned self then Inl from_poison
      else case op_delivery self of
             ResponseConfirmed \<Rightarrow> Inr Write_ResponseConfirmed
           | Delivery_Written \<Rightarrow> Inr Write_Written
           | _ \<Rightarrow> Inl (map_or (from_kind K_Internal) (\<lambda>e. e) (selected_error self)))"

section \<open>Raw retries\<close>

text \<open>
  \<open>raw_retry_after\<close> takes the operation's lock up to four times and runs the user's classifier and
  observers between them. \<open>raw_retry_first\<close> and \<open>raw_retry_second\<close> are its two critical sections that
  write; \<open>others n\<close> is what other threads did to the operation before its n-th re-locking.
\<close>

definition raw_retry_first ::
  "op_env \<Rightarrow> net_error \<Rightarrow> operation_control
     \<Rightarrow> operation_control \<times> ((ws_send_retry_policy \<times> retry_context) option, net_error) result" where
  "raw_retry_first env e self =
     (case check_active env (clk env 0) self of
        Inl err \<Rightarrow> (self, Inl err)
      | Inr _ \<Rightarrow>
          if tracked self \<or> attempts (os_retry (op_state self)) = 0 then (self, Inr None)
          else case retry_policy self of
                 None \<Rightarrow> (upd_state (\<lambda>s. s\<lparr>retry_stop := Some Disabled\<rparr>) self, Inr None)
               | Some policy \<Rightarrow>
                   if terminal_error e
                   then (upd_state (\<lambda>s. s\<lparr>retry_stop := Some NotRetryable\<rparr>) self, Inr None)
                   else (self, Inr (Some (policy,
                          context_of (os_retry (op_state self)) (elapsed (retry_started (op_state self)) (clk env 1))
                            (map_option (\<lambda>d. saturating_duration_since d (clk env 2)) (oc_deadline self))))))"

definition retry_stop_for ::
  "ws_send_retry_policy \<Rightarrow> net_error \<Rightarrow> retry_state \<Rightarrow> (retry_decision, net_error) result
     \<Rightarrow> retry_stop_reason option" where
  "retry_stop_for policy e r decision =
     (let rest = (if \<not> can_retry r then Some Stop_AttemptsExhausted
                  else if \<not> send_allows_replay policy then Some UnsafeToReplay
                  else None)
      in case decision of
           Inl _ \<Rightarrow> Some PolicyFailed
         | Inr Decision_Stop \<Rightarrow> Some ClassifierStopped
         | Inr Decision_Default \<Rightarrow> if \<not> send_should_retry_error policy e then Some NotRetryable else rest
         | Inr Decision_Retry \<Rightarrow> rest)"

definition raw_retry_second ::
  "libm \<Rightarrow> op_env \<Rightarrow> ws_send_retry_policy \<Rightarrow> net_error \<Rightarrow> (retry_decision, net_error) result
     \<Rightarrow> operation_control \<Rightarrow> operation_control \<times> ((duration option \<times> u32 \<times> bool) option, net_error) result" where
  "raw_retry_second m env policy e decision self =
     (case check_active env (clk env 0) self of
        Inl err \<Rightarrow> (self, Inl err)
      | Inr _ \<Rightarrow>
          (case retry_stop_for policy e (os_retry (op_state self)) decision of
             Some stop \<Rightarrow> (upd_state (\<lambda>s. s\<lparr>retry_stop := Some stop\<rparr>) self, Inr None)
           | None \<Rightarrow>
               (case next_delay m (\<lambda>n. clk env (Suc n)) (os_retry (op_state self)) of
                  (r, Inl err) \<Rightarrow> (upd_state (\<lambda>s. s\<lparr>os_retry := r\<rparr>) self, Inl (invalid_policy err))
                | (r, Inr delay) \<Rightarrow>
                    (upd_state (\<lambda>s. s\<lparr>os_retry := r, retry_attempt_open := False\<rparr>) self,
                     Inr (Some (delay, attempts r, retry_attempt_open (op_state self)))))))"

definition raw_retry_after ::
  "libm \<Rightarrow> (nat \<Rightarrow> op_env) \<Rightarrow> (nat \<Rightarrow> operation_control \<Rightarrow> operation_control) \<Rightarrow> net_error
     \<Rightarrow> operation_control \<Rightarrow> operation_control \<times> op_effect list \<times> (duration option, net_error) result" where
  "raw_retry_after m env others e self =
     (case raw_retry_first (env 0) e self of
        (self, Inl err) \<Rightarrow> (self, [], Inl err)
      | (self, Inr None) \<Rightarrow> (self, [], Inr None)
      | (self, Inr (Some (policy, ctx))) \<Rightarrow>
          (case raw_retry_second m (env 1) policy e (send_classify policy e ctx) (others 0 self) of
             (self, Inl err) \<Rightarrow> (self, [], Inl err)
           | (self, Inr None) \<Rightarrow> (self, [], Inr None)
           | (self, Inr (Some (delay, att, notify_attempt))) \<Rightarrow>
               (case (sp_observer policy, delay) of
                  (Some obs, Some d) \<Rightarrow>
                    let first = (if notify_attempt then [E_Notify obs (AttemptFinished att False)] else []);
                        self = others 1 self
                    in (case check_active (env 2) (clk (env 2) 0) self of
                          Inl err \<Rightarrow> (self, first, Inl err)
                        | Inr _ \<Rightarrow>
                            let effects = first @ [E_Notify obs (RetryScheduled att d)];
                                self = others 2 self
                            in (case check_active (env 3) (clk (env 3) 0) self of
                                  Inl err \<Rightarrow> (self, effects, Inl err)
                                | Inr _ \<Rightarrow> (self, effects, Inr (Some d))))
                | _ \<Rightarrow> (self, [], Inr delay))))"

section \<open>Runs\<close>

text \<open>
  The critical sections as events. Every reader and writer of an operation works through them, so
  a concurrent history of an operation is a list of events.
\<close>

datatype op_event =
    Ev_SetRetryStarted instant
  | Ev_SetResponseDeadline "instant option"
  | Ev_BindRequest op_env table_id request_id u64
  | Ev_BindQueue "queue_id option"
  | Ev_BindCancellation cancel_store hook_id bool
  | Ev_Prepare op_env
  | Ev_Enqueue op_env
  | Ev_MarkWriting op_env connection_id
  | Ev_BeginWriteAttempt op_env
  | Ev_StartDataWrite op_env bool
  | Ev_BindWriteRetirement token
  | Ev_Requeue op_env
  | Ev_SelectWritten op_env
  | Ev_SelectResponse op_env
  | Ev_SelectFailure op_env net_error task_end_cause
  | Ev_RetryFirst op_env net_error
  | Ev_RetrySecond libm op_env ws_send_retry_policy net_error "(retry_decision, net_error) result"

fun op_step :: "op_event \<Rightarrow> operation_control \<Rightarrow> operation_control \<times> op_effect list" where
  "op_step (Ev_SetRetryStarted t) self = (set_retry_started t self, [])"
| "op_step (Ev_SetResponseDeadline d) self = (set_response_deadline d self, [])"
| "op_step (Ev_BindRequest env table i tok) self = (fst (bind_request env table i tok self), [])"
| "op_step (Ev_BindQueue q) self = (bind_queue q self, [])"
| "op_step (Ev_BindCancellation st h allocated) self =
     (let (self, _, effects, _) = bind_cancellation st h allocated self in (self, effects))"
| "op_step (Ev_Prepare env) self = (fst (prepare env self), [])"
| "op_step (Ev_Enqueue env) self = (fst (enqueue env self), [])"
| "op_step (Ev_MarkWriting env con) self = (fst (mark_writing env con self), [])"
| "op_step (Ev_BeginWriteAttempt env) self =
     (let (self, effects, _) = begin_write_attempt env self in (self, effects))"
| "op_step (Ev_StartDataWrite env continuation) self =
     (let (self, effects, _) = start_data_write_locked env continuation self in (self, effects))"
| "op_step (Ev_BindWriteRetirement tok) self = bind_write_retirement tok self"
| "op_step (Ev_Requeue env) self = (fst (op_requeue env self), [])"
| "op_step (Ev_SelectWritten env) self =
     (let (self, _, pub) = select_written env self in (self, dispatch pub))"
| "op_step (Ev_SelectResponse env) self =
     (let (self, _, pub) = select_response env self in (self, dispatch pub))"
| "op_step (Ev_SelectFailure env e cause) self =
     (let (self, _, pub) = select_failure env self e cause in (self, dispatch pub))"
| "op_step (Ev_RetryFirst env e) self = (fst (raw_retry_first env e self), [])"
| "op_step (Ev_RetrySecond m env policy e decision) self =
     (fst (raw_retry_second m env policy e decision self), [])"

fun op_run :: "op_event list \<Rightarrow> operation_control \<Rightarrow> operation_control \<times> op_effect list" where
  "op_run [] self = (self, [])"
| "op_run (ev # evs) self =
     (let (self, e1) = op_step ev self; (self, e2) = op_run evs self in (self, e1 @ e2))"

section \<open>Frame rules\<close>

lemma upd_state_simps [simp]:
  "op_state (upd_state f self) = f (op_state self)"
  "oc_client_id (upd_state f self) = oc_client_id self" "oc_session_id (upd_state f self) = oc_session_id self"
  "oc_id (upd_state f self) = oc_id self" "oc_lane (upd_state f self) = oc_lane self"
  "tracked (upd_state f self) = tracked self" "retry_policy (upd_state f self) = retry_policy self"
  "oc_deadline (upd_state f self) = oc_deadline self" "deadline_phase (upd_state f self) = deadline_phase self"
  "oc_group (upd_state f self) = oc_group self" "op_poisoned (upd_state f self) = op_poisoned self"
  "cancelled_token (upd_state f self) = cancelled_token self" "written_token (upd_state f self) = written_token self"
  by (simp_all add: upd_state_def)

lemma upd_snapshot_simps [simp]:
  "op_state (upd_snapshot f self) = (op_state self)\<lparr>snapshot := f (snapshot (op_state self))\<rparr>"
  "oc_client_id (upd_snapshot f self) = oc_client_id self" "oc_session_id (upd_snapshot f self) = oc_session_id self"
  "oc_id (upd_snapshot f self) = oc_id self" "oc_lane (upd_snapshot f self) = oc_lane self"
  "tracked (upd_snapshot f self) = tracked self" "retry_policy (upd_snapshot f self) = retry_policy self"
  "oc_deadline (upd_snapshot f self) = oc_deadline self" "deadline_phase (upd_snapshot f self) = deadline_phase self"
  "oc_group (upd_snapshot f self) = oc_group self" "op_poisoned (upd_snapshot f self) = op_poisoned self"
  "cancelled_token (upd_snapshot f self) = cancelled_token self"
  "written_token (upd_snapshot f self) = written_token self"
  by (simp_all add: upd_snapshot_def)

lemma opt_effect_simps [simp]: "opt_effect f None = []" "opt_effect f (Some x) = f x"
  by (simp_all add: opt_effect_def)

text \<open>The events published by a list of effects.\<close>

definition published :: "op_effect list \<Rightarrow> (reservation \<times> task_event) list" where
  "published effects = concat (map (\<lambda>e. case e of E_Publish r ev \<Rightarrow> [(r, ev)] | _ \<Rightarrow> []) effects)"

lemma published_simps [simp]:
  "published [] = []" "published (xs @ ys) = published xs @ published ys"
  "published (E_Publish r ev # xs) = (r, ev) # published xs"
  "published (E_Notify v w # xs) = published xs" "published (E_Cancel tok # xs) = published xs"
  "published (E_DropHook h # xs) = published xs" "published (E_QueueCancel q tok e # xs) = published xs"
  by (simp_all add: published_def)

lemma published_notify [simp]: "published (notify_observer self ev) = []"
  by (cases "Option.bind (retry_policy self) sp_observer") (simp_all add: notify_observer_def)

lemma published_dispatch: "published (dispatch pub) = (case pub_task pub of None \<Rightarrow> [] | Some x \<Rightarrow> [x])"
  by (cases "pub_queue pub"; cases "pub_hook pub"; cases "pub_retirement pub"; cases "pub_cancelled pub";
      cases "pub_written pub"; cases "pub_retry pub"; cases "pub_task pub")
    (auto simp: dispatch_def opt_effect_def split: option.splits)

lemma publication_default_simps [simp]:
  "pub_task publication_default = None" "dispatch publication_default = []"
  by (simp_all add: publication_default_def dispatch_def)

text \<open>Nothing but a selection touches a snapshot whose result is set; a settled operation is not
  active.\<close>

lemma check_active_settled: "op_outcome self \<noteq> None \<Longrightarrow> is_err (check_active_until env now self d)"
  by (auto simp: check_active_until_def is_err_def split: option.splits sum.splits)

lemma check_active_Inr: "check_active env now self = Inr u \<Longrightarrow> op_outcome self = None"
  by (auto simp: check_active_def check_active_until_def split: option.splits sum.splits if_splits)

lemma check_active_not_err: "\<not> is_err (check_active_until env now self d) \<Longrightarrow> op_outcome self = None"
  using check_active_settled by blast

section \<open>The invariant\<close>

text \<open>
  A result, the phase \<open>Finished\<close>, the retry report and the terminal retry reason come together, and
  the task observation and the cancellation hook leave with them; the result agrees with the
  delivery evidence; data in flight has been accounted for.
\<close>

definition result_ok :: "operation_control \<Rightarrow> bool" where
  "result_ok self =
     (case op_outcome self of
        None \<Rightarrow> op_delivery self \<noteq> ResponseConfirmed
      | Some (Inr Success_Written) \<Rightarrow> \<not> tracked self \<and> op_delivery self = Delivery_Written
      | Some (Inr ResponseReceived) \<Rightarrow> op_delivery self = ResponseConfirmed
      | Some (Inl e) \<Rightarrow> op_delivery self \<noteq> ResponseConfirmed
          \<and> (op_delivery self = Delivery_Unknown \<longrightarrow> kind e = K_DeliveryUnknown)
          \<and> retry_report_of e = os_retry_report (op_state self))"

definition op_inv :: "operation_control \<Rightarrow> bool" where
  "op_inv self \<longleftrightarrow>
     (op_phase self = Finished \<longleftrightarrow> op_outcome self \<noteq> None)
   \<and> (os_observation (op_state self) = None \<longleftrightarrow> op_outcome self \<noteq> None)
   \<and> (os_retry_report (op_state self) = None \<longleftrightarrow> op_outcome self = None)
   \<and> (stop_reason (os_retry (op_state self)) = None \<longleftrightarrow> op_outcome self = None)
   \<and> (op_outcome self \<noteq> None \<longrightarrow> os_hook (op_state self) = None)
   \<and> (op_delivery self = Delivery_Written \<and> op_outcome self = None
        \<longrightarrow> tracked self \<and> op_phase self = AwaitingResponse)
   \<and> (data_in_flight (op_state self) \<longrightarrow> op_delivery self \<noteq> NotStarted)
   \<and> result_ok self"

fun delivery_rank :: "delivery_evidence \<Rightarrow> nat" where
  "delivery_rank NotStarted = 0"
| "delivery_rank Delivery_Unknown = 1"
| "delivery_rank Delivery_Written = 2"
| "delivery_rank ResponseConfirmed = 3"

text \<open>The terminal event that a settling step publishes.\<close>

definition terminal_event :: "operation_control \<Rightarrow> operation_control \<Rightarrow> reservation \<times> task_event \<Rightarrow> bool" where
  "terminal_event self self' p \<longleftrightarrow>
     map_option obs_reservation (os_observation (op_state self)) = Some (fst p)
   \<and> op_outcome self' = Some (te_result (snd p))
   \<and> te_delivery (snd p) = op_delivery self'
   \<and> te_operation_id (snd p) = oc_id self"

definition same_config :: "operation_control \<Rightarrow> operation_control \<Rightarrow> bool" where
  "same_config self self' \<longleftrightarrow>
     oc_id self' = oc_id self \<and> tracked self' = tracked self \<and> oc_session_id self' = oc_session_id self
   \<and> retry_policy self' = retry_policy self \<and> oc_deadline self' = oc_deadline self
   \<and> oc_group self' = oc_group self \<and> cancelled_token self' = cancelled_token self
   \<and> deadline_phase self' = deadline_phase self"

definition op_progress :: "operation_control \<Rightarrow> operation_control \<Rightarrow> (reservation \<times> task_event) list \<Rightarrow> bool" where
  "op_progress self self' events \<longleftrightarrow>
     op_inv self' \<and> same_config self self'
   \<and> delivery_rank (op_delivery self) \<le> delivery_rank (op_delivery self')
   \<and> (op_outcome self \<noteq> None \<longrightarrow> snapshot (op_state self') = snapshot (op_state self))
   \<and> (if op_outcome self = None \<and> op_outcome self' \<noteq> None
      then \<exists>p. events = [p] \<and> terminal_event self self' p
      else events = [] \<and> map_option obs_reservation (os_observation (op_state self'))
             = map_option obs_reservation (os_observation (op_state self)))"

lemma op_progress_refl: "op_inv self \<Longrightarrow> op_progress self self []"
  by (auto simp: op_progress_def same_config_def)

text \<open>A step that keeps the snapshot's result and delivery and the terminal bookkeeping.\<close>

definition op_quiet :: "operation_control \<Rightarrow> operation_control \<Rightarrow> bool" where
  "op_quiet self self' \<longleftrightarrow>
     same_config self self' \<and> op_outcome self' = op_outcome self \<and> op_delivery self' = op_delivery self
   \<and> (op_phase self' = op_phase self
      \<or> op_outcome self = None \<and> op_phase self' \<noteq> Finished \<and> op_phase self \<noteq> AwaitingResponse)
   \<and> os_observation (op_state self') = os_observation (op_state self)
   \<and> os_retry_report (op_state self') = os_retry_report (op_state self)
   \<and> stop_reason (os_retry (op_state self')) = stop_reason (os_retry (op_state self))
   \<and> (os_hook (op_state self') = os_hook (op_state self) \<or> op_outcome self = None)
   \<and> (data_in_flight (op_state self') \<longrightarrow> data_in_flight (op_state self) \<or> op_delivery self \<noteq> NotStarted)"

lemma op_progress_quiet:
  assumes inv: "op_inv self" and quiet: "op_quiet self self'"
  shows "op_progress self self' []"
proof -
  have "result_ok self' = result_ok self"
    using quiet unfolding op_quiet_def result_ok_def same_config_def by presburger
  moreover have "op_outcome self \<noteq> None \<longrightarrow> snapshot (op_state self') = snapshot (op_state self)"
    using quiet unfolding op_quiet_def
    by (auto intro: operation_snapshot.equality)
  moreover have "op_phase self' = Finished \<longleftrightarrow> op_outcome self \<noteq> None"
    "op_delivery self = Delivery_Written \<and> op_outcome self = None \<longrightarrow> tracked self \<and> op_phase self' = AwaitingResponse"
    using inv quiet unfolding op_inv_def op_quiet_def by metis+
  moreover from calculation have "op_inv self'"
    using inv quiet unfolding op_inv_def op_quiet_def same_config_def by metis
  ultimately show ?thesis
    using quiet unfolding op_progress_def op_quiet_def by auto
qed

section \<open>Settling\<close>

lemma finish_locked_state:
  "finish_locked env self result cause pub = (self', pub') \<Longrightarrow>
     \<exists>rep. snapshot (op_state self') = (snapshot (op_state self))
       \<lparr>op_result := Some (map_err (\<lambda>e. with_retry_report e rep) result), phase := Finished\<rparr>
     \<and> os_observation (op_state self') = None \<and> os_hook (op_state self') = None
     \<and> os_retry_report (op_state self') = Some rep
     \<and> data_in_flight (op_state self') = data_in_flight (op_state self)
     \<and> os_pending (op_state self') = os_pending (op_state self)
     \<and> stop_reason (os_retry (op_state self')) \<noteq> None \<and> same_config self self'"
  by (auto simp: finish_locked_def Let_def finish_def is_some_def same_config_def split: option.splits)

lemma finish_locked_task:
  "finish_locked env self result cause pub = (self', pub') \<Longrightarrow> os_observation (op_state self) \<noteq> None \<Longrightarrow>
     \<exists>p. pub_task pub' = Some p \<and> terminal_event self self' p"
  by (auto simp: finish_locked_def Let_def terminal_event_def split: option.splits)

lemma finish_progress:
  assumes inv: "op_inv self0" and open0: "op_outcome self0 = None"
    and pre: "same_config self0 self" "os_observation (op_state self) = os_observation (op_state self0)"
      "op_outcome self = None" "delivery_rank (op_delivery self0) \<le> delivery_rank (op_delivery self)"
      "data_in_flight (op_state self) \<longrightarrow> op_delivery self \<noteq> NotStarted"
    and fin: "finish_locked env self result cause pub = (self', pub')"
    and ok: "case result of
        Inr Success_Written \<Rightarrow> \<not> tracked self0 \<and> op_delivery self = Delivery_Written
      | Inr ResponseReceived \<Rightarrow> op_delivery self = ResponseConfirmed
      | Inl e \<Rightarrow> op_delivery self \<noteq> ResponseConfirmed
          \<and> (op_delivery self = Delivery_Unknown \<longrightarrow> kind e = K_DeliveryUnknown)"
  shows "op_progress self0 self' (published (dispatch pub'))"
proof -
  obtain rep where st: "snapshot (op_state self') = (snapshot (op_state self))
       \<lparr>op_result := Some (map_err (\<lambda>e. with_retry_report e rep) result), phase := Finished\<rparr>"
     "os_observation (op_state self') = None" "os_hook (op_state self') = None"
     "os_retry_report (op_state self') = Some rep"
     "data_in_flight (op_state self') = data_in_flight (op_state self)"
     "stop_reason (os_retry (op_state self')) \<noteq> None" "same_config self self'"
    using finish_locked_state [OF fin] by blast
  have obs: "os_observation (op_state self) \<noteq> None" using inv open0 pre by (simp add: op_inv_def)
  obtain p where p: "pub_task pub' = Some p" "terminal_event self self' p"
    using finish_locked_task [OF fin obs] by blast
  have cfg: "same_config self0 self'" using pre(1) st(7) by (auto simp: same_config_def)
  have "result_ok self'"
    using ok st cfg by (cases result) (auto simp: result_ok_def same_config_def split: task_success.splits)
  then have "op_inv self'" using st pre by (simp add: op_inv_def)
  moreover have "terminal_event self0 self' p"
    using p(2) pre by (simp add: terminal_event_def same_config_def)
  ultimately show ?thesis
    using st pre open0 cfg p(1) by (auto simp: op_progress_def published_dispatch)
qed

lemma select_failure_progress:
  assumes inv: "op_inv self" and sel: "select_failure env self e cause = (self', outcome, pub)"
  shows "op_progress self self' (published (dispatch pub))"
proof (cases "op_outcome self")
  case (Some r)
  then have "self' = self" "pub_task pub = None"
    using sel by (auto simp: select_failure_def select_failure_locked_def is_some_def publication_default_def)
  then show ?thesis using inv by (simp add: op_progress_refl published_dispatch)
next
  case None
  obtain pub0 where "finish_locked env self (Inl (failure_error self e)) cause pub0 = (self', pub)"
    using sel None by (auto simp: select_failure_def select_failure_locked_def is_some_def Let_def split: prod.splits)
  then show ?thesis
    by (rule finish_progress [OF inv None, rotated -2])
      (use inv None in \<open>auto simp: same_config_def op_inv_def result_ok_def failure_error_def Let_def\<close>)
qed

lemma select_failure_settles:
  "select_failure env self e cause = (self', outcome, pub) \<Longrightarrow> op_outcome self' \<noteq> None"
  by (auto simp: select_failure_def select_failure_locked_def is_some_def finish_locked_def Let_def
      split: option.splits if_splits prod.splits)

lemma select_written_progress:
  assumes inv: "op_inv self" and sel: "select_written env self = (self', won, pub)"
  shows "op_progress self self' (published (dispatch pub))"
proof (cases "is_err (lock_domain env self) \<or> op_outcome self = None \<and> is_err (check_active env (clk env 0) self)")
  case True
  then obtain e cause outcome where "select_failure env self e cause = (self', outcome, pub)"
    using sel by (auto simp: select_written_def is_err_def is_some_def split: sum.splits option.splits prod.splits if_splits)
  then show ?thesis by (rule select_failure_progress [OF inv])
next
  case False
  then have dom: "lock_domain env self = Inr ()" by (auto simp: is_err_def split: sum.splits)
  show ?thesis
  proof (cases "op_outcome self")
    case (Some r)
    then show ?thesis using sel dom inv by (auto simp: select_written_def is_some_def op_progress_refl)
  next
    case None
    let ?s = "upd_state (\<lambda>s. s\<lparr>data_in_flight := False\<rparr>) (upd_snapshot (\<lambda>s. s\<lparr>delivery := Delivery_Written\<rparr>) self)"
    have act: "check_active env (clk env 0) self = Inr ()" using False None by (auto simp: is_err_def split: sum.splits)
    have rank: "delivery_rank (op_delivery self) \<le> 2"
      using inv None by (cases "op_delivery self") (auto simp: op_inv_def result_ok_def)
    show ?thesis
    proof (cases "tracked self")
      case True
      then have "self' = upd_snapshot (\<lambda>s. s\<lparr>phase := AwaitingResponse\<rparr>) ?s" "pub_task pub = None"
        using sel dom act None by (auto simp: select_written_def is_some_def Let_def publication_default_def)
      then show ?thesis
        using inv None rank True
        by (simp add: op_progress_def op_inv_def same_config_def result_ok_def published_dispatch)
    next
      case False
      then have "finish_locked env ?s (Inr Success_Written) Cause_Completed
          (publication_default\<lparr>pub_written := Some (written_token ?s)\<rparr>) = (self', pub)"
        using sel dom act None by (auto simp: select_written_def is_some_def Let_def split: prod.splits)
      then show ?thesis
        by (rule finish_progress [OF inv None, rotated -2])
          (use None rank False in \<open>auto simp: same_config_def\<close>)
    qed
  qed
qed

lemma select_response_progress:
  assumes inv: "op_inv self" and sel: "select_response env self = (self', won, pub)"
  shows "op_progress self self' (published (dispatch pub))"
proof (cases "is_err (lock_domain env self) \<or> op_outcome self = None \<and> is_err (check_active env (clk env 0) self)")
  case True
  then obtain e cause outcome where "select_failure env self e cause = (self', outcome, pub)"
    using sel by (auto simp: select_response_def is_err_def is_some_def split: sum.splits option.splits prod.splits if_splits)
  then show ?thesis by (rule select_failure_progress [OF inv])
next
  case False
  then have dom: "lock_domain env self = Inr ()" by (auto simp: is_err_def split: sum.splits)
  show ?thesis
  proof (cases "op_outcome self")
    case (Some r)
    then show ?thesis using sel dom inv by (auto simp: select_response_def is_some_def op_progress_refl)
  next
    case None
    let ?s = "upd_state (\<lambda>s. s\<lparr>data_in_flight := False\<rparr>) (upd_snapshot (\<lambda>s. s\<lparr>delivery := ResponseConfirmed\<rparr>) self)"
    have act: "check_active env (clk env 0) self = Inr ()" using False None by (auto simp: is_err_def split: sum.splits)
    have "delivery_rank (op_delivery self) \<le> 3" by (cases "op_delivery self") auto
    moreover have "finish_locked env ?s (Inr ResponseReceived) Cause_Completed
          (publication_default\<lparr>pub_written := Some (written_token ?s)\<rparr>) = (self', pub)"
      using sel dom act None by (auto simp: select_response_def is_some_def Let_def split: prod.splits)
    ultimately show ?thesis
      by (intro finish_progress [OF inv None, of ?s]) (use None in \<open>auto simp: same_config_def\<close>)
  qed
qed

lemma begin_attempt_stop: "stop_reason (fst (begin_attempt r)) = stop_reason r"
  by (auto simp: begin_attempt_def split: option.splits)

lemma record_transport_send_stop: "stop_reason (fst (record_transport_send r)) = stop_reason r"
  by (auto simp: record_transport_send_def split: option.splits)

lemma next_delay_stop: "stop_reason (fst (next_delay m c r)) = stop_reason r"
  by (auto simp: next_delay_def next_unit_def Let_def split: option.splits sum.splits prod.splits)

lemma open_data_attempt_state:
  assumes "open_data_attempt self = (self', r)"
  shows "same_config self self' \<and> snapshot (op_state self') = snapshot (op_state self)
    \<and> os_observation (op_state self') = os_observation (op_state self)
    \<and> os_retry_report (op_state self') = os_retry_report (op_state self)
    \<and> stop_reason (os_retry (op_state self')) = stop_reason (os_retry (op_state self))
    \<and> os_hook (op_state self') = os_hook (op_state self)
    \<and> os_pending (op_state self') = os_pending (op_state self)
    \<and> data_in_flight (op_state self') = data_in_flight (op_state self)"
  using assms begin_attempt_stop [of "os_retry (op_state self)"]
    record_transport_send_stop [of "os_retry (op_state self)"]
    record_transport_send_stop [of "fst (begin_attempt (os_retry (op_state self)))"]
  by (auto simp: open_data_attempt_def same_config_def Let_def split: if_splits sum.splits prod.splits)

lemma start_data_write_progress:
  assumes inv: "op_inv self" and sel: "start_data_write_locked env continuation self = (self', effects, r)"
  shows "op_progress self self' [] \<and> published effects = [] \<and> (r = Inr True \<longrightarrow> op_delivery self' \<noteq> NotStarted)"
proof -
  define confirmed where "confirmed = confirmed_continuation continuation self"
  define active where "active \<longleftrightarrow> \<not> is_err (lock_domain env self) \<and> (confirmed
    \<or> \<not> is_err (check_active_until env (clk env 0) self (oc_deadline self)) \<and> op_phase self = Writing)"
  show ?thesis
  proof (cases active)
    case False
    then have "self' = self" "effects = []" "r = Inr False"
      using sel by (auto simp: start_data_write_locked_def Let_def active_def confirmed_def split: if_splits)
    then show ?thesis using op_progress_refl [OF inv] by simp
  next
    case granted: True
    then have act: "confirmed \<or> op_outcome self = None \<and> op_phase self = Writing"
      using check_active_not_err by (auto simp: active_def)
  obtain s1 o1 where opened: "(if \<not> data_in_flight (op_state self) \<and> \<not> confirmed then open_data_attempt self
      else (self, Inr None)) = (s1, o1)" by fastforce
  have s1: "same_config self s1" "snapshot (op_state s1) = snapshot (op_state self)"
    "os_observation (op_state s1) = os_observation (op_state self)"
    "os_retry_report (op_state s1) = os_retry_report (op_state self)"
    "stop_reason (os_retry (op_state s1)) = stop_reason (os_retry (op_state self))"
    "os_hook (op_state s1) = os_hook (op_state self)" "data_in_flight (op_state s1) = data_in_flight (op_state self)"
    using opened open_data_attempt_state [of self s1 o1] by (auto simp: same_config_def split: if_splits)
  show ?thesis
  proof (cases o1)
    case (Inl e)
    then have "self' = s1" "effects = []" "r = Inl e"
      using sel granted opened by (auto simp: start_data_write_locked_def Let_def active_def confirmed_def split: if_splits)
    moreover have "op_progress self s1 []"
      by (rule op_progress_quiet [OF inv]) (use s1 in \<open>simp add: op_quiet_def\<close>)
    ultimately show ?thesis by simp
  next
    case (Inr started)
    let ?f = "\<lambda>s. if delivery s = NotStarted then s\<lparr>delivery := Delivery_Unknown\<rparr> else s"
    have self': "self' = upd_snapshot ?f (upd_state (\<lambda>s. s\<lparr>data_in_flight := True\<rparr>) s1)"
      and eff: "effects = opt_effect (\<lambda>n. notify_observer s1 (AttemptStarted n)) started"
      using sel granted opened Inr by (auto simp: start_data_write_locked_def Let_def active_def confirmed_def split: if_splits)
    have "published effects = []" unfolding eff by (cases started) simp_all
    moreover have "op_progress self self' []"
    proof (cases confirmed)
      case True
      then have "op_delivery self = ResponseConfirmed" by (simp add: confirmed_def confirmed_continuation_def)
      then show ?thesis
        unfolding self' by (intro op_progress_quiet [OF inv]) (use s1 in \<open>simp add: op_quiet_def same_config_def\<close>)
    next
      case False
      then have "op_outcome self = None" "op_phase self = Writing" using act by auto
      then show ?thesis
        unfolding self' using s1 inv
        by (auto simp: op_progress_def op_inv_def result_ok_def same_config_def)
    qed
    moreover have "op_delivery self' \<noteq> NotStarted" unfolding self' by simp
    ultimately show ?thesis by simp
  qed
qed
qed

lemma quiet_refl [simp]: "op_quiet self self"
  by (simp add: op_quiet_def same_config_def)

lemma quiet_state:
  assumes "\<And>s. snapshot (f s) = snapshot s" "\<And>s. os_observation (f s) = os_observation s"
    "\<And>s. os_retry_report (f s) = os_retry_report s" "\<And>s. os_hook (f s) = os_hook s"
    and "stop_reason (os_retry (f (op_state self))) = stop_reason (os_retry (op_state self))"
    and "data_in_flight (f (op_state self)) \<longrightarrow> data_in_flight (op_state self)"
  shows "op_quiet self (upd_state f self)"
  using assms by (simp add: op_quiet_def same_config_def)

lemma quiet_phase:
  assumes "op_outcome self = None" "op_phase self \<noteq> AwaitingResponse" "p \<noteq> Finished"
  shows "op_quiet self (upd_snapshot (\<lambda>s. s\<lparr>phase := p\<rparr>) self)"
  using assms by (simp add: op_quiet_def same_config_def)

lemma quiet_trans: "op_quiet a b \<Longrightarrow> op_quiet b c \<Longrightarrow> op_phase c = op_phase b \<Longrightarrow> op_quiet a c"
  unfolding op_quiet_def same_config_def by (elim conjE, intro conjI) (simp | metis)+

lemma quiet_ops:
  "op_quiet self (set_retry_started x self)" "op_quiet self (set_response_deadline d self)"
  "op_quiet self (bind_queue q self)" "op_quiet self (fst (bind_request env table i tok self))"
  "op_quiet self (fst (bind_write_retirement rt self))"
  by (auto simp: set_retry_started_def set_response_deadline_def bind_queue_def bind_request_def
      bind_write_retirement_def intro!: quiet_state split: sum.splits)

lemma quiet_phases:
  "op_quiet self (fst (prepare env self))" "op_quiet self (fst (enqueue env self))"
  by (auto simp: prepare_def enqueue_def intro!: quiet_phase dest: check_active_Inr split: sum.splits)

lemma quiet_mark_writing: "op_quiet self (fst (mark_writing env con self))"
  by (auto simp: mark_writing_def check_active_def intro!: quiet_trans [OF quiet_phase quiet_state] dest: check_active_not_err)

lemma quiet_requeue: "op_quiet self (fst (op_requeue env self))"
  by (auto simp: op_requeue_def check_active_def intro!: quiet_trans [OF quiet_phase quiet_state] dest: check_active_not_err)

lemma quiet_begin_write_attempt: "op_quiet self (fst (begin_write_attempt env self))"
  using begin_attempt_stop [of "os_retry (op_state self)"]
  by (auto simp: begin_write_attempt_def intro!: quiet_state split: sum.splits prod.splits)

lemma quiet_retry_first: "op_quiet self (fst (raw_retry_first env e self))"
  by (auto simp: raw_retry_first_def intro!: quiet_state split: sum.splits option.splits)

lemma quiet_retry_second: "op_quiet self (fst (raw_retry_second m env policy e decision self))"
  using next_delay_stop [of m "\<lambda>n. clk env (Suc n)" "os_retry (op_state self)"]
  by (auto simp: raw_retry_second_def intro!: quiet_state split: sum.splits option.splits prod.splits)

lemma quiet_bind_cancellation: "op_quiet self (fst (bind_cancellation st h allocated self))"
  by (auto simp: bind_cancellation_def op_quiet_def same_config_def split: option.splits prod.splits sum.splits)

lemma effects_unpublished:
  "published (fst (snd (begin_write_attempt env self))) = []"
  "published (snd (bind_write_retirement tok self)) = []"
  "published (fst (snd (snd (bind_cancellation st h allocated self)))) = []"
  by (auto simp: begin_write_attempt_def bind_write_retirement_def bind_cancellation_def opt_effect_def
      split: option.splits prod.splits sum.splits)

lemma op_step_progress:
  assumes inv: "op_inv self"
  shows "op_progress self (fst (op_step ev self)) (published (snd (op_step ev self)))"
proof (cases ev)
  case (Ev_StartDataWrite env continuation)
  then show ?thesis
    using start_data_write_progress [OF inv, of env continuation] by (auto split: prod.splits)
next
  case (Ev_SelectWritten env)
  then show ?thesis using select_written_progress [OF inv] by (auto split: prod.splits)
next
  case (Ev_SelectResponse env)
  then show ?thesis using select_response_progress [OF inv] by (auto split: prod.splits)
next
  case (Ev_SelectFailure env e cause)
  then show ?thesis using select_failure_progress [OF inv] by (auto split: prod.splits)
next
  case (Ev_BindCancellation st h allocated)
  then show ?thesis
    using op_progress_quiet [OF inv quiet_bind_cancellation] effects_unpublished(3) [of st h allocated self]
    by (auto split: prod.splits) (metis fst_conv)
next
  case (Ev_BeginWriteAttempt env)
  then show ?thesis
    using op_progress_quiet [OF inv quiet_begin_write_attempt [of _ env]] effects_unpublished(1) [of env self]
    by (auto split: prod.splits)
next
  case (Ev_BindWriteRetirement tok)
  then show ?thesis
    using op_progress_quiet [OF inv quiet_ops(5) [of _ tok]] effects_unpublished(2) [of tok self] by simp
qed (simp_all add: op_progress_quiet [OF inv] quiet_ops quiet_phases quiet_mark_writing quiet_requeue
      quiet_retry_first quiet_retry_second)

section \<open>Whole histories\<close>

abbreviation op_next :: "op_event \<Rightarrow> operation_control \<Rightarrow> operation_control" where
  "op_next ev self \<equiv> fst (op_step ev self)"

interpretation op: latch op_next op_inv "\<lambda>self. map_option (\<lambda>_. snapshot (op_state self)) (op_outcome self)"
proof unfold_locales
  fix s e v
  assume inv: "op_inv s"
  show "op_inv (op_next e s)" using op_step_progress [OF inv, of e] by (simp add: op_progress_def)
  assume "map_option (\<lambda>_. snapshot (op_state s)) (op_outcome s) = Some v"
  then show "map_option (\<lambda>_. snapshot (op_state (op_next e s))) (op_outcome (op_next e s)) = Some v"
    using op_step_progress [OF inv, of e] by (auto simp: op_progress_def)
qed

interpretation op_delivered: progress op_next op_inv "\<lambda>self. delivery_rank (op_delivery self)"
  by unfold_locales (use op_step_progress in \<open>simp add: op_progress_def\<close>)

lemma op_run_fold: "fst (op_run evs self) = fold op_next evs self"
  by (induction evs arbitrary: self) (auto simp: case_prod_beta Let_def)

lemma op_run_append:
  "op_run (xs @ ys) self =
     (let (s1, e1) = op_run xs self; (s2, e2) = op_run ys s1 in (s2, e1 @ e2))"
  by (induction xs arbitrary: self) (auto split: prod.splits)

lemma op_inv_new:
  "op_inv (new_with_deadline_phase client sess i options is_tracked source reserved dphase seed now ctok wtok)"
  by (simp add: new_with_deadline_phase_def Let_def op_inv_def result_ok_def with_seed_def)

lemma op_run_published:
  assumes "op_inv self"
  shows "if op_outcome self = None
    then (case op_outcome (fst (op_run evs self)) of
            None \<Rightarrow> published (snd (op_run evs self)) = []
              \<and> map_option obs_reservation (os_observation (op_state (fst (op_run evs self))))
                  = map_option obs_reservation (os_observation (op_state self))
          | Some r \<Rightarrow> \<exists>p. published (snd (op_run evs self)) = [p]
              \<and> terminal_event self (fst (op_run evs self)) p)
    else published (snd (op_run evs self)) = []"
  using assms
proof (induction evs arbitrary: self)
  case Nil
  then show ?case by simp
next
  case (Cons ev evs)
  obtain s1 e1 where s1: "op_step ev self = (s1, e1)" by fastforce
  obtain s2 e2 where s2: "op_run evs s1 = (s2, e2)" by fastforce
  have p: "op_progress self s1 (published e1)" using op_step_progress [OF Cons.prems, of ev] s1 by simp
  then have inv1: "op_inv s1" and id1: "oc_id s1 = oc_id self" by (auto simp: op_progress_def same_config_def)
  note IH = Cons.IH [OF inv1, unfolded s2, simplified]
  show ?case
  proof (cases "op_outcome s1")
    case None
    then have "op_outcome self = None" "published e1 = []"
      "map_option obs_reservation (os_observation (op_state s1)) = map_option obs_reservation (os_observation (op_state self))"
      using p by (auto simp: op_progress_def)
    then show ?thesis
      using IH None s1 s2 id1 by (auto simp: terminal_event_def split: option.splits)
  next
    case (Some r)
    then have quiet: "published e2 = []" using IH by simp
    have same: "snapshot (op_state s2) = snapshot (op_state s1)"
      using op.decided_run [OF inv1, of "snapshot (op_state s1)" evs] Some op_run_fold [of evs s1] s2 by auto
    show ?thesis
      using p Some quiet same s1 s2 by (auto simp: op_progress_def terminal_event_def split: option.splits)
  qed
qed

section \<open>Properties\<close>

text \<open>An operation and an environment for the examples.\<close>

definition example_op :: operation_control where
  "example_op = operation_new (ClientId 1) (SessionId 1) (OperationId 1) send_options_default False
     (Source_Message (Text ''hi'')) 5 0 0 20 21"

definition example_env :: op_env where
  "example_env = \<lparr>clk = (\<lambda>_. 0), cancels = cancel_empty, token_cancelled = (\<lambda>_. False)\<rparr>"

lemmas example_op_defs = example_op_def example_env_def operation_new_def new_with_deadline_phase_def
  send_options_default_def Let_def map_or_def with_seed_def no_retry_def

text \<open>C1. An operation settles at most once: in every history of calls from every thread, the first
  snapshot with a result is the last one, and a further part of the history publishes no task event.\<close>

theorem operation_settles_once:
  fixes client sess i options is_tracked source reserved dphase seed now ctok wtok
  defines "new \<equiv> new_with_deadline_phase client sess i options is_tracked source reserved dphase seed now ctok wtok"
  assumes "op_run before new = (s1, e1)" and "op_outcome s1 = Some r" and "op_run after s1 = (s2, e2)"
  shows "snapshot (op_state s2) = snapshot (op_state s1) \<and> op_phase s2 = Finished \<and> published e2 = []"
proof -
  have inv: "op_inv s1"
    using op.inv_run [OF op_inv_new] op_run_fold [of before new] assms by (simp add: new_def)
  have "snapshot (op_state s2) = snapshot (op_state s1)"
    using op.decided_run [OF inv, of "snapshot (op_state s1)" after] assms op_run_fold [of after s1] by auto
  then show ?thesis using op_run_published [OF inv, of after] inv assms by (auto simp: op_inv_def)
qed

theorem operation_settles_once_witness:
  "\<exists>s1 e1 s2 e2 r.
     op_run [Ev_SelectFailure example_env (from_kind K_Closed) Cause_Shutdown] example_op = (s1, e1)
   \<and> op_outcome s1 = Some r \<and> op_run [Ev_SelectResponse example_env] s1 = (s2, e2)
   \<and> snapshot (op_state s2) = snapshot (op_state s1) \<and> published e2 = []"
proof -
  obtain s1 e1 where s1: "op_run [Ev_SelectFailure example_env (from_kind K_Closed) Cause_Shutdown] example_op = (s1, e1)"
    by fastforce
  then obtain r where r: "op_outcome s1 = Some r"
    using select_failure_settles [of example_env example_op "from_kind K_Closed" Cause_Shutdown]
    by (auto split: prod.splits)
  obtain s2 e2 where s2: "op_run [Ev_SelectResponse example_env] s1 = (s2, e2)" by fastforce
  from operation_settles_once [OF s1 [unfolded example_op_def operation_new_def] r s2] s1 r s2 show ?thesis by blast
qed

text \<open>C2. The task event of an operation: while it is unsettled nothing is published; once it is
  settled exactly one event has been published, to the reservation made at admission, and the
  event's result and delivery evidence are those of the operation's snapshot.\<close>

theorem operation_publishes_exactly_its_result:
  fixes client sess i options is_tracked source reserved dphase seed now ctok wtok evs
  defines "run \<equiv> op_run evs (new_with_deadline_phase client sess i options is_tracked source reserved dphase seed now ctok wtok)"
  shows "case op_outcome (fst run) of
      None \<Rightarrow> published (snd run) = []
    | Some r \<Rightarrow> \<exists>ev. published (snd run) = [(reserved, ev)] \<and> te_result ev = r
        \<and> te_delivery ev = op_delivery (fst run) \<and> te_operation_id ev = i"
proof -
  have new: "op_outcome (new_with_deadline_phase client sess i options is_tracked source reserved dphase seed now ctok wtok) = None"
    "map_option obs_reservation (os_observation (op_state
       (new_with_deadline_phase client sess i options is_tracked source reserved dphase seed now ctok wtok))) = Some reserved"
    "oc_id (new_with_deadline_phase client sess i options is_tracked source reserved dphase seed now ctok wtok) = i"
    by (simp_all add: new_with_deadline_phase_def Let_def)
  show ?thesis
    using op_run_published [OF op_inv_new, of client sess i options is_tracked source reserved dphase seed now ctok wtok evs] new
    unfolding run_def by (auto simp: terminal_event_def split: option.splits)
qed

text \<open>C4. Delivery evidence never regresses: it is monotone along every history, in the order
  not started, unknown, written, response confirmed; retries included.\<close>

theorem delivery_evidence_never_regresses:
  fixes client sess i options is_tracked source reserved dphase seed now ctok wtok
  defines "new \<equiv> new_with_deadline_phase client sess i options is_tracked source reserved dphase seed now ctok wtok"
  shows "delivery_rank (op_delivery (fst (op_run before new)))
    \<le> delivery_rank (op_delivery (fst (op_run (before @ after) new)))"
  unfolding op_run_fold fold_append comp_def new_def
  by (rule op_delivered.level_run [OF op.inv_run [OF op_inv_new]])

text \<open>C3. Once a write of business data was admitted, the operation never claims that nothing was
  sent: a later termination does not report \<open>TerminatedBeforeWrite\<close>, and an error result without
  a completed local write is of kind \<open>DeliveryUnknown\<close>.\<close>

theorem admitted_write_is_never_reported_unsent:
  fixes client sess i options is_tracked source reserved dphase seed now ctok wtok
  defines "new \<equiv> new_with_deadline_phase client sess i options is_tracked source reserved dphase seed now ctok wtok"
  assumes "start_data_write_locked env continuation (fst (op_run before new)) = (s1, e1, Inr True)"
    and "op_run after s1 = (s2, e2)"
  shows "fst (snd (select_failure env' s2 e cause)) \<noteq> TerminatedBeforeWrite
    \<and> (op_outcome s2 = Some (Inl err) \<and> op_delivery s2 \<noteq> Delivery_Written \<longrightarrow> kind err = K_DeliveryUnknown)"
proof -
  have inv0: "op_inv (fst (op_run before new))"
    unfolding op_run_fold new_def by (rule op.inv_run [OF op_inv_new])
  have w: "op_progress (fst (op_run before new)) s1 []" "op_delivery s1 \<noteq> NotStarted"
    using start_data_write_progress [OF inv0 assms(2)] by auto
  then have inv1: "op_inv s1" by (simp add: op_progress_def)
  have s2: "s2 = fold op_next after s1" using op_run_fold [of after s1] assms(3) by simp
  have inv2: "op_inv s2" unfolding s2 by (rule op.inv_run [OF inv1])
  have "0 < delivery_rank (op_delivery s2)"
    using op_delivered.level_run [OF inv1, of after] w(2) unfolding s2 by (cases "op_delivery s1") auto
  then have started: "op_delivery s2 \<noteq> NotStarted" by auto
  then have "fst (snd (select_failure env' s2 e cause)) \<noteq> TerminatedBeforeWrite"
    by (auto simp: select_failure_def select_failure_locked_def outcome_of_def Let_def
        split: prod.splits delivery_evidence.splits)
  moreover have "op_outcome s2 = Some (Inl err) \<Longrightarrow> op_delivery s2 \<noteq> Delivery_Written \<Longrightarrow> kind err = K_DeliveryUnknown"
    using inv2 started by (cases "op_delivery s2") (auto simp: op_inv_def result_ok_def)
  ultimately show ?thesis by blast
qed

lemma example_write:
  "\<exists>s1 e1. start_data_write_locked example_env False
     (fst (op_run [Ev_Enqueue example_env, Ev_MarkWriting example_env (ConnectionId 1)] example_op)) = (s1, e1, Inr True)"
  by (simp add: example_op_defs enqueue_def mark_writing_def check_active_def check_active_until_def
      op_deadline_def earliest_def is_some_and_def or_option_def is_err_def lock_domain_def
      start_data_write_locked_def confirmed_continuation_def open_data_attempt_def begin_attempt_def
      record_transport_send_def is_some_def checked_add_def upd_snapshot_def upd_state_def)

theorem admitted_write_is_never_reported_unsent_witness:
  "\<exists>s1 e1. start_data_write_locked example_env False
     (fst (op_run [Ev_Enqueue example_env, Ev_MarkWriting example_env (ConnectionId 1)] example_op)) = (s1, e1, Inr True)
   \<and> fst (snd (select_failure example_env s1 (from_kind K_Closed) Cause_Shutdown)) \<noteq> TerminatedBeforeWrite"
proof -
  obtain s1 e1 where s1: "start_data_write_locked example_env False
     (fst (op_run [Ev_Enqueue example_env, Ev_MarkWriting example_env (ConnectionId 1)] example_op)) = (s1, e1, Inr True)"
    using example_write by blast
  have "op_run [] s1 = (s1, [])" by simp
  from admitted_write_is_never_reported_unsent [OF s1 [unfolded example_op_def operation_new_def] this] s1 show ?thesis by blast
qed

text \<open>C5. A raw send is scheduled for another attempt only when all of this holds: the operation is
  not a tracked request, its policy exists and declares replay safe, the error is not terminal, an
  attempt has started, and at the decision the operation was unsettled and had attempts left; the
  user's classifier cannot override any of it.\<close>

theorem raw_retry_is_safe:
  assumes "raw_retry_after m env others e self = (self', effects, Inr (Some d))"
  shows "raw_replay_allowed self \<and> \<not> tracked self
    \<and> (\<exists>policy. retry_policy self = Some policy \<and> send_allows_replay policy)
    \<and> \<not> terminal_error e \<and> 0 < attempts (os_retry (op_state self))
    \<and> op_outcome (others 0 self) = None \<and> can_retry (os_retry (op_state (others 0 self)))"
proof -
  obtain s policy ctx where first: "raw_retry_first (env 0) e self = (s, Inr (Some (policy, ctx)))"
    using assms by (auto simp: raw_retry_after_def split: prod.splits sum.splits option.splits)
  then have s: "s = self" and p: "retry_policy self = Some policy" "\<not> tracked self" "\<not> terminal_error e"
    "attempts (os_retry (op_state self)) \<noteq> 0"
    by (auto simp: raw_retry_first_def split: sum.splits if_splits option.splits)
  obtain s2 x where second:
    "raw_retry_second m (env 1) policy e (send_classify policy e ctx) (others 0 self) = (s2, Inr (Some x))"
    using assms first s by (auto simp: raw_retry_after_def split: prod.splits sum.splits option.splits)
  then have "check_active (env 1) (clk (env 1) 0) (others 0 self) = Inr ()"
    and "retry_stop_for policy e (os_retry (op_state (others 0 self))) (send_classify policy e ctx) = None"
    by (auto simp: raw_retry_second_def split: sum.splits option.splits)
  then have "op_outcome (others 0 self) = None" "can_retry (os_retry (op_state (others 0 self)))" "send_allows_replay policy"
    using check_active_Inr
    by (auto simp: retry_stop_for_def Let_def split: sum.splits retry_decision.splits if_splits)
  then show ?thesis
    using p by (auto simp: raw_replay_allowed_def is_some_and_def word_gt_0)
qed

definition example_retry_op :: operation_control where
  "example_retry_op = (upd_state (\<lambda>s. s\<lparr>os_retry := (with_seed example_schedule 1)
       \<lparr>attempts := 2, pending_delay := Some 150000000\<rparr>\<rparr>) example_op)
     \<lparr>retry_policy := Some \<lparr>sp_schedule = example_schedule,
        sp_retry_on = send_with_write_errors True send_retry_none, sp_safety = IdempotencyKey,
        sp_classifier = None, sp_observer = None\<rparr>\<rparr>"

lemma io_not_terminal: "\<not> terminal_error (from_kind K_Io)" "timeout_phase (from_kind K_Io) = None"
proof -
  have "own_timeout_phase (Src_NetError (from_kind K_Io)) = None" by (simp add: own_timeout_phase_def)
  moreover have "timeout_phase_within (Suc 30) None = None" by (simp only: timeout_phase_within.simps option.case)
  ultimately show tp: "timeout_phase (from_kind K_Io) = None" by (subst timeout_phase_step) simp
  show "\<not> terminal_error (from_kind K_Io)" by (simp add: terminal_error_def tp)
qed

theorem raw_retry_is_safe_witness:
  "snd (snd (raw_retry_after example_libm (\<lambda>_. example_env) (\<lambda>_ s. s) (from_kind K_Io) example_retry_op)) = Inr (Some 150000000)
   \<and> raw_replay_allowed example_retry_op"
proof -
  have active: "check_active example_env 0 example_retry_op = Inr ()"
    by (simp add: example_retry_op_def example_op_defs check_active_def check_active_until_def op_deadline_def
        earliest_def is_some_and_def or_option_def)
  have first: "raw_retry_first example_env (from_kind K_Io) example_retry_op = (example_retry_op, Inr (Some
      (the (retry_policy example_retry_op), context_of (os_retry (op_state example_retry_op)) 0 None)))"
    using active io_not_terminal
    by (simp add: raw_retry_first_def) (simp add: example_retry_op_def example_op_defs elapsed_def saturating_duration_since_def)
  have second: "snd (raw_retry_second example_libm example_env (the (retry_policy example_retry_op)) (from_kind K_Io)
      (Inr Decision_Default) example_retry_op) = Inr (Some (Some 150000000, 2, False))"
    using active io_not_terminal
    by (simp add: raw_retry_second_def retry_stop_for_def example_retry_op_def example_op_defs can_retry_def
        send_allows_replay_def send_should_retry_error_def send_allows_def send_with_write_errors_def
        next_delay_def example_schedule_def)
  have "send_classify (the (retry_policy example_retry_op)) e c = Inr Decision_Default"
    "sp_observer (the (retry_policy example_retry_op)) = None" for e c
    by (simp_all add: example_retry_op_def send_classify_def)
  then have run: "snd (snd (raw_retry_after example_libm (\<lambda>_. example_env) (\<lambda>_ s. s) (from_kind K_Io) example_retry_op))
      = Inr (Some 150000000)"
    using second by (auto simp: raw_retry_after_def first split: prod.splits)
  then show ?thesis
    using raw_retry_is_safe [of example_libm "\<lambda>_. example_env" "\<lambda>_ s. s" "from_kind K_Io" example_retry_op]
    by (metis prod.collapse)
qed

end
