(* ===== verification/Native_Pending.thy ===== *)
theory Native_Pending
  imports Operation_Control "HOL-Library.AList"
begin

text \<open>
  The table of pending requests, \<open>src/module/ws_client/native_pending.rs\<close>, with the registrations
  and handles of \<open>src/api/ws/request_control.rs\<close> and the operations of \<open>operation_control.rs\<close> that
  go through the table. Operations are shared by \<open>Arc\<close>: an entry names its operation, and every
  function takes and returns the store of operations. The hash maps are association lists in any
  order; a response channel, a slot lease and a table are their identities. The effects are what
  the code does after it has released the table's lock, in its order: dropping the entry's reference to the lease of its slot, the
  operation's publication, sending on the response channel, waking the timer task. The clock
  argument gives the table's own readings of the clock; an operation's critical section has its own
  environment, one per operation in the loops.
\<close>

type_synonym lease = nat
type_synonym slot = nat
type_synonym channel = nat
type_synonym op_store = "op_id \<Rightarrow> operation_control"

section \<open>Leases of slots\<close>

text \<open>A lease is shared by \<open>Arc\<close>: its owners are counted. It gives the slot back when one of them calls \<open>release\<close>, or
  when the last of them is dropped, whichever comes first. The second component of a result is the list of slots
  that the call returns to the semaphore.\<close>

record pending_lease =
  pl_permit :: "slot option"
  pl_owners :: nat

definition pending_lease_new :: "slot \<Rightarrow> pending_lease" where
  "pending_lease_new p = \<lparr>pl_permit = Some p, pl_owners = 1\<rparr>"

definition lease_clone :: "pending_lease \<Rightarrow> pending_lease \<times> slot list" where
  "lease_clone self = (self\<lparr>pl_owners := pl_owners self + 1\<rparr>, [])"

definition lease_release :: "pending_lease \<Rightarrow> pending_lease \<times> slot list" where
  "lease_release self =
     (self\<lparr>pl_permit := None\<rparr>, (case pl_permit self of None \<Rightarrow> [] | Some p \<Rightarrow> [p]))"

definition lease_drop :: "pending_lease \<Rightarrow> pending_lease \<times> slot list" where
  "lease_drop self =
     (let self = self\<lparr>pl_owners := pl_owners self - 1\<rparr>
      in if pl_owners self = 0 then lease_release self else (self, []))"

datatype lease_call = Lease_Clone | Lease_Release | Lease_Drop

text \<open>A call needs an owner to make it.\<close>

fun lease_step :: "lease_call \<Rightarrow> pending_lease \<times> slot list \<Rightarrow> pending_lease \<times> slot list" where
  "lease_step c (self, returned) =
     (if pl_owners self = 0 then (self, returned)
      else let (self, ps) = (case c of Lease_Clone \<Rightarrow> lease_clone self | Lease_Release \<Rightarrow> lease_release self | Lease_Drop \<Rightarrow> lease_drop self)
           in (self, returned @ ps))"

text \<open>Whatever the owners of a lease do, its slot is returned once or is still held, and it is held only while there is
  an owner.\<close>

definition lease_ok :: "slot \<Rightarrow> pending_lease \<times> slot list \<Rightarrow> bool" where
  "lease_ok p = (\<lambda>(self, returned).
     if pl_permit self = None then returned = [p] else pl_permit self = Some p \<and> returned = [] \<and> 0 < pl_owners self)"

lemma lease_ok_step: "lease_ok p x \<Longrightarrow> lease_ok p (lease_step c x)"
  by (cases x; cases c)
    (auto simp: lease_ok_def lease_clone_def lease_release_def lease_drop_def Let_def split: option.split if_split_asm)

interpretation pl: machine lease_step "lease_ok p" for p
  by unfold_locales (rule lease_ok_step)

lemma lease_returns_its_slot_once: "lease_ok p (fold lease_step calls (pending_lease_new p, []))"
  by (rule pl.inv_run) (simp add: lease_ok_def pending_lease_new_def)

section \<open>Registrations and entries\<close>

record registration_timing =
  rt_deadline :: "instant option"
  rt_poisoned :: bool

definition timing_deadline :: "registration_timing \<Rightarrow> (instant option, net_error) result" where
  "timing_deadline self = (if rt_poisoned self then Inl from_poison else Inr (rt_deadline self))"

definition establish :: "instant \<Rightarrow> registration_timing \<Rightarrow> registration_timing \<times> (unit, net_error) result" where
  "establish d self =
     (if rt_poisoned self then (self, Inl from_poison)
      else (if rt_deadline self = None then self\<lparr>rt_deadline := Some d\<rparr> else self, Inr ()))"

record request_registration =
  reg_request_id :: request_id
  reg_session_id :: session_id
  registered_at :: instant
  reg_token :: u64
  reg_pending :: table_id

record pending_entry =
  pe_request :: request
  pe_core :: op_id
  pe_registration :: request_registration
  pe_timing :: registration_timing
  pe_connection_id :: "connection_id option"
  bound_at :: "instant option"
  pe_response_timeout :: duration
  timeout_origin :: response_timeout_origin
  absolute_deadline :: "instant option"
  pe_grace_deadline :: "instant option"
  grace_used :: bool
  deferred_error :: "net_error option"
  deferred_cause :: "task_end_cause option"
  pe_response :: channel
  pe_permit :: lease

record dispatch_record =
  dr_connection_id :: connection_id
  token_watermark :: u64
  received_at :: instant
  expires_at :: instant

record pending_state =
  entries :: "(request_id \<times> pending_entry) list"
  dispatches :: "(u64 \<times> dispatch_record) list"
  next_token :: u64
  next_dispatch :: u64
  active :: "connection_id option"
  closed :: bool

record native_pending =
  np_self :: table_id
  np_client_id :: client_id
  np_session_id :: session_id
  grace :: duration
  max_dispatches :: usize
  admission_closed :: token
  np_state :: pending_state
  np_poisoned :: bool

definition upd_pending :: "(pending_state \<Rightarrow> pending_state) \<Rightarrow> native_pending \<Rightarrow> native_pending" where
  "upd_pending f self = self\<lparr>np_state := f (np_state self)\<rparr>"

definition put_entry :: "request_id \<Rightarrow> pending_entry \<Rightarrow> native_pending \<Rightarrow> native_pending" where
  "put_entry i e = upd_pending (\<lambda>s. s\<lparr>entries := AList.update i e (entries s)\<rparr>)"

definition remove_entry :: "request_id \<Rightarrow> native_pending \<Rightarrow> native_pending" where
  "remove_entry i = upd_pending (\<lambda>s. s\<lparr>entries := AList.delete i (entries s)\<rparr>)"

definition get_entry :: "request_id \<Rightarrow> native_pending \<Rightarrow> pending_entry option" where
  "get_entry i self = map_of (entries (np_state self)) i"

definition belongs_to :: "request_registration \<Rightarrow> native_pending \<Rightarrow> bool" where
  "belongs_to reg self \<longleftrightarrow> reg_pending reg = np_self self"

definition matching_entry :: "native_pending \<Rightarrow> request_registration \<Rightarrow> pending_entry option" where
  "matching_entry self reg =
     (case get_entry (reg_request_id reg) self of
        Some e \<Rightarrow> if reg_token (pe_registration e) = reg_token reg then Some e else None
      | None \<Rightarrow> None)"

section \<open>Effects\<close>

datatype pend_effect =
    P_DropLease lease
  | P_Op op_effect
  | P_Send channel "(response, net_error) result"
  | P_Changed
  | P_CloseAdmission token

record completion =
  co_entry :: pending_entry
  co_publication :: operation_publication
  co_response :: "(response, net_error) result"

definition completion_dispatch :: "completion \<Rightarrow> pend_effect list" where
  "completion_dispatch self =
     P_DropLease (pe_permit (co_entry self)) # map P_Op (dispatch (co_publication self))
     @ [P_Send (pe_response (co_entry self)) (co_response self)]"

record deferred_termination =
  dt_outcome :: "termination_outcome option"
  dt_publication :: "operation_publication option"
  dt_completion :: "completion option"
  dt_pending :: "table_id option"
  dt_retired_error :: "net_error option"

definition deferred_default :: deferred_termination where
  "deferred_default = \<lparr>dt_outcome = None, dt_publication = None, dt_completion = None, dt_pending = None,
     dt_retired_error = None\<rparr>"

definition deferred_dispatch :: "deferred_termination \<Rightarrow> pend_effect list" where
  "deferred_dispatch self =
     (case dt_completion self of None \<Rightarrow> [] | Some c \<Rightarrow> completion_dispatch c)
     @ (case dt_publication self of None \<Rightarrow> [] | Some p \<Rightarrow> map P_Op (dispatch p))
     @ (case dt_pending self of None \<Rightarrow> [] | Some _ \<Rightarrow> [P_Changed])"

section \<open>Deadlines\<close>

definition timeout :: net_error where
  "timeout = with_ws_timeout_phase (with_stage (from_kind K_TimedOut) St_Response) Tp_Response"

definition add_deadline :: "instant \<Rightarrow> duration \<Rightarrow> (instant, net_error) result" where
  "add_deadline t d = ok_or (instant_checked_add t d) (config ''response_timeout'' ''exceeds monotonic clock range'')"

definition entry_response_deadline :: "pending_entry \<Rightarrow> (instant option, net_error) result" where
  "entry_response_deadline self =
     try_bind (timing_deadline (pe_timing self)) (\<lambda>d. Inr (or_option (pe_grace_deadline self) d))"

definition entry_budget :: "op_store \<Rightarrow> pending_entry \<Rightarrow> (timeout_budget option, net_error) result" where
  "entry_budget ops self =
     try_bind (entry_response_deadline self) (\<lambda>d.
       Inr (budget_earlier (absolute_budget (ops (pe_core self)))
              (map_option (\<lambda>t. \<lparr>budget_at = t, budget_phase = Tp_Response\<rparr>) d)))"

definition entry_deadline :: "op_store \<Rightarrow> pending_entry \<Rightarrow> (instant option, net_error) result" where
  "entry_deadline ops self = try_bind (entry_budget ops self) (\<lambda>b. Inr (map_option budget_at b))"

definition entry_timeout_error :: "op_store \<Rightarrow> pending_entry \<Rightarrow> (net_error, net_error) result" where
  "entry_timeout_error ops self =
     try_bind (entry_budget ops self) (\<lambda>b.
       let dflt = map_or timeout (\<lambda>e. e) (deferred_error self)
       in case b of
            Some bud \<Rightarrow> if budget_phase bud \<noteq> Tp_Response then Inr (budget_timeout_error bud) else Inr dflt
          | None \<Rightarrow> Inr dflt)"

definition grace_match :: "pending_entry \<Rightarrow> instant option \<Rightarrow> instant \<Rightarrow> dispatch_record \<Rightarrow> bool" where
  "grace_match self rd t rec \<longleftrightarrow>
     pe_connection_id self = Some (dr_connection_id rec)
   \<and> is_some_and (bound_at self) (\<lambda>b. b \<le> received_at rec)
   \<and> reg_token (pe_registration self) \<le> token_watermark rec
   \<and> t < expires_at rec
   \<and> is_none_or rd (\<lambda>d. received_at rec \<le> d)"

definition list_max :: "instant list \<Rightarrow> instant option" where
  "list_max xs = (case xs of [] \<Rightarrow> None | y # ys \<Rightarrow> Some (fold max ys y))"

definition grace_deadline ::
  "pending_entry \<Rightarrow> (u64 \<times> dispatch_record) list \<Rightarrow> instant \<Rightarrow> duration \<Rightarrow> bool \<Rightarrow> instant option" where
  "grace_deadline self recs t g disconnected =
     (if grace_used self \<or> is_some_and (absolute_deadline self) (\<lambda>d. d \<le> t) then None
      else case timing_deadline (pe_timing self) of
             Inl _ \<Rightarrow> None
           | Inr rd \<Rightarrow>
               Option.bind (list_max (map expires_at (filter (grace_match self rd t) (map snd recs)))) (\<lambda>d.
               let base = (if disconnected then t else map_or t (\<lambda>d. d) rd)
               in Option.bind (instant_checked_add base g) (\<lambda>bound.
                  case earliest (Some (min d bound)) (absolute_deadline self) of
                    Some dl \<Rightarrow> if t < dl then Some dl else None
                  | None \<Rightarrow> None)))"

text \<open>The grace window that an entry enters: the deadline it runs to and the failure it defers.\<close>

definition enter_grace :: "instant \<Rightarrow> net_error \<Rightarrow> task_end_cause \<Rightarrow> pending_entry \<Rightarrow> pending_entry" where
  "enter_grace d e cause self = self\<lparr>grace_used := True, pe_grace_deadline := Some d,
     deferred_error := Some e, deferred_cause := Some cause\<rparr>"

definition selected_error_or :: "operation_control \<Rightarrow> net_error \<Rightarrow> net_error" where
  "selected_error_or core fallback = map_or fallback (\<lambda>e. e) (selected_error core)"

section \<open>Construction and slots\<close>

definition pending_new ::
  "usize \<Rightarrow> instant \<Rightarrow> client_id \<Rightarrow> session_id \<Rightarrow> request_limits \<Rightarrow> usize \<Rightarrow> table_id \<Rightarrow> token
     \<Rightarrow> (native_pending, net_error) result" where
  "pending_new max_permits now client sess limits max_disp table tok =
     try_bind (request_limits_validate max_permits now limits) (\<lambda>_.
       if max_permits < max_pending limits
       then Inl (config ''requests.max_pending'' ''exceeds semaphore capacity'')
       else if max_disp = 0
       then Inl (config ''dispatch.incoming.max_items'' ''must be greater than zero'')
       else Inr \<lparr>np_self = table, np_client_id = client, np_session_id = sess,
              grace = manual_response_grace limits, max_dispatches = max_disp, admission_closed = tok,
              np_state = \<lparr>entries = [], dispatches = [], next_token = 0, next_dispatch = 0,
                active = None, closed = False\<rparr>,
              np_poisoned = False\<rparr>)"

datatype try_acquire_error = Acquire_Closed | NoPermits

text \<open>
  \<open>try_reserve_slot\<close> reads the closing token before and after it asks the semaphore; \<open>reserve_slot\<close>
  waits for either, so its result is that of the branch the runtime chose (\<open>None\<close> for the token).
\<close>

definition try_reserve_slot ::
  "(nat \<Rightarrow> token \<Rightarrow> bool) \<Rightarrow> (slot, try_acquire_error) result \<Rightarrow> native_pending \<Rightarrow> (pending_lease, net_error) result" where
  "try_reserve_slot is_closed acquired self =
     (if is_closed 0 (admission_closed self) then Inl (from_kind K_Closed)
      else try_bind (map_err (\<lambda>e. from_kind (case e of Acquire_Closed \<Rightarrow> K_Closed | NoPermits \<Rightarrow> K_PendingLimitReached))
                       acquired) (\<lambda>permit.
           if is_closed 1 (admission_closed self) then Inl (from_kind K_Closed) else Inr (pending_lease_new permit)))"

definition reserve_slot ::
  "(token \<Rightarrow> bool) \<Rightarrow> (slot, unit) result option \<Rightarrow> native_pending \<Rightarrow> (pending_lease, net_error) result" where
  "reserve_slot is_closed branch self =
     (case branch of
        None \<Rightarrow> Inl (from_kind K_Closed)
      | Some (Inl _) \<Rightarrow> Inl (from_kind K_Closed)
      | Some (Inr permit) \<Rightarrow>
          if is_closed (admission_closed self) then Inl (from_kind K_Closed) else Inr (pending_lease_new permit))"

section \<open>Registration\<close>

record request_handle =
  rh_core :: op_id
  rh_registration :: request_registration

definition register_deadline ::
  "u64 \<Rightarrow> instant \<Rightarrow> request_options \<Rightarrow> (u64 \<times> instant option, net_error) result" where
  "register_deadline tok now options =
     (case ro_response_timeout_origin options of
        Registered \<Rightarrow> try_bind (add_deadline now (ro_response_timeout options)) (\<lambda>d. Inr (tok, Some d))
      | Origin_Written \<Rightarrow> Inr (tok, None))"

text \<open>The checks of \<open>register\<close> before it binds the operation: the new token and the
  response deadline.\<close>

definition register_admit ::
  "clock \<Rightarrow> instant \<Rightarrow> bool \<Rightarrow> request \<Rightarrow> request_options \<Rightarrow> operation_control \<Rightarrow> native_pending
     \<Rightarrow> (u64 \<times> instant option, net_error) result" where
  "register_admit vclk now allocated request options core self =
     try_bind (request_options_validate vclk options) (\<lambda>_.
     try_bind (validate_metadata (req_metadata request)) (\<lambda>_.
     if oc_session_id core \<noteq> np_session_id self then Inl (from_kind K_Closed)
     else if np_poisoned self then Inl from_poison
     else if closed (np_state self) then Inl (from_kind K_Closed)
     else if get_entry (req_id request) self \<noteq> None then Inl (from_kind K_DuplicateRequestId)
     else
     try_bind (op_snapshot core) (\<lambda>snap.
     case op_result snap of
       Some (Inr _) \<Rightarrow> Inl (from_kind K_Closed)
     | Some (Inl e) \<Rightarrow> Inl e
     | None \<Rightarrow>
         if \<not> allocated then Inl (from_kind K_ResourceExhausted)
         else
         try_bind (ok_or (checked_add (next_token (np_state self)) 1) (from_kind K_ResourceExhausted)) (\<lambda>tok.
         case budget_earlier (absolute_budget core)
                (map_option (\<lambda>t. \<lparr>budget_at = t, budget_phase = Tp_Admission\<rparr>) (ro_registration_deadline options)) of
           Some b \<Rightarrow> if budget_at b \<le> now then Inl (budget_timeout_error b) else register_deadline tok now options
         | None \<Rightarrow> register_deadline tok now options))))"

definition register ::
  "clock \<Rightarrow> instant \<Rightarrow> op_env \<Rightarrow> bool \<Rightarrow> request \<Rightarrow> request_options \<Rightarrow> op_id \<Rightarrow> lease \<Rightarrow> channel
     \<Rightarrow> op_store \<Rightarrow> native_pending
     \<Rightarrow> op_store \<times> native_pending \<times> pend_effect list \<times> (request_handle, net_error) result" where
  "register vclk now env allocated request options core permit chan ops self =
     (case register_admit vclk now allocated request options (ops core) self of
        Inl e \<Rightarrow> (ops, self, [], Inl e)
      | Inr (tok, dl) \<Rightarrow>
          let i = req_id request;
              reg = \<lparr>reg_request_id = i, reg_session_id = np_session_id self, registered_at = now,
                     reg_token = tok, reg_pending = np_self self\<rparr>
          in (case bind_request env (np_self self) i tok (ops core) of
                (c, Inl e) \<Rightarrow> (ops(core := c), self, [], Inl e)
              | (c, Inr _) \<Rightarrow>
                  (ops(core := set_response_deadline dl c),
                   put_entry i \<lparr>pe_request = request, pe_core = core, pe_registration = reg,
                       pe_timing = \<lparr>rt_deadline = dl, rt_poisoned = False\<rparr>, pe_connection_id = None,
                       bound_at = None, pe_response_timeout = ro_response_timeout options,
                       timeout_origin = ro_response_timeout_origin options,
                       absolute_deadline = so_deadline (ro_send options), pe_grace_deadline = None,
                       grace_used = False, deferred_error = None, deferred_cause = None,
                       pe_response = chan, pe_permit = permit\<rparr>
                     (upd_pending (\<lambda>s. s\<lparr>next_token := tok\<rparr>) self),
                   [P_Changed], Inr \<lparr>rh_core = core, rh_registration = reg\<rparr>)))"

definition activate_connection :: "connection_id \<Rightarrow> native_pending \<Rightarrow> native_pending \<times> (unit, net_error) result" where
  "activate_connection con self =
     (if np_poisoned self then (self, Inl from_poison)
      else if closed (np_state self) then (self, Inl (from_kind K_Closed))
      else (upd_pending (\<lambda>s. s\<lparr>active := Some con\<rparr>) self, Inr ()))"

definition bind_connection ::
  "instant \<Rightarrow> request_registration \<Rightarrow> connection_id \<Rightarrow> native_pending \<Rightarrow> native_pending \<times> (bool, net_error) result" where
  "bind_connection now reg con self =
     (if \<not> belongs_to reg self then (self, Inl (from_kind K_InvalidInput))
      else if np_poisoned self then (self, Inl from_poison)
      else if active (np_state self) \<noteq> Some con then (self, Inl (from_kind K_NotConnected))
      else case matching_entry self reg of
             None \<Rightarrow> (self, Inr False)
           | Some e \<Rightarrow>
               if pe_connection_id e \<noteq> Some con
               then (put_entry (reg_request_id reg) (e\<lparr>bound_at := Some now, pe_connection_id := Some con\<rparr>) self, Inr True)
               else (self, Inr True))"

section \<open>Writing\<close>

definition mark_written ::
  "clock \<Rightarrow> op_env \<Rightarrow> request_registration \<Rightarrow> instant \<Rightarrow> op_store \<Rightarrow> native_pending
     \<Rightarrow> op_store \<times> native_pending \<times> pend_effect list \<times> (bool, net_error) result" where
  "mark_written now env reg written_at ops self =
     (if \<not> belongs_to reg self then (ops, self, [], Inl (from_kind K_InvalidInput))
      else if np_poisoned self then (ops, self, [], Inl from_poison)
      else case matching_entry self reg of
        None \<Rightarrow> (ops, self, [], Inr False)
      | Some e \<Rightarrow>
          let i = reg_request_id reg;
              (timing, established) =
                (if timeout_origin e = Origin_Written
                 then (case add_deadline written_at (pe_response_timeout e) of
                         Inl err \<Rightarrow> (pe_timing e, Inl err)
                       | Inr d \<Rightarrow> establish d (pe_timing e))
                 else (pe_timing e, Inr ()));
              e = e\<lparr>pe_timing := timing\<rparr>;
              self = put_entry i e self
          in (case try_bind established (\<lambda>_. entry_deadline ops e) of
                Inl err \<Rightarrow> (ops, self, [], Inl err)
              | Inr dl \<Rightarrow>
                  let extended = (if is_some_and dl (\<lambda>d. d \<le> now 0)
                                  then grace_deadline e (dispatches (np_state self)) (now 1) (grace self) False
                                  else None);
                      e = (case extended of Some d \<Rightarrow> enter_grace d timeout Cause_Expired e | None \<Rightarrow> e);
                      self = put_entry i e self
                  in (case entry_response_deadline e of
                        Inl err \<Rightarrow> (ops, self, [], Inl err)
                      | Inr rd \<Rightarrow>
                          let (core, written, pub) = select_written env (set_response_deadline rd (ops (pe_core e)));
                              ops = ops(pe_core e := core)
                          in (case (if \<not> written then selected_error core else None) of
                                Some err \<Rightarrow>
                                  (ops, remove_entry i self,
                                   completion_dispatch \<lparr>co_entry = e, co_publication = pub, co_response = Inl err\<rparr>
                                     @ [P_Changed], Inr written)
                              | None \<Rightarrow> (ops, self, map P_Op (dispatch pub) @ [P_Changed], Inr written)))))"

definition refresh_response_deadline ::
  "instant \<Rightarrow> op_env \<Rightarrow> request_id \<Rightarrow> u64 \<Rightarrow> op_store \<Rightarrow> native_pending
     \<Rightarrow> op_store \<times> native_pending \<times> pend_effect list \<times> (unit, net_error) result" where
  "refresh_response_deadline now env i tok ops self =
     (if np_poisoned self then (ops, self, [], Inl from_poison)
      else case get_entry i self of
        None \<Rightarrow> (ops, self, [], Inr ())
      | Some e \<Rightarrow>
          if reg_token (pe_registration e) \<noteq> tok then (ops, self, [], Inr ())
          else (case entry_deadline ops e of
            Inl err \<Rightarrow> (ops, self, [], Inl err)
          | Inr dl \<Rightarrow>
              if is_none_or dl (\<lambda>d. now < d) then (ops, self, [], Inr ())
              else (case grace_deadline e (dispatches (np_state self)) now (grace self) False of
                Some d \<Rightarrow>
                  (ops(pe_core e := set_response_deadline (Some d) (ops (pe_core e))),
                   put_entry i (enter_grace d timeout Cause_Expired e) self, [P_Changed], Inr ())
              | None \<Rightarrow>
                  (case entry_timeout_error ops e of
                     Inl err \<Rightarrow> (ops, self, [], Inl err)
                   | Inr err \<Rightarrow>
                       let (core, _, pub) = select_failure env (ops (pe_core e)) err
                                              (map_or Cause_Expired (\<lambda>c. c) (deferred_cause e))
                       in (ops(pe_core e := core), remove_entry i self,
                           completion_dispatch \<lparr>co_entry = e, co_publication = pub,
                             co_response = Inl (selected_error_or core err)\<rparr> @ [P_Changed], Inr ())))))"

definition pending_requeue ::
  "instant \<Rightarrow> op_env \<Rightarrow> request_registration \<Rightarrow> op_store \<Rightarrow> native_pending
     \<Rightarrow> op_store \<times> native_pending \<times> (bool, net_error) result" where
  "pending_requeue now env reg ops self =
     (if \<not> belongs_to reg self then (ops, self, Inl (from_kind K_InvalidInput))
      else if np_poisoned self then (ops, self, Inl from_poison)
      else case matching_entry self reg of
        None \<Rightarrow> (ops, self, Inr False)
      | Some e \<Rightarrow>
          if grace_deadline e (dispatches (np_state self)) now (grace self) True \<noteq> None then (ops, self, Inr False)
          else if deferred_error e \<noteq> None then (ops, self, Inr False)
          else let (core, ok) = op_requeue env (ops (pe_core e))
               in if \<not> ok then (ops(pe_core e := core), self, Inr False)
                  else (ops(pe_core e := core),
                        put_entry (reg_request_id reg) (e\<lparr>pe_connection_id := None, bound_at := None\<rparr>) self, Inr True))"

section \<open>Termination\<close>

definition pending_prepare_termination ::
  "op_env \<Rightarrow> request_id \<Rightarrow> u64 \<Rightarrow> net_error \<Rightarrow> task_end_cause \<Rightarrow> op_id option \<Rightarrow> op_store \<Rightarrow> native_pending
     \<Rightarrow> op_store \<times> native_pending \<times> deferred_termination" where
  "pending_prepare_termination env i tok err cause original ops self =
     (let deferred = deferred_default\<lparr>dt_retired_error := Some err\<rparr>
      in case (case get_entry i self of
                 Some e \<Rightarrow> if reg_token (pe_registration e) = tok then Some e else None
               | None \<Rightarrow> None) of
           None \<Rightarrow>
             (case original of
                Some o1 \<Rightarrow>
                  let (core, outcome, pub) = select_failure env (ops o1) (from_kind K_EngineDropped) Cause_Shutdown
                  in (ops(o1 := core), self, deferred\<lparr>dt_outcome := Some outcome, dt_publication := Some pub\<rparr>)
              | None \<Rightarrow> (ops, self, deferred\<lparr>dt_outcome := Some AlreadyFinished\<rparr>))
         | Some e \<Rightarrow>
             let (core, outcome, pub) = select_failure env (ops (pe_core e)) err cause
             in (ops(pe_core e := core), remove_entry i self,
                 deferred\<lparr>dt_outcome := Some outcome,
                   dt_completion := Some \<lparr>co_entry = e, co_publication = pub,
                     co_response = Inl (selected_error_or core err)\<rparr>\<rparr>))"

definition pending_terminate ::
  "op_env \<Rightarrow> request_id \<Rightarrow> u64 \<Rightarrow> net_error \<Rightarrow> task_end_cause \<Rightarrow> op_store \<Rightarrow> native_pending
     \<Rightarrow> op_store \<times> native_pending \<times> pend_effect list \<times> (termination_outcome, net_error) result" where
  "pending_terminate env i tok err cause ops self =
     (let (ops, self, deferred) = pending_prepare_termination env i tok err cause None ops self
      in (ops, self, deferred_dispatch deferred, ok_or (dt_outcome deferred) (from_kind K_Internal)))"

section \<open>Responses\<close>

definition matches_origin :: "incoming_message \<Rightarrow> native_pending \<Rightarrow> bool" where
  "matches_origin incoming self \<longleftrightarrow>
     in_client_id incoming = np_client_id self \<and> in_session_id incoming = np_session_id self"

text \<open>The end of \<open>complete_response\<close> and \<open>resolve\<close>: the operation decides whether the response wins.\<close>

definition settle_response ::
  "op_env \<Rightarrow> response \<Rightarrow> operation_control \<Rightarrow> operation_control \<times> bool \<times> operation_publication \<times> (response, net_error) result" where
  "settle_response env resp core =
     (let (core, won, pub) = select_response env core
      in (core, won, pub, if won then Inr resp else Inl (selected_error_or core (from_kind K_Closed))))"

definition complete_response ::
  "instant \<Rightarrow> op_env \<Rightarrow> request_id \<Rightarrow> incoming_message \<Rightarrow> op_store \<Rightarrow> native_pending
     \<Rightarrow> op_store \<times> native_pending \<times> pend_effect list \<times> (bool, net_error) result" where
  "complete_response now env i incoming ops self =
     (if \<not> matches_origin incoming self then (ops, self, [], Inr False)
      else case from_incoming i incoming of
        Inl err \<Rightarrow> (ops, self, [], Inl err)
      | Inr resp \<Rightarrow>
          if np_poisoned self then (ops, self, [], Inl from_poison)
          else if active (np_state self) \<noteq> Some (in_connection_id incoming) then (ops, self, [], Inr False)
          else (case get_entry i self of
            None \<Rightarrow> (ops, self, [], Inr False)
          | Some e \<Rightarrow>
              if pe_connection_id e \<noteq> Some (in_connection_id incoming) then (ops, self, [], Inr False)
              else (case entry_deadline ops e of
                Inl err \<Rightarrow> (ops, self, [], Inl err)
              | Inr dl \<Rightarrow>
                  (case (if is_some_and dl (\<lambda>d. d \<le> now)
                         then (case entry_timeout_error ops e of
                                 Inl err \<Rightarrow> Inl err
                               | Inr err \<Rightarrow>
                                   let (core, _, pub) = select_failure env (ops (pe_core e)) err Cause_Expired
                                   in Inr (core, False, pub, Inl (selected_error_or core err)))
                         else Inr (settle_response env resp (ops (pe_core e)))) of
                     Inl err \<Rightarrow> (ops, self, [], Inl err)
                   | Inr (core, won, pub, result) \<Rightarrow>
                       (ops(pe_core e := core), remove_entry i self,
                        completion_dispatch \<lparr>co_entry = e, co_publication = pub, co_response = result\<rparr> @ [P_Changed],
                        Inr won)))))"

text \<open>The latest instant at which a response received now can still be claimed by some entry of the
  connection; the loop of \<open>register_dispatch\<close>.\<close>

fun dispatch_expiry ::
  "instant \<Rightarrow> duration \<Rightarrow> connection_id \<Rightarrow> (request_id \<times> pending_entry) list \<Rightarrow> instant option
     \<Rightarrow> (instant option, net_error) result" where
  "dispatch_expiry now g con [] best = Inr best"
| "dispatch_expiry now g con ((_, e) # rest) best =
     (if pe_connection_id e \<noteq> Some con then dispatch_expiry now g con rest best
      else
        try_bind (timing_deadline (pe_timing e)) (\<lambda>rd.
        try_bind (case rd of Some d \<Rightarrow> Inr d | None \<Rightarrow> add_deadline now (pe_response_timeout e)) (\<lambda>base.
        try_bind (add_deadline base g) (\<lambda>extended.
          dispatch_expiry now g con rest
            (case earliest (Some extended) (absolute_deadline e) of
               Some end1 \<Rightarrow> if now < end1 then Some (map_or end1 (\<lambda>prior. max prior end1) best) else best
             | None \<Rightarrow> best)))))"

definition register_dispatch ::
  "instant \<Rightarrow> bool \<Rightarrow> incoming_message \<Rightarrow> native_pending
     \<Rightarrow> incoming_message \<times> native_pending \<times> pend_effect list \<times> (unit, net_error) result" where
  "register_dispatch now allocated incoming self =
     (if incoming_message_of incoming = None then (incoming, self, [], Inr ())
      else case in_dispatch incoming of
        Some identity \<Rightarrow>
          (incoming, self, [], if disp_pending identity = np_self self then Inr () else Inl (from_kind K_InvalidInput))
      | None \<Rightarrow>
          if \<not> matches_origin incoming self then (incoming, self, [], Inl (from_kind K_InvalidInput))
          else if np_poisoned self then (incoming, self, [], Inl from_poison)
          else if closed (np_state self) \<or> active (np_state self) \<noteq> Some (in_connection_id incoming)
          then (incoming, self, [], Inl (from_kind K_Closed))
          else
            let self = upd_pending (\<lambda>s. s\<lparr>dispatches := filter (\<lambda>(_, r). now < expires_at r) (dispatches s)\<rparr>) self;
                st = np_state self
            in (case dispatch_expiry now (grace self) (in_connection_id incoming) (entries st) None of
                  Inl err \<Rightarrow> (incoming, self, [], Inl err)
                | Inr None \<Rightarrow> (incoming, self, [], Inr ())
                | Inr (Some ends) \<Rightarrow>
                    if max_dispatches self \<le> length (dispatches st)
                    then (incoming, self, [], Inl (with_stage (from_kind K_CallbackOverflow) St_Dispatch))
                    else if \<not> allocated then (incoming, self, [], Inl (from_kind K_ResourceExhausted))
                    else (case checked_add (next_dispatch st) 1 of
                            None \<Rightarrow> (incoming, self, [], Inl (from_kind K_ResourceExhausted))
                          | Some d \<Rightarrow>
                              (bind_dispatch incoming (np_self self) d,
                               upd_pending (\<lambda>s. s\<lparr>next_dispatch := d,
                                 dispatches := AList.update d \<lparr>dr_connection_id = in_connection_id incoming,
                                   token_watermark = next_token s, received_at = now, expires_at = ends\<rparr> (dispatches s)\<rparr>) self,
                               [P_Changed], Inr ()))))"

datatype resolve_outcome = Resolved | StaleOrFinished | ForeignOrigin

text \<open>
  \<open>resolve\<close>: \<open>resolve_check\<close> is its sequence of refusals under the lock; it yields the entry and the
  response deadline to set for a response that exercises the grace window.
\<close>

definition resolve_check ::
  "instant \<Rightarrow> op_store \<Rightarrow> request_registration \<Rightarrow> incoming_message \<Rightarrow> dispatch_record \<Rightarrow> native_pending
     \<Rightarrow> (pending_entry \<times> instant option option, (resolve_outcome, net_error) result) result" where
  "resolve_check now ops reg incoming rec self =
     (if expires_at rec \<le> now then Inl (Inr StaleOrFinished)
      else if dr_connection_id rec \<noteq> in_connection_id incoming \<or> token_watermark rec < reg_token reg
      then Inl (Inr ForeignOrigin)
      else case get_entry (reg_request_id reg) self of
        None \<Rightarrow> Inl (Inr StaleOrFinished)
      | Some e \<Rightarrow>
          if reg_token (pe_registration e) \<noteq> reg_token reg then Inl (Inr StaleOrFinished)
          else if pe_connection_id e \<noteq> Some (in_connection_id incoming) then Inl (Inr ForeignOrigin)
          else if is_none_or (bound_at e) (\<lambda>b. received_at rec < b) then Inl (Inr ForeignOrigin)
          else if is_some_and (absolute_deadline e) (\<lambda>d. d \<le> now) then Inl (Inr StaleOrFinished)
          else if active (np_state self) \<noteq> pe_connection_id e \<and> deferred_error e = None then Inl (Inr StaleOrFinished)
          else (case entry_deadline ops e of
            Inl err \<Rightarrow> Inl (Inl err)
          | Inr dl \<Rightarrow>
              if is_some_and dl (\<lambda>d. d \<le> now)
              then (case timing_deadline (pe_timing e) of
                      Inl err \<Rightarrow> Inl (Inl err)
                    | Inr rd \<Rightarrow>
                        let eligible = is_some_and rd (\<lambda>d. received_at rec \<le> d);
                            response_bound = Option.bind rd (\<lambda>d. instant_checked_add d (grace self));
                            limit = earliest (Some (expires_at rec)) response_bound;
                            bounded = earliest limit (absolute_deadline e)
                        in if \<not> eligible \<or> grace_used e \<or> is_none_or bounded (\<lambda>d. d \<le> now)
                           then Inl (Inr StaleOrFinished)
                           else Inr (e, Some limit))
              else Inr (e, None)))"

definition pending_resolve ::
  "instant \<Rightarrow> op_env \<Rightarrow> request_registration \<Rightarrow> incoming_message \<Rightarrow> op_store \<Rightarrow> native_pending
     \<Rightarrow> op_store \<times> native_pending \<times> pend_effect list \<times> (resolve_outcome, net_error) result" where
  "pending_resolve now env reg incoming ops self =
     (if incoming_message_of incoming = None
      then (ops, self, [], Inl (input ''incoming'' ''control frames cannot complete a request''))
      else if \<not> belongs_to reg self \<or> \<not> matches_origin incoming self then (ops, self, [], Inr ForeignOrigin)
      else case in_dispatch incoming of
        None \<Rightarrow> (ops, self, [], Inr ForeignOrigin)
      | Some identity \<Rightarrow>
          if disp_pending identity \<noteq> np_self self then (ops, self, [], Inr ForeignOrigin)
          else (case from_incoming (reg_request_id reg) incoming of
            Inl err \<Rightarrow> (ops, self, [], Inl err)
          | Inr resp \<Rightarrow>
              if np_poisoned self then (ops, self, [], Inl from_poison)
              else (case map_of (dispatches (np_state self)) (disp_id identity) of
                None \<Rightarrow> (ops, self, [], Inr StaleOrFinished)
              | Some rec \<Rightarrow>
                  (case resolve_check now ops reg incoming rec self of
                     Inl r \<Rightarrow> (ops, self, [], r)
                   | Inr (e, extended) \<Rightarrow>
                       let core = (case extended of None \<Rightarrow> ops (pe_core e)
                                   | Some limit \<Rightarrow> set_response_deadline limit (ops (pe_core e)));
                           (core, won, pub, result) = settle_response env resp core;
                           self = upd_pending (\<lambda>s. s\<lparr>dispatches := AList.delete (disp_id identity) (dispatches s)\<rparr>)
                                    (remove_entry (reg_request_id reg) self)
                       in (ops(pe_core e := core), self,
                           completion_dispatch \<lparr>co_entry = e, co_publication = pub, co_response = result\<rparr> @ [P_Changed],
                           Inr (if won then Resolved else StaleOrFinished))))))"

text \<open>\<open>ResponseResolver::resolve\<close> of \<open>src/api/ws/routing.rs\<close>: the resolver's table may be gone.\<close>

definition resolver_resolve ::
  "instant \<Rightarrow> op_env \<Rightarrow> table_id \<Rightarrow> native_pending option \<Rightarrow> request_registration \<Rightarrow> incoming_message \<Rightarrow> op_store
     \<Rightarrow> op_store \<times> native_pending option \<times> pend_effect list \<times> (resolve_outcome, net_error) result" where
  "resolver_resolve now env table upgraded reg incoming ops =
     (if incoming_message_of incoming = None
      then (ops, upgraded, [], Inl (input ''incoming'' ''control frames cannot complete a request''))
      else if table \<noteq> reg_pending reg then (ops, upgraded, [], Inr ForeignOrigin)
      else case upgraded of
        None \<Rightarrow> (ops, None, [], Inr StaleOrFinished)
      | Some p \<Rightarrow> (let (ops, p, effects, r) = pending_resolve now env reg incoming ops p in (ops, Some p, effects, r)))"

definition discard_dispatch ::
  "incoming_message \<Rightarrow> native_pending \<Rightarrow> native_pending \<times> pend_effect list \<times> (unit, net_error) result" where
  "discard_dispatch incoming self =
     (if \<not> matches_origin incoming self then (self, [], Inl (from_kind K_InvalidInput))
      else case in_dispatch incoming of
        None \<Rightarrow> (self, [], Inr ())
      | Some identity \<Rightarrow>
          if disp_pending identity \<noteq> np_self self then (self, [], Inl (from_kind K_InvalidInput))
          else if np_poisoned self then (self, [], Inl from_poison)
          else if is_some_and (map_of (dispatches (np_state self)) (disp_id identity))
                    (\<lambda>rec. dr_connection_id rec \<noteq> in_connection_id incoming)
          then (self, [], Inl (from_kind K_InvalidInput))
          else (upd_pending (\<lambda>s. s\<lparr>dispatches := AList.delete (disp_id identity) (dispatches s)\<rparr>) self, [P_Changed], Inr ()))"

section \<open>Ends of connections and sessions\<close>

text \<open>
  The loops settle one entry after the other under the lock and dispatch the completions after it.
  \<open>fail_entry\<close> settles an entry with the given failure, or with the failure it has deferred.
\<close>

definition fail_entry ::
  "op_env \<Rightarrow> net_error \<Rightarrow> task_end_cause \<Rightarrow> pending_entry \<Rightarrow> op_store \<Rightarrow> op_store \<times> completion" where
  "fail_entry env err cause e ops =
     (let selected = map_or err (\<lambda>x. x) (deferred_error e);
          (core, _, pub) = select_failure env (ops (pe_core e)) selected (map_or cause (\<lambda>c. c) (deferred_cause e))
      in (ops(pe_core e := core),
          \<lparr>co_entry = e, co_publication = pub, co_response = Inl (selected_error_or core selected)\<rparr>))"

definition fail_connection_entry ::
  "(request_id \<Rightarrow> clock) \<Rightarrow> (op_id \<Rightarrow> op_env) \<Rightarrow> net_error \<Rightarrow> request_id
     \<Rightarrow> op_store \<times> native_pending \<times> completion list \<Rightarrow> op_store \<times> native_pending \<times> completion list" where
  "fail_connection_entry now env err i = (\<lambda>(ops, self, cs).
     case get_entry i self of
       None \<Rightarrow> (ops, self, cs)
     | Some e \<Rightarrow>
         let g = grace_deadline e (dispatches (np_state self)) (now i 0) (grace self) True
         in if is_some_and (pe_grace_deadline e) (\<lambda>d. now i 1 < d) \<and> deferred_error e \<noteq> None then (ops, self, cs)
            else (case (if grace_used e then None else g) of
                    Some d \<Rightarrow>
                      (ops(pe_core e := set_response_deadline (Some d) (ops (pe_core e))),
                       put_entry i (enter_grace d err Cause_Disconnected e) self, cs)
                  | None \<Rightarrow>
                      (let (ops, c) = fail_entry (env (pe_core e)) err Cause_Disconnected e ops
                       in (ops, remove_entry i self, cs @ [c]))))"

definition fail_connection ::
  "(request_id \<Rightarrow> clock) \<Rightarrow> (op_id \<Rightarrow> op_env) \<Rightarrow> bool \<Rightarrow> connection_id \<Rightarrow> net_error \<Rightarrow> op_store \<Rightarrow> native_pending
     \<Rightarrow> op_store \<times> native_pending \<times> pend_effect list \<times> (unit, net_error) result" where
  "fail_connection now env allocated con err ops self =
     (if np_poisoned self then (ops, self, [], Inl from_poison)
      else
        let self = upd_pending (\<lambda>s. if active s = Some con then s\<lparr>active := None\<rparr> else s) self;
            ids = map fst (filter (\<lambda>(_, e). pe_connection_id e = Some con) (entries (np_state self)))
        in if \<not> allocated then (ops, self, [], Inl (from_kind K_ResourceExhausted))
           else let (ops, self, cs) = fold (fail_connection_entry now env err) ids (ops, self, [])
                in (ops, self, concat (map completion_dispatch cs) @ [P_Changed], Inr ()))"

fun fail_all ::
  "(op_id \<Rightarrow> op_env) \<Rightarrow> net_error \<Rightarrow> task_end_cause \<Rightarrow> (request_id \<times> pending_entry) list \<Rightarrow> op_store
     \<Rightarrow> op_store \<times> completion list" where
  "fail_all env err cause [] ops = (ops, [])"
| "fail_all env err cause ((_, e) # rest) ops =
     (let (ops, c) = fail_entry (env (pe_core e)) err cause e ops;
          (ops, cs) = fail_all env err cause rest ops
      in (ops, c # cs))"

definition pending_close ::
  "(op_id \<Rightarrow> op_env) \<Rightarrow> net_error \<Rightarrow> task_end_cause \<Rightarrow> op_store \<Rightarrow> native_pending
     \<Rightarrow> op_store \<times> native_pending \<times> pend_effect list \<times> (unit, net_error) result" where
  "pending_close env err cause ops self =
     (if np_poisoned self then (ops, self, [], Inl from_poison)
      else let (ops, cs) = fail_all env err cause (entries (np_state self)) ops
           in (ops, upd_pending (\<lambda>s. s\<lparr>closed := True, active := None, entries := [], dispatches := []\<rparr>) self,
               P_CloseAdmission (admission_closed self) # concat (map completion_dispatch cs) @ [P_Changed], Inr ()))"

definition retained :: "instant \<Rightarrow> pending_entry \<Rightarrow> bool" where
  "retained now e \<longleftrightarrow> deferred_error e \<noteq> None \<and> is_some_and (pe_grace_deadline e) (\<lambda>d. now < d)
     \<and> is_none_or (absolute_deadline e) (\<lambda>d. now < d)"

definition close_disconnected ::
  "instant \<Rightarrow> (op_id \<Rightarrow> op_env) \<Rightarrow> bool \<Rightarrow> net_error \<Rightarrow> op_store \<Rightarrow> native_pending
     \<Rightarrow> op_store \<times> native_pending \<times> pend_effect list \<times> (unit, net_error) result" where
  "close_disconnected now env allocated err ops self =
     (if np_poisoned self then (ops, self, [], Inl from_poison)
      else if \<not> allocated then (ops, self, [], Inl (from_kind K_ResourceExhausted))
      else
        let es = entries (np_state self);
            (ops, cs) = fail_all env err Cause_Disconnected (filter (\<lambda>(_, e). \<not> retained now e) es) ops;
            kept = filter (\<lambda>(_, e). retained now e) es
        in (ops, upd_pending (\<lambda>s. s\<lparr>closed := True, active := None, entries := kept,
                   dispatches := (if kept = [] then [] else dispatches s)\<rparr>) self,
            P_CloseAdmission (admission_closed self) # concat (map completion_dispatch cs) @ [P_Changed], Inr ()))"

text \<open>\<open>Drop for NativePending\<close>: deferred failures are not consulted.\<close>

fun drop_all ::
  "(op_id \<Rightarrow> op_env) \<Rightarrow> (request_id \<times> pending_entry) list \<Rightarrow> op_store \<Rightarrow> op_store \<times> completion list" where
  "drop_all env [] ops = (ops, [])"
| "drop_all env ((_, e) # rest) ops =
     (let (core, _, pub) = select_failure (env (pe_core e)) (ops (pe_core e)) (from_kind K_EngineDropped) Cause_Shutdown;
          (ops, cs) = drop_all env rest (ops(pe_core e := core))
      in (ops, \<lparr>co_entry = e, co_publication = pub,
                co_response = Inl (selected_error_or core (from_kind K_EngineDropped))\<rparr> # cs))"

definition pending_drop ::
  "(op_id \<Rightarrow> op_env) \<Rightarrow> op_store \<Rightarrow> native_pending \<Rightarrow> op_store \<times> native_pending \<times> pend_effect list" where
  "pending_drop env ops self =
     (let (ops, cs) = drop_all env (entries (np_state self)) ops
      in (ops, upd_pending (\<lambda>s. s\<lparr>entries := []\<rparr>) self,
          P_CloseAdmission (admission_closed self) # P_Changed # concat (map completion_dispatch cs)))"

section \<open>Timers\<close>

fun entries_deadline ::
  "op_store \<Rightarrow> (request_id \<times> pending_entry) list \<Rightarrow> instant option \<Rightarrow> (instant option, net_error) result" where
  "entries_deadline ops [] best = Inr best"
| "entries_deadline ops ((_, e) # rest) best =
     try_bind (entry_deadline ops e) (\<lambda>d. entries_deadline ops rest (earliest best d))"

definition list_min :: "instant list \<Rightarrow> instant option" where
  "list_min xs = (case xs of [] \<Rightarrow> None | y # ys \<Rightarrow> Some (fold min ys y))"

definition next_deadline ::
  "op_store \<Rightarrow> native_pending \<Rightarrow> native_pending \<times> (bool \<times> instant option, net_error) result" where
  "next_deadline ops self =
     (if np_poisoned self then (self, Inl from_poison)
      else if closed (np_state self) \<and> entries (np_state self) = []
      then (upd_pending (\<lambda>s. s\<lparr>dispatches := []\<rparr>) self, Inr (True, None))
      else (self, try_bind (entries_deadline ops (entries (np_state self))
                    (list_min (map (\<lambda>(_, r). expires_at r) (dispatches (np_state self)))))
                  (\<lambda>d. Inr (closed (np_state self) \<and> entries (np_state self) = [], d))))"

fun due_ids ::
  "op_store \<Rightarrow> instant \<Rightarrow> (request_id \<times> pending_entry) list \<Rightarrow> (request_id list, net_error) result" where
  "due_ids ops now [] = Inr []"
| "due_ids ops now ((i, e) # rest) =
     try_bind (entry_deadline ops e) (\<lambda>d.
     try_bind (due_ids ops now rest) (\<lambda>ids. Inr (if is_some_and d (\<lambda>d. d \<le> now) then i # ids else ids)))"

fun expire_loop ::
  "instant \<Rightarrow> (op_id \<Rightarrow> op_env) \<Rightarrow> request_id list \<Rightarrow> op_store \<Rightarrow> native_pending \<Rightarrow> completion list
     \<Rightarrow> op_store \<times> native_pending \<times> (completion list, net_error) result" where
  "expire_loop now env [] ops self cs = (ops, self, Inr cs)"
| "expire_loop now env (i # ids) ops self cs =
     (case get_entry i self of
        None \<Rightarrow> expire_loop now env ids ops self cs
      | Some e \<Rightarrow>
          (case (if grace_used e then None
                 else grace_deadline e (dispatches (np_state self)) now (grace self) False) of
             Some d \<Rightarrow>
               expire_loop now env ids (ops(pe_core e := set_response_deadline (Some d) (ops (pe_core e))))
                 (put_entry i (enter_grace d timeout Cause_Expired e) self) cs
           | None \<Rightarrow>
               (case entry_timeout_error ops e of
                  Inl err \<Rightarrow> (ops, self, Inl err)
                | Inr err \<Rightarrow>
                    let (core, _, pub) = select_failure (env (pe_core e)) (ops (pe_core e)) err
                                           (map_or Cause_Expired (\<lambda>c. c) (deferred_cause e))
                    in expire_loop now env ids (ops(pe_core e := core)) (remove_entry i self)
                         (cs @ [\<lparr>co_entry = e, co_publication = pub,
                                 co_response = Inl (selected_error_or core err)\<rparr>]))))"

definition expire_due ::
  "instant \<Rightarrow> (op_id \<Rightarrow> op_env) \<Rightarrow> bool \<Rightarrow> op_store \<Rightarrow> native_pending
     \<Rightarrow> op_store \<times> native_pending \<times> pend_effect list \<times> (unit, net_error) result" where
  "expire_due now env allocated ops self =
     (if np_poisoned self then (ops, self, [], Inl from_poison)
      else
        let self = upd_pending (\<lambda>s. s\<lparr>dispatches := filter (\<lambda>(_, r). now < expires_at r) (dispatches s)\<rparr>) self
        in (case due_ids ops now (entries (np_state self)) of
              Inl err \<Rightarrow> (ops, self, [], Inl err)
            | Inr ids \<Rightarrow>
                if \<not> allocated then (ops, self, [], Inl (from_kind K_ResourceExhausted))
                else (case expire_loop now env ids ops self [] of
                        (ops, self, Inl err) \<Rightarrow> (ops, self, [], Inl err)
                      | (ops, self, Inr cs) \<Rightarrow> (ops, self, concat (map completion_dispatch cs), Inr ()))))"

text \<open>One round of the timer task: it returns, or waits for a change and for the deadline, if any.\<close>

datatype timer_next = Timer_Return | Timer_Wait "instant option"

definition timer_round ::
  "instant \<Rightarrow> (op_id \<Rightarrow> op_env) \<Rightarrow> bool \<Rightarrow> bool \<Rightarrow> op_store \<Rightarrow> native_pending option
     \<Rightarrow> op_store \<times> native_pending option \<times> pend_effect list \<times> timer_next" where
  "timer_round now env allocated shutdown ops upgraded =
     (case upgraded of
        None \<Rightarrow> (ops, None, [], Timer_Return)
      | Some self \<Rightarrow>
          if shutdown
          then (let (ops, self, effects, _) = pending_close env (from_kind K_Closed) Cause_Shutdown ops self
                in (ops, Some self, effects, Timer_Return))
          else (case expire_due now env allocated ops self of
                  (ops, self, effects, Inl _) \<Rightarrow> (ops, Some self, effects, Timer_Return)
                | (ops, self, effects, Inr _) \<Rightarrow>
                    (case next_deadline ops self of
                       (self, Inl _) \<Rightarrow> (ops, Some self, effects, Timer_Return)
                     | (self, Inr (done, d)) \<Rightarrow>
                         (ops, Some self, effects, if done then Timer_Return else Timer_Wait d))))"

definition timer_retirement_drop ::
  "(op_id \<Rightarrow> op_env) \<Rightarrow> bool \<Rightarrow> op_store \<Rightarrow> native_pending option
     \<Rightarrow> op_store \<times> native_pending option \<times> pend_effect list" where
  "timer_retirement_drop env shutdown ops upgraded =
     (case upgraded of
        None \<Rightarrow> (ops, None, [])
      | Some self \<Rightarrow>
          (let (ops, self, effects, _) = pending_close env
                 (from_kind (if shutdown then K_Closed else K_EngineDropped)) Cause_Shutdown ops self
           in (ops, Some self, effects)))"

section \<open>Snapshots\<close>

record request_snapshot =
  rs_operation_id :: operation_id
  rs_request_id :: request_id
  rs_session_id :: session_id
  rs_connection_id :: "connection_id option"
  rs_registered_at :: instant
  rs_response_deadline :: "instant option"
  rs_metadata :: metadata
  rs_operation :: operation_snapshot

fun snapshot_entries ::
  "op_store \<Rightarrow> session_id \<Rightarrow> (request_id \<times> pending_entry) list \<Rightarrow> (request_snapshot list, net_error) result" where
  "snapshot_entries ops sess [] = Inr []"
| "snapshot_entries ops sess ((_, e) # rest) =
     try_bind (timing_deadline (pe_timing e)) (\<lambda>d.
     try_bind (op_snapshot (ops (pe_core e))) (\<lambda>snap.
     try_bind (snapshot_entries ops sess rest) (\<lambda>xs.
       Inr (\<lparr>rs_operation_id = oc_id (ops (pe_core e)), rs_request_id = req_id (pe_request e),
             rs_session_id = sess, rs_connection_id = pe_connection_id e,
             rs_registered_at = registered_at (pe_registration e), rs_response_deadline = d,
             rs_metadata = req_metadata (pe_request e), rs_operation = snap\<rparr> # xs))))"

definition pending_snapshot ::
  "bool \<Rightarrow> op_store \<Rightarrow> native_pending \<Rightarrow> (request_snapshot list, net_error) result" where
  "pending_snapshot allocated ops self =
     (if np_poisoned self then Inl from_poison
      else if \<not> allocated then Inl (from_kind K_ResourceExhausted)
      else snapshot_entries ops (np_session_id self) (entries (np_state self)))"

section \<open>Operations through their table\<close>

text \<open>
  The methods of an operation that reach its pending table, in the world of all operations and of
  the tables that are still alive.
\<close>

type_synonym tables = "table_id \<Rightarrow> native_pending option"

definition op_terminate ::
  "op_env \<Rightarrow> op_id \<Rightarrow> net_error \<Rightarrow> task_end_cause \<Rightarrow> op_store \<Rightarrow> tables
     \<Rightarrow> op_store \<times> tables \<times> pend_effect list \<times> (termination_outcome, net_error) result" where
  "op_terminate env o1 err cause ops tabs =
     (let settle = (let (core, outcome, pub) = select_failure env (ops o1) err cause
                    in (ops(o1 := core), tabs, map P_Op (dispatch pub), Inr outcome))
      in case os_pending (op_state (ops o1)) of
           None \<Rightarrow> settle
         | Some identity \<Rightarrow>
             (case tabs (pi_table identity) of
                None \<Rightarrow> settle
              | Some p \<Rightarrow>
                  (let (ops, p, effects, r) = pending_terminate env (pi_id identity) (pi_token identity) err cause ops p
                   in (ops, tabs(pi_table identity := Some p), effects, r))))"

definition op_cancel ::
  "op_env \<Rightarrow> op_id \<Rightarrow> op_store \<Rightarrow> tables
     \<Rightarrow> op_store \<times> tables \<times> pend_effect list \<times> (termination_outcome, net_error) result" where
  "op_cancel env o1 = op_terminate env o1 (from_kind K_Cancelled) Cause_Cancelled"

definition op_expire ::
  "op_env \<Rightarrow> op_id \<Rightarrow> op_store \<Rightarrow> tables
     \<Rightarrow> op_store \<times> tables \<times> pend_effect list \<times> (termination_outcome, net_error) result" where
  "op_expire env o1 ops = op_terminate env o1 (deadline_error (ops o1)) Cause_Expired ops"

definition op_prepare_termination ::
  "op_env \<Rightarrow> op_id \<Rightarrow> net_error \<Rightarrow> task_end_cause \<Rightarrow> op_store \<Rightarrow> tables
     \<Rightarrow> op_store \<times> tables \<times> deferred_termination" where
  "op_prepare_termination env o1 err cause ops tabs =
     (case os_pending (op_state (ops o1)) of
        Some identity \<Rightarrow>
          (case tabs (pi_table identity) of
             Some p \<Rightarrow>
               (let (ops, p, deferred) = pending_prepare_termination env (pi_id identity) (pi_token identity) err cause
                                           (Some o1) ops p
                in (ops, tabs(pi_table identity := Some p), deferred\<lparr>dt_pending := Some (pi_table identity)\<rparr>))
           | None \<Rightarrow>
               (let (core, _, pub) = select_failure env (ops o1) (from_kind K_EngineDropped) Cause_Shutdown
                in (ops(o1 := core), tabs,
                    deferred_default\<lparr>dt_publication := Some pub, dt_retired_error := Some err\<rparr>)))
      | None \<Rightarrow>
          (let (core, outcome, pub) = select_failure env (ops o1) err cause
           in (ops(o1 := core), tabs, deferred_default\<lparr>dt_outcome := Some outcome, dt_publication := Some pub\<rparr>)))"

definition start_data_write ::
  "instant \<Rightarrow> instant \<Rightarrow> op_env \<Rightarrow> op_env \<Rightarrow> bool \<Rightarrow> op_id \<Rightarrow> op_store \<Rightarrow> tables
     \<Rightarrow> op_store \<times> tables \<times> pend_effect list \<times> (bool, net_error) result" where
  "start_data_write now0 now1 env0 env1 continuation o1 ops tabs =
     (let s = op_state (ops o1);
          due = (if op_result (snapshot s) = None \<and> is_some_and (response_deadline s) (\<lambda>d. d \<le> now0)
                 then os_pending s else None);
          refreshed =
            (case due of
               None \<Rightarrow> (ops, tabs, [], Inr ())
             | Some identity \<Rightarrow>
                 (case tabs (pi_table identity) of
                    None \<Rightarrow> (ops, tabs, [], Inl (from_kind K_EngineDropped))
                  | Some p \<Rightarrow>
                      (let (ops, p, effects, r) =
                         refresh_response_deadline now1 env0 (pi_id identity) (pi_token identity) ops p
                       in (ops, tabs(pi_table identity := Some p), effects, r))))
      in case refreshed of
           (ops, tabs, effects, Inl err) \<Rightarrow> (ops, tabs, effects, Inl err)
         | (ops, tabs, effects, Inr _) \<Rightarrow>
             (let (core, e2, r) = start_data_write_locked env1 continuation (ops o1)
              in (ops(o1 := core), tabs, effects @ map P_Op e2, r)))"

text \<open>\<open>RequestHandle\<close>: it terminates only its own registration.\<close>

definition handle_terminate ::
  "op_env \<Rightarrow> request_handle \<Rightarrow> net_error \<Rightarrow> task_end_cause \<Rightarrow> op_store \<Rightarrow> tables
     \<Rightarrow> op_store \<times> tables \<times> pend_effect list \<times> (termination_outcome, net_error) result" where
  "handle_terminate env h err cause ops tabs =
     (let reg = rh_registration h
      in case tabs (reg_pending reg) of
           Some p \<Rightarrow>
             (let (ops, p, effects, r) = pending_terminate env (reg_request_id reg) (reg_token reg) err cause ops p
              in (ops, tabs(reg_pending reg := Some p), effects, r))
         | None \<Rightarrow>
             (ops, tabs, [], case op_snapshot (ops (rh_core h)) of
                Inl e \<Rightarrow> Inl e
              | Inr snap \<Rightarrow> if is_some (op_result snap) then Inr AlreadyFinished else Inl (from_kind K_EngineDropped)))"

definition handle_cancel ::
  "op_env \<Rightarrow> request_handle \<Rightarrow> op_store \<Rightarrow> tables
     \<Rightarrow> op_store \<times> tables \<times> pend_effect list \<times> (termination_outcome, net_error) result" where
  "handle_cancel env h = handle_terminate env h (from_kind K_Cancelled) Cause_Cancelled"

definition handle_expire ::
  "op_env \<Rightarrow> request_handle \<Rightarrow> op_store \<Rightarrow> tables
     \<Rightarrow> op_store \<times> tables \<times> pend_effect list \<times> (termination_outcome, net_error) result" where
  "handle_expire env h = handle_terminate env h (from_kind K_TimedOut) Cause_Expired"

definition expire_operation_attempt ::
  "op_env \<Rightarrow> request_handle \<Rightarrow> op_store \<Rightarrow> tables \<Rightarrow> op_store \<times> tables \<times> pend_effect list" where
  "expire_operation_attempt env h ops tabs =
     (let (ops, tabs, deferred) = op_prepare_termination env (rh_core h) (deadline_error (ops (rh_core h))) Cause_Expired ops tabs
      in (ops, tabs, deferred_dispatch deferred))"

end
