(* ===== verification/Assoc_Lists.thy ===== *)
theory Assoc_Lists
  imports Main "HOL-Library.AList" "HOL-Library.Multiset"
begin

text \<open>
  Facts on association lists, multisets and minima that the request table and the write queue share:
  the maps of the source are association lists, and what they hold is accounted for as a multiset.
\<close>

lemma mset_delete:
  assumes "distinct (map fst xs)" and "map_of xs i = Some e"
  shows "mset (map f xs) = add_mset (f (i, e)) (mset (map f (AList.delete i xs)))"
  using assms
proof (induction xs)
  case (Cons x xs)
  show ?case
  proof (cases "fst x = i")
    case True
    then have "AList.delete i xs = xs"
      using Cons.prems by (auto simp: AList.delete_eq filter_id_conv intro: rev_image_eqI)
    then show ?thesis using True Cons.prems by (cases x) (auto simp: AList.delete_eq)
  next
    case False
    then show ?thesis using Cons by (cases x) (auto simp: AList.delete_eq)
  qed
qed simp

lemma mset_update:
  assumes "distinct (map fst xs)" and "map_of xs i = Some e" and "f (i, e') = f (i, e)"
  shows "mset (map f (AList.update i e' xs)) = mset (map f xs)"
  using assms
proof (induction xs)
  case (Cons x xs)
  then show ?case by (cases x) auto
qed simp

lemma set_update:
  assumes "distinct (map fst xs)"
  shows "set (AList.update i e xs) = insert (i, e) {p \<in> set xs. fst p \<noteq> i}"
  using assms
proof (induction xs)
  case (Cons x xs)
  show ?case
  proof (cases "fst x = i")
    case True
    then have "AList.update i e (x # xs) = (i, e) # xs" by (cases x) simp
    moreover have "{p \<in> set (x # xs). fst p \<noteq> i} = set xs" using True Cons.prems by (auto intro: rev_image_eqI)
    ultimately show ?thesis by simp
  next
    case False
    then have "AList.update i e (x # xs) = x # AList.update i e xs" by (cases x) simp
    then show ?thesis using False Cons by auto
  qed
qed simp

lemma set_delete: "set (AList.delete i xs) = {p \<in> set xs. fst p \<noteq> i}"
  by (auto simp: AList.delete_eq)

lemma update_new: "i \<notin> fst ` set xs \<Longrightarrow> AList.update i e xs = xs @ [(i, e)]"
  by (induction xs) auto

lemma update_same: "map_of xs i = Some e \<Longrightarrow> AList.update i e xs = xs"
  by (induction xs) (auto split: if_splits)

lemma delete_as_filter: "AList.delete i xs = filter (\<lambda>p. fst p \<noteq> i) xs"
  by (induction xs) (auto simp: AList.delete_eq)

lemma filter_map_distinct: "distinct (map f xs) \<Longrightarrow> distinct (map f (filter P xs))"
  by (induction xs) auto

lemma partition_mset: "mset (map f xs) = mset (map f (filter (\<lambda>x. \<not> P x) xs)) + mset (map f (filter P xs))"
  by (induction xs) auto

lemma mset_chain:
  fixes S :: "'a multiset"
  assumes "S + X = T + C" and "T + Y = U + D"
  shows "S + (X + Y) = U + (C + D)"
proof -
  have "S + (X + Y) = (T + C) + Y" unfolding assms(1) [symmetric] by (simp only: add.assoc)
  also have "\<dots> = (T + Y) + C" by (simp only: ac_simps)
  also have "\<dots> = U + (C + D)" unfolding assms(2) by (simp only: ac_simps)
  finally show ?thesis .
qed

end
