(* ===== verification/Pending_Laws.thy ===== *)
theory Pending_Laws
  imports Native_Pending Assoc_Lists
begin

text \<open>
  The contract of the pending table: its invariant, what every call does with the requests it
  removes (each gets exactly one answer, which is the result its operation settled on, and the
  table's reference to its lease is dropped), that a registration only reaches its own request, and the bounds of the grace
  window.
\<close>

section \<open>The invariant\<close>

definition ticket :: "pending_entry \<Rightarrow> op_id \<times> lease \<times> channel" where
  "ticket e = (pe_core e, pe_permit e, pe_response e)"

definition tickets :: "native_pending \<Rightarrow> (op_id \<times> lease \<times> channel) list" where
  "tickets self = map (\<lambda>p. ticket (snd p)) (entries (np_state self))"

text \<open>An answer agrees with an operation when it is the result the operation settled on.\<close>

definition agrees :: "operation_control \<Rightarrow> (response, net_error) result \<Rightarrow> bool" where
  "agrees core r =
     (case r of
        Inl err \<Rightarrow> op_outcome core = Some (Inl err)
      | Inr _ \<Rightarrow> op_outcome core = Some (Inr ResponseReceived))"

definition grace_ok :: "pending_entry \<Rightarrow> bool" where
  "grace_ok e \<longleftrightarrow>
     (pe_grace_deadline e \<noteq> None \<longleftrightarrow> grace_used e) \<and> (deferred_error e \<noteq> None \<longleftrightarrow> grace_used e)
   \<and> (deferred_cause e \<noteq> None \<longleftrightarrow> grace_used e)
   \<and> is_none_or (pe_grace_deadline e) (\<lambda>d. is_none_or (absolute_deadline e) (\<lambda>a. d \<le> a))
   \<and> \<not> rt_poisoned (pe_timing e)"

definition entry_ok :: "op_store \<Rightarrow> native_pending \<Rightarrow> request_id \<Rightarrow> pending_entry \<Rightarrow> bool" where
  "entry_ok ops self i e \<longleftrightarrow>
     req_id (pe_request e) = i \<and> reg_request_id (pe_registration e) = i
   \<and> reg_pending (pe_registration e) = np_self self \<and> reg_token (pe_registration e) \<le> next_token (np_state self)
   \<and> os_pending (op_state (ops (pe_core e)))
       = Some \<lparr>pi_table = np_self self, pi_id = i, pi_token = reg_token (pe_registration e)\<rparr>
   \<and> op_inv (ops (pe_core e)) \<and> op_outcome (ops (pe_core e)) = None \<and> tracked (ops (pe_core e)) \<and> grace_ok e"

definition pend_inv :: "op_store \<Rightarrow> native_pending \<Rightarrow> bool" where
  "pend_inv ops self \<longleftrightarrow>
     distinct (map fst (entries (np_state self)))
   \<and> (\<forall>(i, e) \<in> set (entries (np_state self)). entry_ok ops self i e)
   \<and> distinct (map fst (dispatches (np_state self)))
   \<and> length (dispatches (np_state self)) \<le> max_dispatches self
   \<and> (\<forall>(d, r) \<in> set (dispatches (np_state self)). d \<le> next_dispatch (np_state self)
        \<and> token_watermark r \<le> next_token (np_state self))
   \<and> (closed (np_state self) \<longrightarrow> active (np_state self) = None)"

text \<open>What a call does: the requests that leave the table are the completions, each answered with
  the result of its operation; \<open>arrived\<close> are the requests it registers.\<close>

definition ops_latch :: "op_store \<Rightarrow> op_store \<Rightarrow> bool" where
  "ops_latch ops ops' \<longleftrightarrow> (\<forall>o1. (op_inv (ops o1) \<longrightarrow> op_inv (ops' o1))
     \<and> (\<forall>r. op_outcome (ops o1) = Some r \<longrightarrow> op_outcome (ops' o1) = Some r))"

definition pend_progress ::
  "op_store \<Rightarrow> native_pending \<Rightarrow> op_store \<Rightarrow> native_pending \<Rightarrow> completion list
     \<Rightarrow> (op_id \<times> lease \<times> channel) list \<Rightarrow> bool" where
  "pend_progress ops self ops' self' cs arrived \<longleftrightarrow>
     pend_inv ops' self' \<and> np_self self' = np_self self
   \<and> mset (tickets self) + mset arrived = mset (tickets self') + mset (map (\<lambda>c. ticket (co_entry c)) cs)
   \<and> (\<forall>c \<in> set cs. agrees (ops' (pe_core (co_entry c))) (co_response c))
   \<and> ops_latch ops ops' \<and> (closed (np_state self) \<longrightarrow> closed (np_state self'))
   \<and> next_token (np_state self) \<le> next_token (np_state self')"

lemma upd_pending_simps [simp]:
  "np_state (upd_pending f self) = f (np_state self)" "np_self (upd_pending f self) = np_self self"
  "np_client_id (upd_pending f self) = np_client_id self" "np_session_id (upd_pending f self) = np_session_id self"
  "grace (upd_pending f self) = grace self" "max_dispatches (upd_pending f self) = max_dispatches self"
  "admission_closed (upd_pending f self) = admission_closed self" "np_poisoned (upd_pending f self) = np_poisoned self"
  by (simp_all add: upd_pending_def)

lemma put_entry_simps [simp]:
  "np_state (put_entry i e self) = (np_state self)\<lparr>entries := AList.update i e (entries (np_state self))\<rparr>"
  "np_self (put_entry i e self) = np_self self" "grace (put_entry i e self) = grace self"
  "max_dispatches (put_entry i e self) = max_dispatches self"
  by (simp_all add: put_entry_def)

lemma remove_entry_simps [simp]:
  "np_state (remove_entry i self) = (np_state self)\<lparr>entries := AList.delete i (entries (np_state self))\<rparr>"
  "np_self (remove_entry i self) = np_self self" "grace (remove_entry i self) = grace self"
  "max_dispatches (remove_entry i self) = max_dispatches self"
  by (simp_all add: remove_entry_def)

lemma get_entry_ok: "pend_inv ops self \<Longrightarrow> get_entry i self = Some e \<Longrightarrow> entry_ok ops self i e"
  by (auto simp: pend_inv_def get_entry_def dest: map_of_SomeD)

lemma matching_get:
  "matching_entry self reg = Some e \<Longrightarrow> get_entry (reg_request_id reg) self = Some e
     \<and> reg_token (pe_registration e) = reg_token reg"
  by (auto simp: matching_entry_def split: option.splits if_splits)

lemma ops_latch_refl [simp]: "ops_latch ops ops"
  by (simp add: ops_latch_def)

lemma ops_latch_upd:
  assumes "op_inv (ops o1) \<longrightarrow> op_inv core" and "op_outcome (ops o1) = None"
  shows "ops_latch ops (ops(o1 := core))"
  using assms by (auto simp: ops_latch_def)

lemma pend_progress_refl: "pend_inv ops self \<Longrightarrow> pend_progress ops self ops self [] []"
  by (simp add: pend_progress_def)

lemma agrees_latch: "agrees (ops o1) r \<Longrightarrow> ops_latch ops ops' \<Longrightarrow> agrees (ops' o1) r"
  by (auto simp: agrees_def ops_latch_def split: sum.splits)

lemma ops_latch_trans: "ops_latch a b \<Longrightarrow> ops_latch b c \<Longrightarrow> ops_latch a c"
  by (auto simp: ops_latch_def)

lemma pend_progress_trans:
  assumes "pend_progress a s b t cs xs" and "pend_progress b t c u ds ys"
  shows "pend_progress a s c u (cs @ ds) (xs @ ys)"
proof -
  have "ops_latch b c" using assms(2) by (simp add: pend_progress_def)
  then have "\<forall>x \<in> set (cs @ ds). agrees (c (pe_core (co_entry x))) (co_response x)"
    using assms agrees_latch by (auto simp: pend_progress_def)
  moreover have "mset (tickets s) + mset (xs @ ys) = mset (tickets u) + mset (map (\<lambda>c. ticket (co_entry c)) (cs @ ds))"
    using mset_chain [of "mset (tickets s)" "mset xs" "mset (tickets t)"] assms
    by (simp add: pend_progress_def)
  moreover have "ops_latch a c" using assms ops_latch_trans by (auto simp: pend_progress_def)
  moreover have "next_token (np_state s) \<le> next_token (np_state u)" using assms by (auto simp: pend_progress_def)
  ultimately show ?thesis using assms by (simp add: pend_progress_def)
qed

text \<open>Two entries never share an operation.\<close>

lemma entry_core_unique:
  assumes "entry_ok ops self i e" and "entry_ok ops self j f" and "pe_core e = pe_core f"
  shows "i = j"
  using assms by (simp add: entry_ok_def)

lemma entry_ok_frame:
  assumes "entry_ok ops self i e" and "pe_core e \<noteq> o1" and "np_self self' = np_self self"
    and "next_token (np_state self) \<le> next_token (np_state self')"
  shows "entry_ok (ops(o1 := core)) self' i e"
  using assms by (auto simp: entry_ok_def)

text \<open>An entry leaves the table with its operation settled.\<close>

lemma settle_entry:
  assumes inv: "pend_inv ops self" and e: "get_entry i self = Some e"
    and core: "op_inv core" "agrees core r" and st: "np_state self' = (np_state self)
      \<lparr>entries := AList.delete i (entries (np_state self)), dispatches := ds\<rparr>"
    and ds: "set ds \<subseteq> set (dispatches (np_state self))" "distinct (map fst ds)"
      "length ds \<le> length (dispatches (np_state self))"
    and self': "np_self self' = np_self self" "max_dispatches self' = max_dispatches self"
  shows "pend_progress ops self (ops(pe_core e := core)) self' [\<lparr>co_entry = e, co_publication = pub, co_response = r\<rparr>] []"
proof -
  have ok: "entry_ok ops self i e" using get_entry_ok [OF inv e] .
  have frame: "entry_ok (ops(pe_core e := core)) self' j f" if "(j, f) \<in> set (entries (np_state self))" "j \<noteq> i" for j f
  proof -
    have okf: "entry_ok ops self j f" using inv that(1) by (auto simp: pend_inv_def)
    then have "pe_core f \<noteq> pe_core e" using entry_core_unique [OF okf ok] that(2) by auto
    then show ?thesis using okf self' st by (intro entry_ok_frame [of ops self]) auto
  qed
  have "pend_inv (ops(pe_core e := core)) self'"
    using inv frame ds self' st unfolding pend_inv_def
    by (auto simp: set_delete AList.distinct_delete)
  moreover have "mset (tickets self) = mset (tickets self') + {#ticket e#}"
    using inv e mset_delete [of "entries (np_state self)" i e "\<lambda>p. ticket (snd p)"] st
    by (auto simp: tickets_def pend_inv_def get_entry_def)
  moreover have "ops_latch ops (ops(pe_core e := core))"
    using ok core by (intro ops_latch_upd) (auto simp: entry_ok_def)
  ultimately show ?thesis using self' core st by (simp add: pend_progress_def)
qed

lemma settle_remove:
  assumes "pend_inv ops self" and "get_entry i self = Some e" and "op_inv core" "agrees core r"
  shows "pend_progress ops self (ops(pe_core e := core)) (remove_entry i self)
    [\<lparr>co_entry = e, co_publication = pub, co_response = r\<rparr>] []"
  by (rule settle_entry [OF assms, where ds = "dispatches (np_state self)"])
    (use assms(1) in \<open>auto simp: pend_inv_def\<close>)

text \<open>An entry stays, its operation unsettled.\<close>

lemma keep_entry:
  assumes inv: "pend_inv ops self" and e: "get_entry i self = Some e"
    and core: "op_inv core" "op_outcome core = None" "tracked core"
      "os_pending (op_state core) = os_pending (op_state (ops (pe_core e)))"
    and e': "ticket e' = ticket e" "pe_registration e' = pe_registration e" "pe_request e' = pe_request e" "grace_ok e'"
  shows "pend_progress ops self (ops(pe_core e := core)) (put_entry i e' self) [] []"
proof -
  have ok: "entry_ok ops self i e" using get_entry_ok [OF inv e] .
  have dist: "distinct (map fst (entries (np_state self)))" using inv by (simp add: pend_inv_def)
  have frame: "entry_ok (ops(pe_core e := core)) (put_entry i e' self) j f"
    if "(j, f) \<in> set (entries (np_state self))" "j \<noteq> i" for j f
  proof -
    have okf: "entry_ok ops self j f" using inv that(1) by (auto simp: pend_inv_def)
    then have "pe_core f \<noteq> pe_core e" using entry_core_unique [OF okf ok] that(2) by auto
    then show ?thesis using okf by (intro entry_ok_frame [of ops self]) auto
  qed
  have "entry_ok (ops(pe_core e := core)) (put_entry i e' self) i e'"
    using ok core e' by (simp add: entry_ok_def ticket_def)
  with frame have "pend_inv (ops(pe_core e := core)) (put_entry i e' self)"
    using inv dist unfolding pend_inv_def by (auto simp: set_update AList.distinct_update)
  moreover have "mset (tickets (put_entry i e' self)) = mset (tickets self)"
    using dist e e'(1) mset_update [of "entries (np_state self)" i e "\<lambda>p. ticket (snd p)" e']
    by (simp add: tickets_def get_entry_def)
  moreover have "ops_latch ops (ops(pe_core e := core))"
    using ok core by (intro ops_latch_upd) (auto simp: entry_ok_def)
  ultimately show ?thesis by (simp add: pend_progress_def)
qed

lemma keep_same:
  assumes inv: "pend_inv ops self" and e: "get_entry i self = Some e"
    and e': "ticket e' = ticket e" "pe_registration e' = pe_registration e" "pe_request e' = pe_request e" "grace_ok e'"
  shows "pend_progress ops self ops (put_entry i e' self) [] []"
  using keep_entry [OF inv e _ _ _ _ e', of "ops (pe_core e)"] get_entry_ok [OF inv e]
  by (simp add: entry_ok_def)

section \<open>What the operation decides\<close>

lemma select_failure_agrees:
  assumes "op_inv core" and "op_outcome core = None" and "select_failure env core err cause = (core', outcome, pub)"
  shows "op_inv core'" and "agrees core' (Inl (selected_error_or core' x))"
proof -
  show "op_inv core'" using select_failure_progress [OF assms(1,3)] by (simp add: op_progress_def)
  obtain e where "op_outcome core' = Some (Inl e)"
    using assms(2,3)
    by (auto simp: select_failure_def select_failure_locked_def is_some_def finish_locked_def Let_def split: prod.splits)
  then show "agrees core' (Inl (selected_error_or core' x))"
    by (simp add: agrees_def selected_error_or_def selected_error_def map_or_def)
qed

lemma settle_response_agrees:
  assumes inv: "op_inv core" and none: "op_outcome core = None"
    and sel: "settle_response env resp core = (core', won, pub, r)"
  shows "op_inv core'" and "agrees core' r" and "r = Inr resp \<longleftrightarrow> won" and "won \<longrightarrow> op_delivery core' = ResponseConfirmed"
proof -
  have s: "select_response env core = (core', won, pub)"
    and r: "r = (if won then Inr resp else Inl (selected_error_or core' (from_kind K_Closed)))"
    using sel by (auto simp: settle_response_def split: prod.splits)
  show inv': "op_inv core'" using select_response_progress [OF inv s] by (simp add: op_progress_def)
  have lost: "\<not> won \<Longrightarrow> \<exists>e cause o1. select_failure env core e cause = (core', o1, pub)"
    using s none by (auto simp: select_response_def is_some_def Let_def split: sum.splits prod.splits)
  have won: "won \<Longrightarrow> op_outcome core' = Some (Inr ResponseReceived)"
    using s none by (auto simp: select_response_def is_some_def Let_def finish_locked_def split: sum.splits prod.splits)
  show "agrees core' r"
  proof (cases won)
    case True
    then show ?thesis using won r by (simp add: agrees_def)
  next
    case False
    then obtain e cause o1 where "select_failure env core e cause = (core', o1, pub)" using lost by blast
    then show ?thesis using select_failure_agrees(2) [OF inv none] r False by simp
  qed
  show "r = Inr resp \<longleftrightarrow> won" using r by auto
  show "won \<longrightarrow> op_delivery core' = ResponseConfirmed"
    using won inv' by (auto simp: op_inv_def result_ok_def)
qed

lemma select_written_agrees:
  assumes inv: "op_inv core" and none: "op_outcome core = None" and tr: "tracked core"
    and sel: "select_written env core = (core', written, pub)"
  shows "op_inv core'"
    and "written \<Longrightarrow> op_outcome core' = None \<and> tracked core' \<and> os_pending (op_state core') = os_pending (op_state core)"
    and "\<not> written \<Longrightarrow> \<exists>e. selected_error core' = Some e \<and> agrees core' (Inl e)"
proof -
  show "op_inv core'" using select_written_progress [OF inv sel] by (simp add: op_progress_def)
  show "written \<Longrightarrow> op_outcome core' = None \<and> tracked core' \<and> os_pending (op_state core') = os_pending (op_state core)"
    using sel none tr by (auto simp: select_written_def is_some_def Let_def split: sum.splits prod.splits)
  assume "\<not> written"
  then obtain e cause o1 where f: "select_failure env core e cause = (core', o1, pub)"
    using sel none tr by (auto simp: select_written_def is_some_def Let_def split: sum.splits prod.splits)
  then have "op_outcome core' \<noteq> None" by (rule select_failure_settles)
  then show "\<exists>e. selected_error core' = Some e \<and> agrees core' (Inl e)"
    using select_failure_agrees(2) [OF inv none f] by (auto simp: agrees_def selected_error_def split: sum.split)
qed

lemma set_response_deadline_keeps:
  "op_inv core \<Longrightarrow> op_inv (set_response_deadline d core)"
  "op_outcome (set_response_deadline d core) = op_outcome core"
  "os_pending (op_state (set_response_deadline d core)) = os_pending (op_state core)"
  "tracked (set_response_deadline d core) = tracked core"
  using op_progress_quiet [OF _ quiet_ops(2), of core d] by (simp_all add: op_progress_def set_response_deadline_def)

section \<open>Grace\<close>

lemma list_max_upper: "list_max xs = Some m \<Longrightarrow> x \<in> set xs \<Longrightarrow> x \<le> m"
proof -
  have "y \<le> fold max ys y \<and> (\<forall>z \<in> set ys. z \<le> fold max ys y)" for y :: instant and ys
    by (induction ys arbitrary: y) (auto simp: max_def, (meson le_trans nat_le_linear)+)
  then show "list_max xs = Some m \<Longrightarrow> x \<in> set xs \<Longrightarrow> x \<le> m"
    by (auto simp: list_max_def split: list.splits)
qed

lemma list_min_lower: "x \<in> set xs \<Longrightarrow> \<exists>y. list_min xs = Some y \<and> y \<le> x"
proof -
  have "fold min ys y \<le> y \<and> (\<forall>z \<in> set ys. fold min ys y \<le> z)" for y :: instant and ys
    by (induction ys arbitrary: y) (auto, (meson le_trans min.cobounded1 min.cobounded2)+)
  then show "x \<in> set xs \<Longrightarrow> \<exists>y. list_min xs = Some y \<and> y \<le> x"
    by (auto simp: list_min_def split: list.splits)
qed

lemma list_min_member: "list_min xs = Some d \<Longrightarrow> d \<in> set xs"
proof -
  have "fold min ys y \<in> insert y (set ys)" for y :: instant and ys by (induction ys arbitrary: y) (auto simp: min_def)
  then show "list_min xs = Some d \<Longrightarrow> d \<in> set xs" by (auto simp: list_min_def split: list.splits)
qed

lemma grace_deadline_bounds:
  assumes "grace_deadline e recs t g disconnected = Some d"
  shows "t < d" and "\<not> grace_used e" and "is_none_or (absolute_deadline e) (\<lambda>a. d \<le> a)"
    and "\<exists>rd. timing_deadline (pe_timing e) = Inr rd \<and> d \<le> (if disconnected then t else map_or t (\<lambda>d. d) rd) + g"
proof -
  obtain rd m b where rd: "timing_deadline (pe_timing e) = Inr rd"
    and b: "instant_checked_add (if disconnected then t else map_or t (\<lambda>d. d) rd) g = Some b"
    and d: "earliest (Some (min m b)) (absolute_deadline e) = Some d" and td: "t < d" and g: "\<not> grace_used e"
    using assms
    by (auto simp: grace_deadline_def Let_def bind_eq_Some_conv split: if_splits sum.splits option.splits)
  show "t < d" and "\<not> grace_used e" by (fact td, fact g)
  show "is_none_or (absolute_deadline e) (\<lambda>a. d \<le> a)"
    using d by (cases "absolute_deadline e") (auto simp: is_none_or_def)
  have "d \<le> b" using d by (cases "absolute_deadline e") auto
  then show "\<exists>rd. timing_deadline (pe_timing e) = Inr rd \<and> d \<le> (if disconnected then t else map_or t (\<lambda>d. d) rd) + g"
    using rd b by (auto simp: instant_checked_add_Some)
qed

lemma enter_grace_ok:
  assumes "grace_deadline e recs t g disc = Some d"
  shows "grace_ok e \<Longrightarrow> grace_ok (enter_grace d err cause e)" and "ticket (enter_grace d err cause e) = ticket e"
    and "pe_registration (enter_grace d err cause e) = pe_registration e"
    and "pe_request (enter_grace d err cause e) = pe_request e"
    and "pe_core (enter_grace d err cause e) = pe_core e"
  using grace_deadline_bounds [OF assms] by (auto simp: grace_ok_def enter_grace_def ticket_def is_none_or_def)

end
