(* ===== verification/Pending_Machine.thy ===== *)
theory Pending_Machine
  imports Pending_Laws
begin

text \<open>
  The table of outstanding requests as a machine: every call of \<open>native_pending.rs\<close> settles the
  requests it removes, each with one answer and one dropped reference to a lease. The properties of whole histories
  follow from the per-call lemmas by the induction of the machine.
\<close>

section \<open>Answers and dropped leases\<close>

fun sends :: "pend_effect list \<Rightarrow> (channel \<times> (response, net_error) result) list" where
  "sends [] = []"
| "sends (P_Send c r # es) = (c, r) # sends es"
| "sends (_ # es) = sends es"

fun dropped_leases :: "pend_effect list \<Rightarrow> lease list" where
  "dropped_leases [] = []"
| "dropped_leases (P_DropLease l # es) = l # dropped_leases es"
| "dropped_leases (_ # es) = dropped_leases es"

lemma sends_append [simp]: "sends (xs @ ys) = sends xs @ sends ys"
  by (induction xs rule: sends.induct) auto

lemma dropped_leases_append [simp]: "dropped_leases (xs @ ys) = dropped_leases xs @ dropped_leases ys"
  by (induction xs rule: dropped_leases.induct) auto

lemma op_effects_silent [simp]: "sends (map P_Op es) = []" "dropped_leases (map P_Op es) = []"
  by (induction es) auto

abbreviation answer_of :: "completion \<Rightarrow> channel \<times> (response, net_error) result" where
  "answer_of c \<equiv> (pe_response (co_entry c), co_response c)"

abbreviation lease_of :: "completion \<Rightarrow> lease" where
  "lease_of c \<equiv> pe_permit (co_entry c)"

lemma completion_effects [simp]:
  "sends (completion_dispatch c) = [answer_of c]" "dropped_leases (completion_dispatch c) = [lease_of c]"
  by (simp_all add: completion_dispatch_def)

lemma completions_effects [simp]:
  "sends (concat (map completion_dispatch cs)) = map answer_of cs"
  "dropped_leases (concat (map completion_dispatch cs)) = map lease_of cs"
  by (induction cs) auto

definition table_progress ::
  "op_store \<Rightarrow> native_pending \<Rightarrow> op_store \<Rightarrow> native_pending \<Rightarrow> pend_effect list
     \<Rightarrow> (op_id \<times> lease \<times> channel) list \<Rightarrow> bool" where
  "table_progress ops self ops' self' effects arrived \<longleftrightarrow>
     (\<exists>cs. pend_progress ops self ops' self' cs arrived
         \<and> sends effects = map answer_of cs \<and> dropped_leases effects = map lease_of cs)"

lemma table_progressI:
  "pend_progress ops self ops' self' cs arrived \<Longrightarrow> sends effects = map answer_of cs \<Longrightarrow> dropped_leases effects = map lease_of cs
     \<Longrightarrow> table_progress ops self ops' self' effects arrived"
  by (auto simp: table_progress_def)

lemma table_progress_refl:
  "pend_inv ops self \<Longrightarrow> sends effects = [] \<Longrightarrow> dropped_leases effects = [] \<Longrightarrow> table_progress ops self ops self effects []"
  by (rule table_progressI [OF pend_progress_refl]) auto

lemma progress_after_keep:
  assumes "pend_progress a s b t [] []" and "table_progress b t c u effects arrived"
  shows "table_progress a s c u effects arrived"
  using assms pend_progress_trans [of a s b t "[]" "[]" c u] by (auto simp: table_progress_def)

lemma pend_progress_inv: "pend_progress ops self ops' self' cs arrived \<Longrightarrow> pend_inv ops' self'"
  by (simp add: pend_progress_def)

text \<open>A change that touches neither entries nor operations.\<close>

lemma frame_progress:
  assumes "pend_inv ops self" and "np_self self' = np_self self" and "max_dispatches self' = max_dispatches self"
    and "entries (np_state self') = entries (np_state self)" and "next_token (np_state self') = next_token (np_state self)"
    and "distinct (map fst (dispatches (np_state self')))" and "length (dispatches (np_state self')) \<le> max_dispatches self"
    and "\<forall>(d, r) \<in> set (dispatches (np_state self')). d \<le> next_dispatch (np_state self')
        \<and> token_watermark r \<le> next_token (np_state self)"
    and "closed (np_state self') \<longrightarrow> active (np_state self') = None"
    and "closed (np_state self) \<longrightarrow> closed (np_state self')"
  shows "pend_progress ops self ops self' [] []"
proof -
  have "entry_ok ops self' = entry_ok ops self" using assms(2,5) by (intro ext) (simp add: entry_ok_def)
  then have "pend_inv ops self'" using assms by (simp add: pend_inv_def)
  then show ?thesis using assms by (simp add: pend_progress_def tickets_def)
qed

lemma drop_dispatches_progress:
  assumes "pend_inv ops self"
  shows "pend_progress ops self ops (upd_pending (\<lambda>s. s\<lparr>dispatches := filter P (dispatches s)\<rparr>) self) [] []"
  using assms
  by (intro frame_progress)
    (auto simp: pend_inv_def filter_map_distinct intro: le_trans [OF length_filter_le])

section \<open>The calls that keep every request\<close>

lemma get_put_entry [simp]: "get_entry i (put_entry i e self) = Some e"
  by (simp add: get_entry_def AList.update_conv)

lemma entry_grace_ok: "pend_inv ops self \<Longrightarrow> get_entry i self = Some e \<Longrightarrow> grace_ok e"
  using get_entry_ok by (fastforce simp: entry_ok_def)

lemma activate_connection_progress:
  assumes "pend_inv ops self" and "activate_connection con self = (self', r)"
  shows "table_progress ops self ops self' [] []"
proof -
  have "pend_progress ops self ops self' [] []"
    using assms by (intro frame_progress) (auto simp: activate_connection_def pend_inv_def split: if_splits)
  then show ?thesis by (rule table_progressI) auto
qed

lemma bind_connection_progress:
  assumes inv: "pend_inv ops self" and call: "bind_connection now reg con self = (self', r)"
  shows "table_progress ops self ops self' [] []"
proof (cases "self' = self")
  case True
  then show ?thesis using inv table_progress_refl by simp
next
  case False
  then obtain e where e: "matching_entry self reg = Some e"
    and s: "self' = put_entry (reg_request_id reg) (e\<lparr>bound_at := Some now, pe_connection_id := Some con\<rparr>) self"
    using call by (auto simp: bind_connection_def split: if_splits option.splits)
  have g: "get_entry (reg_request_id reg) self = Some e" using matching_get [OF e] by simp
  show ?thesis unfolding s
    by (rule table_progressI [OF keep_same [OF inv g]])
      (use entry_grace_ok [OF inv g] in \<open>simp_all add: ticket_def grace_ok_def\<close>)
qed

lemma next_deadline_progress:
  assumes inv: "pend_inv ops self" and call: "next_deadline ops self = (self', r)"
  shows "table_progress ops self ops self' [] []"
proof -
  consider "self' = self" | "self' = upd_pending (\<lambda>s. s\<lparr>dispatches := filter (\<lambda>_. False) (dispatches s)\<rparr>) self"
    using call by (auto simp: next_deadline_def split: if_splits)
  then have "pend_progress ops self ops self' [] []"
    by cases (simp_all only: drop_dispatches_progress [OF inv] pend_progress_refl [OF inv])
  then show ?thesis by (rule table_progressI) auto
qed

lemma discard_dispatch_progress:
  assumes inv: "pend_inv ops self" and call: "discard_dispatch incoming self = (self', effects, r)"
  shows "table_progress ops self ops self' effects []"
proof -
  have quiet: "sends effects = []" "dropped_leases effects = []"
    using call by (auto simp: discard_dispatch_def split: if_splits option.splits)
  consider "self' = self" | P where "self' = upd_pending (\<lambda>s. s\<lparr>dispatches := filter P (dispatches s)\<rparr>) self"
    using call by (auto simp: discard_dispatch_def delete_as_filter split: if_splits option.splits)
  then have "pend_progress ops self ops self' [] []"
    by cases (simp_all only: drop_dispatches_progress [OF inv] pend_progress_refl [OF inv])
  then show ?thesis using quiet by (intro table_progressI) auto
qed

lemma checked_add_gt: "checked_add (x :: u64) 1 = Some y \<Longrightarrow> x < y"
  using unat_checked_add [of x 1 y] by (simp add: word_less_nat_alt)

lemma new_dispatch_progress:
  assumes inv: "pend_inv ops self" and room: "length (dispatches (np_state self)) < max_dispatches self"
    and d: "checked_add (next_dispatch (np_state self)) 1 = Some d"
    and wm: "token_watermark (rc (np_state self)) = next_token (np_state self)"
  shows "pend_progress ops self ops (upd_pending (\<lambda>s. s\<lparr>next_dispatch := d,
    dispatches := AList.update d (rc s) (dispatches s)\<rparr>) self) [] []"
proof -
  have fresh: "d \<notin> fst ` set (dispatches (np_state self))"
    using inv checked_add_gt [OF d] by (force simp: pend_inv_def)
  have up: "AList.update d (rc (np_state self)) (dispatches (np_state self)) = dispatches (np_state self) @ [(d, rc (np_state self))]"
    by (rule update_new [OF fresh])
  have old: "x \<le> d" if "(x, r) \<in> set (dispatches (np_state self))" for x r
  proof -
    have "x \<le> next_dispatch (np_state self)" using inv that by (auto simp: pend_inv_def)
    then show ?thesis using checked_add_gt [OF d] by simp
  qed
  show ?thesis
    by (rule frame_progress [OF inv]) (use inv room wm fresh up old in \<open>auto simp: pend_inv_def\<close>)
qed

lemma register_dispatch_progress:
  assumes inv: "pend_inv ops self" and call: "register_dispatch now allocated incoming self = (incoming', self', effects, r)"
  shows "table_progress ops self ops self' effects []"
proof -
  define kept where "kept = upd_pending (\<lambda>s. s\<lparr>dispatches := filter (\<lambda>(_, r). now < expires_at r) (dispatches s)\<rparr>) self"
  have quiet: "sends effects = []" "dropped_leases effects = []"
    using call by (auto simp: register_dispatch_def Let_def split: if_splits option.splits sum.splits)
  have keep: "pend_progress ops self ops kept [] []"
    unfolding kept_def by (rule drop_dispatches_progress [OF inv])
  have "self' = self \<or> self' = kept
    \<or> (\<exists>d ends. \<not> max_dispatches kept \<le> length (dispatches (np_state kept)) \<and> checked_add (next_dispatch (np_state kept)) 1 = Some d
      \<and> self' = upd_pending (\<lambda>s. s\<lparr>next_dispatch := d, dispatches := AList.update d
         \<lparr>dr_connection_id = in_connection_id incoming, token_watermark = next_token s, received_at = now, expires_at = ends\<rparr>
         (dispatches s)\<rparr>) kept)"
    using call unfolding register_dispatch_def Let_def kept_def [symmetric]
    by (simp split: if_split_asm option.split_asm sum.split_asm) blast+
  then have "pend_progress ops self ops self' [] []"
  proof (elim disjE exE conjE)
    fix d ends
    assume room: "\<not> max_dispatches kept \<le> length (dispatches (np_state kept))"
      and d: "checked_add (next_dispatch (np_state kept)) 1 = Some d"
      and s: "self' = upd_pending (\<lambda>s. s\<lparr>next_dispatch := d, dispatches := AList.update d
         \<lparr>dr_connection_id = in_connection_id incoming, token_watermark = next_token s, received_at = now, expires_at = ends\<rparr>
         (dispatches s)\<rparr>) kept"
    have "pend_progress ops kept ops self' [] []"
      unfolding s by (rule new_dispatch_progress [OF pend_progress_inv [OF keep] _ d]) (use room in auto)
    then show ?thesis using pend_progress_trans [OF keep] by fastforce
  qed (simp_all only: keep pend_progress_refl [OF inv])
  then show ?thesis using quiet by (intro table_progressI) auto
qed

section \<open>The calls that settle requests\<close>

lemma settle_step:
  assumes "pend_inv ops self" and "get_entry i self = Some e" and "op_inv core" and "agrees core r"
  shows "table_progress ops self (ops(pe_core e := core)) (remove_entry i self)
    (completion_dispatch \<lparr>co_entry = e, co_publication = pub, co_response = r\<rparr> @ [P_Changed]) []"
  by (rule table_progressI [OF settle_remove [OF assms]]) auto

lemma entry_core:
  assumes "pend_inv ops self" and "get_entry i self = Some e"
  shows "op_inv (ops (pe_core e))" and "op_outcome (ops (pe_core e)) = None" and "tracked (ops (pe_core e))"
  using get_entry_ok [OF assms] by (simp_all add: entry_ok_def)

text \<open>A failure selected for the operation of an entry is what the entry is answered with.\<close>

lemma fail_step:
  assumes inv: "pend_inv ops self" and e: "get_entry i self = Some e"
    and sel: "select_failure env (ops (pe_core e)) err cause = (core, outcome, pub)"
  shows "table_progress ops self (ops(pe_core e := core)) (remove_entry i self)
    (completion_dispatch \<lparr>co_entry = e, co_publication = pub, co_response = Inl (selected_error_or core err')\<rparr> @ [P_Changed]) []"
  by (rule settle_step [OF inv e]) (rule select_failure_agrees [OF entry_core(1,2) [OF inv e] sel])+

lemma grace_step:
  assumes inv: "pend_inv ops self" and e: "get_entry i self = Some e" and g: "grace_deadline e recs t g disc = Some d"
  shows "pend_progress ops self (ops(pe_core e := set_response_deadline rd (ops (pe_core e))))
    (put_entry i (enter_grace d err cause e) self) [] []"
  by (rule keep_entry [OF inv e])
    (use entry_core [OF inv e] entry_grace_ok [OF inv e] enter_grace_ok [OF g] set_response_deadline_keeps in simp_all)

lemma deadline_step:
  assumes inv: "pend_inv ops self" and e: "get_entry i self = Some e"
  shows "pend_progress ops self (ops(pe_core e := set_response_deadline rd (ops (pe_core e)))) (put_entry i e self) [] []"
  by (rule keep_entry [OF inv e])
    (use entry_core [OF inv e] entry_grace_ok [OF inv e] set_response_deadline_keeps in simp_all)

lemma grace_table_step:
  assumes "pend_inv ops self" and "get_entry i self = Some e" and "grace_deadline e recs t g disc = Some d"
  shows "table_progress ops self (ops(pe_core e := set_response_deadline rd (ops (pe_core e))))
    (put_entry i (enter_grace d err cause e) self) [P_Changed] []"
  by (rule table_progressI [OF grace_step [OF assms]]) auto

lemmas asm_splits = if_split_asm option.split_asm sum.split_asm prod.split_asm

lemma refresh_progress:
  assumes "pend_inv ops self" and "refresh_response_deadline now env i tok ops self = (ops', self', effects, r)"
  shows "table_progress ops self ops' self' effects []"
  using assms unfolding refresh_response_deadline_def Let_def
  by (auto split: asm_splits intro: table_progress_refl grace_table_step fail_step)

lemma quiet_step:
  assumes inv: "pend_inv ops self" and e: "get_entry i self = Some e" and q: "op_quiet (ops (pe_core e)) core"
    and p: "os_pending (op_state core) = os_pending (op_state (ops (pe_core e)))"
    and e': "ticket e' = ticket e" "pe_registration e' = pe_registration e" "pe_request e' = pe_request e" "grace_ok e'"
  shows "pend_progress ops self (ops(pe_core e := core)) (put_entry i e' self) [] []"
proof (rule keep_entry [OF inv e _ _ _ p e'])
  show "op_inv core" using op_progress_quiet [OF entry_core(1) [OF inv e] q] by (simp add: op_progress_def)
  show "op_outcome core = None" using q entry_core(2) [OF inv e] by (simp add: op_quiet_def)
  show "tracked core" using q entry_core(3) [OF inv e] by (simp add: op_quiet_def same_config_def)
qed

lemma op_requeue_pending: "os_pending (op_state (fst (op_requeue env self))) = os_pending (op_state self)"
  by (auto simp: op_requeue_def Let_def split: if_splits sum.splits)

lemma put_same_entry: "get_entry i self = Some e \<Longrightarrow> put_entry i e self = self"
proof -
  assume "get_entry i self = Some e"
  then have "AList.update i e (entries (np_state self)) = entries (np_state self)"
    by (simp add: get_entry_def update_same)
  then show ?thesis by (simp add: put_entry_def upd_pending_def)
qed

lemma requeue_progress:
  assumes inv: "pend_inv ops self" and call: "pending_requeue now env reg ops self = (ops', self', r)"
  shows "table_progress ops self ops' self' [] []"
proof (cases "ops' = ops \<and> self' = self")
  case True
  then show ?thesis using table_progress_refl [OF inv] by simp
next
  case False
  then obtain e where e: "matching_entry self reg = Some e"
    and o': "ops' = ops(pe_core e := fst (op_requeue env (ops (pe_core e))))"
    and s': "self' = self \<or> self' = put_entry (reg_request_id reg) (e\<lparr>pe_connection_id := None, bound_at := None\<rparr>) self"
    using call by (auto simp: pending_requeue_def Let_def split: if_splits option.splits prod.splits)
  have g: "get_entry (reg_request_id reg) self = Some e" using matching_get [OF e] by simp
  note step = quiet_step [OF inv g quiet_requeue [of _ env] op_requeue_pending [of env]]
  have "pend_progress ops self ops' self' [] []" using s'
  proof
    assume "self' = self"
    then show ?thesis using step [of e] put_same_entry [OF g] entry_grace_ok [OF inv g] o' by simp
  next
    assume "self' = put_entry (reg_request_id reg) (e\<lparr>pe_connection_id := None, bound_at := None\<rparr>) self"
    then show ?thesis
      using step [of "e\<lparr>pe_connection_id := None, bound_at := None\<rparr>"] entry_grace_ok [OF inv g] o'
      by (simp add: ticket_def grace_ok_def)
  qed
  then show ?thesis by (rule table_progressI) auto
qed

lemma response_step:
  assumes inv: "pend_inv ops self" and e: "get_entry i self = Some e"
    and sel: "settle_response env resp (ops (pe_core e)) = (core, won, pub, r)"
  shows "table_progress ops self (ops(pe_core e := core)) (remove_entry i self)
    (completion_dispatch \<lparr>co_entry = e, co_publication = pub, co_response = r\<rparr> @ [P_Changed]) []"
  by (rule settle_step [OF inv e]) (rule settle_response_agrees [OF entry_core(1,2) [OF inv e] sel])+

lemma complete_response_progress:
  assumes "pend_inv ops self" and "complete_response now env i incoming ops self = (ops', self', effects, r)"
  shows "table_progress ops self ops' self' effects []"
  using assms unfolding complete_response_def Let_def
  by (auto split: asm_splits intro: table_progress_refl response_step fail_step)

lemma prepare_termination_progress:
  assumes inv: "pend_inv ops self"
    and call: "pending_prepare_termination env i tok err cause None ops self = (ops', self', deferred)"
  shows "table_progress ops self ops' self' (deferred_dispatch deferred) []"
proof -
  have "table_progress ops self ops' self' (deferred_dispatch deferred @ effects) [] \<Longrightarrow> effects = [P_Changed]
      \<Longrightarrow> table_progress ops self ops' self' (deferred_dispatch deferred) []" for effects
    by (auto simp: table_progress_def)
  moreover have "table_progress ops self ops' self' (deferred_dispatch deferred @ [P_Changed]) []"
    using assms unfolding pending_prepare_termination_def Let_def deferred_dispatch_def deferred_default_def
    by (auto split: asm_splits intro: table_progress_refl fail_step)
  ultimately show ?thesis by blast
qed

lemma terminate_progress:
  assumes "pend_inv ops self" and "pending_terminate env i tok err cause ops self = (ops', self', effects, r)"
  shows "table_progress ops self ops' self' effects []"
  using assms prepare_termination_progress by (auto simp: pending_terminate_def split: asm_splits)

lemma resolve_check_entry:
  "resolve_check now ops reg incoming rec self = Inr (e, extended) \<Longrightarrow> get_entry (reg_request_id reg) self = Some e
     \<and> reg_token (pe_registration e) = reg_token reg"
  unfolding resolve_check_def Let_def by (auto split: asm_splits)

text \<open>The response is decided on the operation with its last deadline; the dispatch is forgotten with the entry.\<close>

lemma resolve_step:
  assumes inv: "pend_inv ops self" and e: "get_entry i self = Some e"
    and core: "op_inv core" "op_outcome core = None"
    and sel: "settle_response env resp core = (core', won, pub, r)"
  shows "table_progress ops self (ops(pe_core e := core'))
    (upd_pending (\<lambda>s. s\<lparr>dispatches := AList.delete d (dispatches s)\<rparr>) (remove_entry i self))
    (completion_dispatch \<lparr>co_entry = e, co_publication = pub, co_response = r\<rparr> @ [P_Changed]) []"
proof (rule table_progressI)
  show "pend_progress ops self (ops(pe_core e := core'))
    (upd_pending (\<lambda>s. s\<lparr>dispatches := AList.delete d (dispatches s)\<rparr>) (remove_entry i self))
    [\<lparr>co_entry = e, co_publication = pub, co_response = r\<rparr>] []"
    by (rule settle_entry [OF inv e settle_response_agrees(1,2) [OF core sel],
          where ds = "AList.delete d (dispatches (np_state self))"])
      (use inv in \<open>auto simp: pend_inv_def set_delete AList.distinct_delete AList.length_delete_le\<close>)
qed auto

lemma resolve_progress:
  assumes inv: "pend_inv ops self" and call: "pending_resolve now env reg incoming ops self = (ops', self', effects, r)"
  shows "table_progress ops self ops' self' effects []"
proof (cases "ops' = ops \<and> self' = self \<and> effects = []")
  case True
  then show ?thesis using table_progress_refl [OF inv] by simp
next
  case False
  then obtain rec e extended resp d where chk: "resolve_check now ops reg incoming rec self = Inr (e, extended)"
    and res: "(case settle_response env resp (case extended of None \<Rightarrow> ops (pe_core e)
              | Some limit \<Rightarrow> set_response_deadline limit (ops (pe_core e))) of
          (core, won, pub, result) \<Rightarrow>
            (ops(pe_core e := core), upd_pending (\<lambda>s. s\<lparr>dispatches := AList.delete d (dispatches s)\<rparr>)
                 (remove_entry (reg_request_id reg) self),
             completion_dispatch \<lparr>co_entry = e, co_publication = pub, co_response = result\<rparr> @ [P_Changed],
             Inr (if won then Resolved else StaleOrFinished))) = (ops', self', effects, r)"
    using call unfolding pending_resolve_def Let_def
    by (simp split: if_split_asm option.split_asm sum.split_asm prod.split_asm)
  have e: "get_entry (reg_request_id reg) self = Some e" using resolve_check_entry [OF chk] by simp
  have "op_inv (case extended of None \<Rightarrow> ops (pe_core e) | Some limit \<Rightarrow> set_response_deadline limit (ops (pe_core e)))"
    "op_outcome (case extended of None \<Rightarrow> ops (pe_core e) | Some limit \<Rightarrow> set_response_deadline limit (ops (pe_core e))) = None"
    using entry_core [OF inv e] set_response_deadline_keeps by (auto split: option.split)
  then show ?thesis using res resolve_step [OF inv e] by (auto split: prod.split_asm)
qed

lemma written_step:
  assumes inv: "pend_inv ops self" and e: "get_entry i self = Some e"
    and sel: "select_written env (set_response_deadline rd (ops (pe_core e))) = (core, written, pub)"
  shows "written \<Longrightarrow> table_progress ops self (ops(pe_core e := core)) self (map P_Op (dispatch pub) @ [P_Changed]) []"
    and "\<not> written \<Longrightarrow> \<exists>err. selected_error core = Some err \<and>
      table_progress ops self (ops(pe_core e := core)) (remove_entry i self)
        (completion_dispatch \<lparr>co_entry = e, co_publication = pub, co_response = Inl err\<rparr> @ [P_Changed]) []"
proof -
  note core = entry_core [OF inv e]
  note w = select_written_agrees [OF _ _ _ sel, unfolded set_response_deadline_keeps, OF _ core(2,3)]
  have i0: "op_inv (set_response_deadline rd (ops (pe_core e)))" using core set_response_deadline_keeps by blast
  have "pend_progress ops self (ops(pe_core e := core)) (put_entry i e self) [] []" if "written"
    by (rule keep_entry [OF inv e]) (use w(1,2) [OF i0] that entry_grace_ok [OF inv e] in auto)
  then show "written \<Longrightarrow> table_progress ops self (ops(pe_core e := core)) self (map P_Op (dispatch pub) @ [P_Changed]) []"
    using put_same_entry [OF e] by (intro table_progressI) auto
  show "\<not> written \<Longrightarrow> \<exists>err. selected_error core = Some err \<and>
      table_progress ops self (ops(pe_core e := core)) (remove_entry i self)
        (completion_dispatch \<lparr>co_entry = e, co_publication = pub, co_response = Inl err\<rparr> @ [P_Changed]) []"
    using w(1,3) [OF i0] settle_step [OF inv e] by blast
qed

lemma timing_step:
  assumes inv: "pend_inv ops self" and e: "get_entry i self = Some e" and t: "\<not> rt_poisoned timing"
  shows "pend_progress ops self ops (put_entry i (e\<lparr>pe_timing := timing\<rparr>) self) [] []"
  by (rule keep_same [OF inv e]) (use entry_grace_ok [OF inv e] t in \<open>simp_all add: ticket_def grace_ok_def\<close>)

definition written_timing :: "instant \<Rightarrow> pending_entry \<Rightarrow> registration_timing \<times> (unit, net_error) result" where
  "written_timing written_at e =
     (if timeout_origin e = Origin_Written
      then (case add_deadline written_at (pe_response_timeout e) of
              Inl err \<Rightarrow> (pe_timing e, Inl err)
            | Inr d \<Rightarrow> establish d (pe_timing e))
      else (pe_timing e, Inr ()))"

lemma written_timing_ok: "grace_ok e \<Longrightarrow> \<not> rt_poisoned (fst (written_timing written_at e))"
  by (auto simp: written_timing_def establish_def grace_ok_def split: sum.split)

lemma mark_written_tail:
  assumes inv: "pend_inv ops self" and e: "get_entry i self = Some e"
    and call: "(case entry_response_deadline e of
                  Inl err \<Rightarrow> (ops, self, [], Inl err)
                | Inr rd \<Rightarrow>
                    let (core, written, pub) = select_written env (set_response_deadline rd (ops (pe_core e)));
                        ops = ops(pe_core e := core)
                    in (case (if \<not> written then selected_error core else None) of
                          Some err \<Rightarrow>
                            (ops, remove_entry i self,
                             completion_dispatch \<lparr>co_entry = e, co_publication = pub, co_response = Inl err\<rparr>
                               @ [P_Changed], Inr written)
                        | None \<Rightarrow> (ops, self, map P_Op (dispatch pub) @ [P_Changed], Inr written)))
       = (ops', self', effects, r)"
  shows "table_progress ops self ops' self' effects []"
proof (cases "entry_response_deadline e")
  case (Inl err)
  then show ?thesis using call table_progress_refl [OF inv] by auto
next
  case (Inr rd)
  obtain core written pub where sel: "select_written env (set_response_deadline rd (ops (pe_core e))) = (core, written, pub)"
    by (cases "select_written env (set_response_deadline rd (ops (pe_core e)))") auto
  then show ?thesis using call Inr written_step [OF inv e sel] by (cases written) auto
qed

lemma mark_written_progress:
  assumes inv: "pend_inv ops self" and call: "mark_written now env reg written_at ops self = (ops', self', effects, r)"
  shows "table_progress ops self ops' self' effects []"
proof (cases "ops' = ops \<and> self' = self \<and> effects = []")
  case True
  then show ?thesis using table_progress_refl [OF inv] by simp
next
  case False
  define i where "i = reg_request_id reg"
  obtain e where m: "matching_entry self reg = Some e" and "belongs_to reg self" "\<not> np_poisoned self"
    using False call by (auto simp: mark_written_def split: asm_splits)
  have e: "get_entry i self = Some e" using matching_get [OF m] i_def by simp
  obtain timing established where wt: "written_timing written_at e = (timing, established)" by fastforce
  define e1 where "e1 = e\<lparr>pe_timing := timing\<rparr>"
  define s1 where "s1 = put_entry i e1 self"
  have p1: "pend_progress ops self ops s1 [] []"
    unfolding s1_def e1_def
    by (rule timing_step [OF inv e]) (use written_timing_ok [OF entry_grace_ok [OF inv e], of written_at] wt in simp)
  have g1: "get_entry i s1 = Some e1" by (simp add: s1_def)
  show ?thesis
  proof (cases "try_bind established (\<lambda>_. entry_deadline ops e1)")
    case (Inl err)
    then have "ops' = ops \<and> self' = s1 \<and> effects = []"
      using call m \<open>belongs_to reg self\<close> \<open>\<not> np_poisoned self\<close> wt
      unfolding mark_written_def written_timing_def [symmetric] s1_def e1_def i_def by auto
    then show ?thesis using table_progressI [OF p1] by simp
  next
    case (Inr dl)
    define extended where "extended = (if is_some_and dl (\<lambda>d. d \<le> now 0)
                                  then grace_deadline e1 (dispatches (np_state s1)) (now 1) (grace s1) False
                                  else None)"
    define e2 where "e2 = (case extended of Some d \<Rightarrow> enter_grace d timeout Cause_Expired e1 | None \<Rightarrow> e1)"
    define s2 where "s2 = put_entry i e2 s1"
    note inv1 = pend_progress_inv [OF p1]
    have e2_ok: "ticket e2 = ticket e1" "pe_registration e2 = pe_registration e1" "pe_request e2 = pe_request e1" "grace_ok e2"
      using enter_grace_ok [of e1] entry_grace_ok [OF inv1 g1]
      by (auto simp: e2_def extended_def split: option.splits if_splits)
    have p2: "pend_progress ops s1 ops s2 [] []" unfolding s2_def by (rule keep_same [OF inv1 g1 e2_ok])
    have g2: "get_entry i s2 = Some e2" by (simp add: s2_def)
    have "table_progress ops s2 ops' self' effects []"
      by (rule mark_written_tail [OF pend_progress_inv [OF p2] g2, where env = env and r = r])
        (use call m \<open>belongs_to reg self\<close> \<open>\<not> np_poisoned self\<close> wt Inr in \<open>simp only: mark_written_def
           written_timing_def [symmetric] Let_def s2_def e2_def extended_def s1_def e1_def i_def prod.case option.case sum.case
           simp_thms if_False if_True\<close>)
    then show ?thesis using progress_after_keep p1 p2 by blast
  qed
qed

section \<open>The loops\<close>

lemma fail_connection_entry_progress:
  assumes p: "pend_progress a s ops self cs []"
    and call: "fail_connection_entry now env err i (ops, self, cs) = (ops', self', cs')"
  shows "pend_progress a s ops' self' cs' []"
proof -
  note inv = pend_progress_inv [OF p]
  have "\<exists>ds. cs' = cs @ ds \<and> pend_progress ops self ops' self' ds []"
    using call inv unfolding fail_connection_entry_def fail_entry_def Let_def
    by (auto split: asm_splits intro: pend_progress_refl grace_step
        intro!: settle_remove [OF inv] dest: select_failure_agrees [OF entry_core(1,2) [OF inv]])
  then show ?thesis using pend_progress_trans [OF p] by fastforce
qed

lemma fail_connection_loop:
  assumes "pend_progress a s ops self cs []" and "fold (fail_connection_entry now env err) ids (ops, self, cs) = (ops', self', cs')"
  shows "pend_progress a s ops' self' cs' []"
  using assms
proof (induction ids arbitrary: ops self cs)
  case (Cons i ids)
  obtain o1 s1 c1 where step: "fail_connection_entry now env err i (ops, self, cs) = (o1, s1, c1)" by (metis prod_cases3)
  show ?case
    using Cons.IH [OF fail_connection_entry_progress [OF Cons.prems(1) step]] Cons.prems(2) step by simp
qed simp

lemma fail_connection_progress:
  assumes inv: "pend_inv ops self" and call: "fail_connection now env allocated con err ops self = (ops', self', effects, r)"
  shows "table_progress ops self ops' self' effects []"
proof (cases "np_poisoned self")
  case True
  then show ?thesis using call table_progress_refl [OF inv] by (auto simp: fail_connection_def)
next
  case False
  define s1 where "s1 = upd_pending (\<lambda>s. if active s = Some con then s\<lparr>active := None\<rparr> else s) self"
  have p1: "pend_progress ops self ops s1 [] []"
    unfolding s1_def by (rule frame_progress [OF inv]) (use inv in \<open>auto simp: pend_inv_def\<close>)
  show ?thesis
  proof (cases allocated)
    case True
    obtain cs where "fold (fail_connection_entry now env err)
        (map fst (filter (\<lambda>(_, e). pe_connection_id e = Some con) (entries (np_state s1)))) (ops, s1, []) = (ops', self', cs)"
      and eff: "effects = concat (map completion_dispatch cs) @ [P_Changed]"
      using call False True unfolding fail_connection_def Let_def s1_def [symmetric] by (auto split: prod.split_asm)
    then have "pend_progress ops self ops' self' cs []" using fail_connection_loop [OF p1] by blast
    then show ?thesis using eff by (intro table_progressI) auto
  next
    case no: False
    then show ?thesis using call False table_progressI [OF p1]
      unfolding fail_connection_def Let_def s1_def [symmetric] by auto
  qed
qed

text \<open>The timing of an entry is never poisoned, so its deadline can be read.\<close>

lemma entry_reads:
  assumes "grace_ok e"
  shows "\<exists>x. entry_timeout_error ops e = Inr x"
  using assms
  by (auto simp: grace_ok_def entry_timeout_error_def entry_budget_def entry_response_deadline_def timing_deadline_def
      try_bind_def Let_def split: option.split)

lemma expire_loop_progress:
  assumes "pend_progress a s ops self cs []" and "expire_loop now env ids ops self cs = (ops', self', r)"
  shows "\<exists>cs'. r = Inr cs' \<and> pend_progress a s ops' self' cs' []"
  using assms
proof (induction ids arbitrary: ops self cs)
  case (Cons i ids)
  note inv = pend_progress_inv [OF Cons.prems(1)]
  show ?case
  proof (cases "get_entry i self")
    case None
    then show ?thesis using Cons by simp
  next
    case (Some e)
    show ?thesis
    proof (cases "if grace_used e then None else grace_deadline e (dispatches (np_state self)) now (grace self) False")
      case None
      obtain err where err: "entry_timeout_error ops e = Inr err" using entry_reads [OF entry_grace_ok [OF inv Some]] by blast
      obtain core o1 pub where sel: "select_failure (env (pe_core e)) (ops (pe_core e)) err
          (map_or Cause_Expired (\<lambda>c. c) (deferred_cause e)) = (core, o1, pub)" by (metis prod_cases3)
      let ?c = "\<lparr>co_entry = e, co_publication = pub, co_response = Inl (selected_error_or core err)\<rparr>"
      have "pend_progress ops self (ops(pe_core e := core)) (remove_entry i self) [?c] []"
        using settle_remove [OF inv Some] select_failure_agrees [OF entry_core(1,2) [OF inv Some] sel] by blast
      then have next1: "pend_progress a s (ops(pe_core e := core)) (remove_entry i self) (cs @ [?c]) []"
        using pend_progress_trans [OF Cons.prems(1)] by fastforce
      have "expire_loop now env ids (ops(pe_core e := core)) (remove_entry i self) (cs @ [?c]) = (ops', self', r)"
        using Cons.prems(2) Some None err sel by (simp only: expire_loop.simps option.case sum.case Let_def prod.case)
      then show ?thesis by (rule Cons.IH [OF next1])
    next
      case g: (Some d)
      then have gd: "grace_deadline e (dispatches (np_state self)) now (grace self) False = Some d" by (auto split: if_splits)
      have next2: "pend_progress a s (ops(pe_core e := set_response_deadline (Some d) (ops (pe_core e))))
          (put_entry i (enter_grace d timeout Cause_Expired e) self) cs []"
        using pend_progress_trans [OF Cons.prems(1) grace_step [OF inv Some gd]] by simp
      have "expire_loop now env ids (ops(pe_core e := set_response_deadline (Some d) (ops (pe_core e))))
          (put_entry i (enter_grace d timeout Cause_Expired e) self) cs = (ops', self', r)"
        using Cons.prems(2) Some g by (simp only: expire_loop.simps option.case)
      then show ?thesis by (rule Cons.IH [OF next2])
    qed
  qed
qed auto

lemma expire_due_progress:
  assumes inv: "pend_inv ops self" and call: "expire_due now env allocated ops self = (ops', self', effects, r)"
  shows "table_progress ops self ops' self' effects []"
proof -
  define s1 where "s1 = upd_pending (\<lambda>s. s\<lparr>dispatches := filter (\<lambda>(_, r). now < expires_at r) (dispatches s)\<rparr>) self"
  have p1: "pend_progress ops self ops s1 [] []" unfolding s1_def by (rule drop_dispatches_progress [OF inv])
  have "\<exists>cs. pend_progress ops self ops' self' cs [] \<and> effects = concat (map completion_dispatch cs)"
    using call pend_progress_refl [OF inv] p1 unfolding expire_due_def Let_def s1_def [symmetric]
    by (auto split: asm_splits dest!: expire_loop_progress [OF p1])
  then show ?thesis by (auto intro: table_progressI)
qed

section \<open>Closing\<close>

definition all_settled ::
  "(request_id \<times> pending_entry) list \<Rightarrow> op_store \<Rightarrow> op_store \<Rightarrow> completion list \<Rightarrow> bool" where
  "all_settled es ops ops' cs \<longleftrightarrow>
     map co_entry cs = map snd es \<and> (\<forall>c \<in> set cs. agrees (ops' (pe_core (co_entry c))) (co_response c))
   \<and> (\<forall>o1. o1 \<notin> (pe_core \<circ> snd) ` set es \<longrightarrow> ops' o1 = ops o1) \<and> ops_latch ops ops'"

lemma all_settled_Cons:
  assumes core: "op_inv (ops (pe_core e))" "op_outcome (ops (pe_core e)) = None"
    and sel: "select_failure env (ops (pe_core e)) err cause = (core, o1, pub)"
    and rest: "all_settled es (ops(pe_core e := core)) ops' cs"
  shows "all_settled ((i, e) # es) ops ops' (\<lparr>co_entry = e, co_publication = pub, co_response = Inl (selected_error_or core err')\<rparr> # cs)"
proof -
  have "ops_latch ops (ops(pe_core e := core))"
    using select_failure_agrees(1) [OF core sel] core(2) by (intro ops_latch_upd) auto
  then have "ops_latch ops ops'" using rest ops_latch_trans by (auto simp: all_settled_def)
  moreover have "agrees (ops' (pe_core e)) (Inl (selected_error_or core err'))"
    using agrees_latch [of "ops(pe_core e := core)" "pe_core e"] select_failure_agrees(2) [OF core sel] rest
    by (simp add: all_settled_def)
  ultimately show ?thesis using rest by (auto simp: all_settled_def)
qed

definition open_entries :: "op_store \<Rightarrow> (request_id \<times> pending_entry) list \<Rightarrow> bool" where
  "open_entries ops es \<longleftrightarrow> distinct (map (pe_core \<circ> snd) es)
     \<and> (\<forall>(_, e) \<in> set es. op_inv (ops (pe_core e)) \<and> op_outcome (ops (pe_core e)) = None)"

lemma open_entries_Cons:
  "open_entries ops ((i, e) # es) \<Longrightarrow> op_inv (ops (pe_core e)) \<and> op_outcome (ops (pe_core e)) = None
     \<and> open_entries (ops(pe_core e := core)) es"
  by (force simp: open_entries_def)

lemma fail_all_settles: "open_entries ops es \<Longrightarrow> fail_all env err cause es ops = (ops', cs) \<Longrightarrow> all_settled es ops ops' cs"
proof (induction es arbitrary: ops cs)
  case (Cons p es)
  obtain i e where p: "p = (i, e)" by fastforce
  then show ?case
    using Cons open_entries_Cons [of ops i e es]
    by (auto simp: fail_entry_def Let_def split: prod.split_asm intro!: all_settled_Cons)
qed (simp add: all_settled_def)

lemma drop_all_settles: "open_entries ops es \<Longrightarrow> drop_all env es ops = (ops', cs) \<Longrightarrow> all_settled es ops ops' cs"
proof (induction es arbitrary: ops cs)
  case (Cons p es)
  obtain i e where p: "p = (i, e)" by fastforce
  then show ?case
    using Cons open_entries_Cons [of ops i e es]
    by (auto split: prod.split_asm intro!: all_settled_Cons)
qed (simp add: all_settled_def)

lemma pend_inv_open:
  assumes inv: "pend_inv ops self"
  shows "open_entries ops (filter P (entries (np_state self)))"
proof -
  have ok: "entry_ok ops self i e" if "(i, e) \<in> set (entries (np_state self))" for i e
    using inv that by (auto simp: pend_inv_def)
  have "inj_on (pe_core \<circ> snd) (set (entries (np_state self)))"
  proof (rule inj_onI, clarsimp)
    fix i e j f
    assume m: "(i, e) \<in> set (entries (np_state self))" "(j, f) \<in> set (entries (np_state self))" "pe_core e = pe_core f"
    then have "i = j" using entry_core_unique ok by blast
    then show "i = j \<and> e = f" using m inv by (auto simp: pend_inv_def eq_key_imp_eq_value)
  qed
  moreover have "distinct (entries (np_state self))" using inv by (auto simp: pend_inv_def distinct_map)
  ultimately have "distinct (map (pe_core \<circ> snd) (entries (np_state self)))" by (simp add: distinct_map)
  then show ?thesis using ok by (auto simp: open_entries_def filter_map_distinct entry_ok_def)
qed

lemma settle_many:
  assumes inv: "pend_inv ops self" and fin: "all_settled (filter P (entries (np_state self))) ops ops' cs"
    and s: "entries (np_state self') = filter (\<lambda>p. \<not> P p) (entries (np_state self))"
      "next_token (np_state self') = next_token (np_state self)" "np_self self' = np_self self"
      "max_dispatches self' = max_dispatches self" "next_dispatch (np_state self') = next_dispatch (np_state self)"
      "closed (np_state self') \<longrightarrow> active (np_state self') = None" "closed (np_state self) \<longrightarrow> closed (np_state self')"
    and ds: "dispatches (np_state self') = [] \<or> dispatches (np_state self') = dispatches (np_state self)"
  shows "pend_progress ops self ops' self' cs []"
proof -
  have other: "entry_ok ops' self' i e" if m: "(i, e) \<in> set (entries (np_state self))" and n: "\<not> P (i, e)" for i e
  proof -
    have ok: "entry_ok ops self i e" using inv m by (auto simp: pend_inv_def)
    have "pe_core e \<notin> (pe_core \<circ> snd) ` set (filter P (entries (np_state self)))"
    proof clarsimp
      fix j f
      assume f: "(j, f) \<in> set (entries (np_state self))" "P (j, f)" "pe_core e = pe_core f"
      then have "entry_ok ops self j f" using inv by (auto simp: pend_inv_def)
      then have "i = j" using entry_core_unique [OF ok] f by blast
      then have "e = f" using m f inv by (auto simp: pend_inv_def eq_key_imp_eq_value)
      then show False using n f \<open>i = j\<close> by simp
    qed
    then have "ops' (pe_core e) = ops (pe_core e)" using fin by (simp add: all_settled_def)
    then show ?thesis using ok s by (simp add: entry_ok_def)
  qed
  then have "pend_inv ops' self'"
    using inv s ds unfolding pend_inv_def by (auto simp: filter_map_distinct)
  moreover have "mset (tickets self) = mset (tickets self') + mset (map (\<lambda>c. ticket (co_entry c)) cs)"
  proof -
    have "map (\<lambda>c. ticket (co_entry c)) cs = map ticket (map co_entry cs)" by simp
    also have "\<dots> = map (\<lambda>p. ticket (snd p)) (filter P (entries (np_state self)))"
      using fin by (simp add: all_settled_def)
    finally show ?thesis using s(1) partition_mset by (simp add: tickets_def)
  qed
  ultimately show ?thesis using fin s by (simp add: pend_progress_def all_settled_def)
qed

lemma close_progress:
  assumes inv: "pend_inv ops self" and call: "pending_close env err cause ops self = (ops', self', effects, r)"
  shows "table_progress ops self ops' self' effects []"
proof (cases "np_poisoned self")
  case True
  then show ?thesis using call table_progress_refl [OF inv] by (auto simp: pending_close_def)
next
  case False
  obtain cs where f: "fail_all env err cause (filter (\<lambda>_. True) (entries (np_state self))) ops = (ops', cs)"
    and s: "self' = upd_pending (\<lambda>s. s\<lparr>closed := True, active := None, entries := [], dispatches := []\<rparr>) self"
    and eff: "effects = P_CloseAdmission (admission_closed self) # concat (map completion_dispatch cs) @ [P_Changed]"
    using call False by (auto simp: pending_close_def split: prod.split_asm)
  have "pend_progress ops self ops' self' cs []"
    by (rule settle_many [OF inv fail_all_settles [OF pend_inv_open [OF inv] f]]) (simp_all add: s)
  then show ?thesis using eff by (intro table_progressI) auto
qed

lemma close_disconnected_progress:
  assumes inv: "pend_inv ops self" and call: "close_disconnected now env allocated err ops self = (ops', self', effects, r)"
  shows "table_progress ops self ops' self' effects []"
proof (cases "np_poisoned self \<or> \<not> allocated")
  case True
  then have "ops' = ops" "self' = self" "effects = []"
    using call by (auto simp: close_disconnected_def split: if_split_asm)
  then show ?thesis using table_progress_refl [OF inv] by simp
next
  case False
  obtain cs where f: "fail_all env err Cause_Disconnected (filter (\<lambda>(_, e). \<not> retained now e) (entries (np_state self))) ops = (ops', cs)"
    and s: "self' = upd_pending (\<lambda>s. s\<lparr>closed := True, active := None,
        entries := filter (\<lambda>(_, e). retained now e) (entries (np_state self)),
        dispatches := (if filter (\<lambda>(_, e). retained now e) (entries (np_state self)) = [] then [] else dispatches s)\<rparr>) self"
    and eff: "effects = P_CloseAdmission (admission_closed self) # concat (map completion_dispatch cs) @ [P_Changed]"
    using call False by (auto simp: close_disconnected_def Let_def split: prod.split_asm)
  have "pend_progress ops self ops' self' cs []"
    by (rule settle_many [OF inv fail_all_settles [OF pend_inv_open [OF inv] f]]) (auto simp: s intro!: filter_cong)
  then show ?thesis using eff by (intro table_progressI) auto
qed

lemma drop_progress:
  assumes inv: "pend_inv ops self" and call: "pending_drop env ops self = (ops', self', effects)"
  shows "table_progress ops self ops' self' effects []"
proof -
  obtain cs where f: "drop_all env (filter (\<lambda>_. True) (entries (np_state self))) ops = (ops', cs)"
    and s: "self' = upd_pending (\<lambda>s. s\<lparr>entries := []\<rparr>) self"
    and eff: "effects = P_CloseAdmission (admission_closed self) # P_Changed # concat (map completion_dispatch cs)"
    using call by (auto simp: pending_drop_def split: prod.split_asm)
  have "pend_progress ops self ops' self' cs []"
    by (rule settle_many [OF inv drop_all_settles [OF pend_inv_open [OF inv] f]])
      (use inv in \<open>simp_all add: s pend_inv_def\<close>)
  then show ?thesis using eff by (intro table_progressI) auto
qed

section \<open>Registration\<close>

lemma register_admit_facts:
  assumes "register_admit vclk now allocated request options core self = Inr (tok, dl)"
  shows "checked_add (next_token (np_state self)) 1 = Some tok" and "get_entry (req_id request) self = None"
    and "op_outcome core = None" and "\<not> closed (np_state self)" and "\<not> np_poisoned self"
proof -
  have "checked_add (next_token (np_state self)) 1 = Some tok \<and> get_entry (req_id request) self = None
      \<and> op_outcome core = None \<and> \<not> closed (np_state self) \<and> \<not> np_poisoned self"
    using assms unfolding register_admit_def register_deadline_def try_bind_def ok_or_def op_snapshot_def
    by (auto split: asm_splits response_timeout_origin.split_asm)
  then show "checked_add (next_token (np_state self)) 1 = Some tok" "get_entry (req_id request) self = None"
    "op_outcome core = None" "\<not> closed (np_state self)" "\<not> np_poisoned self" by blast+
qed

lemma bind_request_facts:
  assumes "bind_request env table i tok core = (c, Inr u)"
  shows "os_pending (op_state core) = None"
    and "os_pending (op_state c) = Some \<lparr>pi_table = table, pi_id = i, pi_token = tok\<rparr>"
  using assms by (auto simp: bind_request_def is_some_def split: asm_splits)

lemma bind_request_refused: "bind_request env table i tok core = (c, Inl e) \<Longrightarrow> c = core"
  by (auto simp: bind_request_def split: asm_splits)

lemma new_entry_progress:
  assumes inv: "pend_inv ops self" and tok: "checked_add (next_token (np_state self)) 1 = Some tok"
    and fresh: "get_entry i self = None" and old: "os_pending (op_state (ops o1)) = None" "op_outcome (ops o1) = None"
    and core: "op_inv core" "op_outcome core = None" "tracked core"
      "os_pending (op_state core) = Some \<lparr>pi_table = np_self self, pi_id = i, pi_token = tok\<rparr>"
    and e: "pe_core e = o1" "req_id (pe_request e) = i" "reg_request_id (pe_registration e) = i"
      "reg_pending (pe_registration e) = np_self self" "reg_token (pe_registration e) = tok" "grace_ok e"
  shows "pend_progress ops self (ops(o1 := core)) (put_entry i e (upd_pending (\<lambda>s. s\<lparr>next_token := tok\<rparr>) self)) [] [ticket e]"
proof -
  let ?s = "put_entry i e (upd_pending (\<lambda>s. s\<lparr>next_token := tok\<rparr>) self)"
  have lt: "next_token (np_state self) \<le> tok" using checked_add_gt [OF tok] by simp
  have new: "i \<notin> fst ` set (entries (np_state self))"
    using fresh by (auto simp: get_entry_def map_of_eq_None_iff)
  have other: "entry_ok (ops(o1 := core)) ?s j f" if "(j, f) \<in> set (entries (np_state self))" for j f
  proof -
    have ok: "entry_ok ops self j f" using inv that by (auto simp: pend_inv_def)
    then have "pe_core f \<noteq> o1" using old by (auto simp: entry_ok_def)
    then show ?thesis using ok lt by (intro entry_ok_frame [of ops self]) auto
  qed
  have "entry_ok (ops(o1 := core)) ?s i e" using core e by (simp add: entry_ok_def)
  moreover have "\<forall>(d, r) \<in> set (dispatches (np_state self)). token_watermark r \<le> tok"
    using inv lt by (fastforce simp: pend_inv_def)
  ultimately have "pend_inv (ops(o1 := core)) ?s"
    using inv new other unfolding pend_inv_def by (auto simp: update_new)
  moreover have "mset (tickets ?s) = mset (tickets self) + {#ticket e#}"
    using new by (simp add: tickets_def update_new)
  moreover have "ops_latch ops (ops(o1 := core))" using core old by (intro ops_latch_upd) auto
  ultimately show ?thesis using lt by (simp add: pend_progress_def)
qed

definition registered :: "op_id \<Rightarrow> lease \<Rightarrow> channel \<Rightarrow> (request_handle, net_error) result \<Rightarrow> (op_id \<times> lease \<times> channel) list" where
  "registered o1 permit chan r = (case r of Inr _ \<Rightarrow> [(o1, permit, chan)] | Inl _ \<Rightarrow> [])"

lemma register_progress:
  assumes inv: "pend_inv ops self" and ok: "op_inv (ops o1)" "tracked (ops o1)"
    and call: "register vclk now env allocated request options o1 permit chan ops self = (ops', self', effects, r)"
  shows "table_progress ops self ops' self' effects (registered o1 permit chan r)"
proof (cases "register_admit vclk now allocated request options (ops o1) self")
  case (Inl err)
  then show ?thesis using call table_progress_refl [OF inv] by (auto simp: register_def registered_def)
next
  case (Inr adm)
  obtain tok dl where td: "adm = (tok, dl)" by fastforce
  note facts = register_admit_facts [OF Inr [unfolded td]]
  obtain c b where b: "bind_request env (np_self self) (req_id request) tok (ops o1) = (c, b)" by fastforce
  show ?thesis
  proof (cases b)
    case e: (Inl err)
    then have "c = ops o1" using b bind_request_refused by blast
    then show ?thesis using call Inr td b e table_progress_refl [OF inv] by (auto simp: register_def registered_def Let_def)
  next
    case s: (Inr u)
    note bind = bind_request_facts [OF b [unfolded s]]
    have q: "op_quiet (ops o1) c" using quiet_ops(4) [of "ops o1" env "np_self self" "req_id request" tok] b by simp
    have "op_inv c" using op_progress_quiet [OF ok(1) q] by (simp add: op_progress_def)
    then have core: "op_inv (set_response_deadline dl c)" "op_outcome (set_response_deadline dl c) = None"
        "tracked (set_response_deadline dl c)"
        "os_pending (op_state (set_response_deadline dl c))
           = Some \<lparr>pi_table = np_self self, pi_id = req_id request, pi_token = tok\<rparr>"
      using q facts(3) ok(2) bind(2) set_response_deadline_keeps by (simp_all add: op_quiet_def same_config_def)
    show ?thesis
    proof (rule table_progressI)
      show "pend_progress ops self ops' self' [] (registered o1 permit chan r)"
        using call Inr td b s
          new_entry_progress [OF inv facts(1,2) bind(1) facts(3) core, of "\<lparr>pe_request = request, pe_core = o1,
            pe_registration = \<lparr>reg_request_id = req_id request, reg_session_id = np_session_id self, registered_at = now,
              reg_token = tok, reg_pending = np_self self\<rparr>,
            pe_timing = \<lparr>rt_deadline = dl, rt_poisoned = False\<rparr>, pe_connection_id = None,
            bound_at = None, pe_response_timeout = ro_response_timeout options,
            timeout_origin = ro_response_timeout_origin options,
            absolute_deadline = so_deadline (ro_send options), pe_grace_deadline = None,
            grace_used = False, deferred_error = None, deferred_cause = None,
            pe_response = chan, pe_permit = permit\<rparr>"]
        by (auto simp: register_def registered_def Let_def ticket_def grace_ok_def is_none_or_def)
    qed (use call Inr td b s in \<open>auto simp: register_def Let_def\<close>)
  qed
qed

section \<open>Operations on their own\<close>

text \<open>
  The calls on an operation that does not go through its table. Settling a bound operation does: the
  table's lock is taken first, so an operation that waits in a table is not settled from outside.
\<close>

fun outside :: "op_event \<Rightarrow> bool" where
  "outside (Ev_BindRequest _ _ _ _) = False"
| "outside (Ev_SelectWritten _) = False"
| "outside (Ev_SelectResponse _) = False"
| "outside (Ev_SelectFailure _ _ _) = False"
| "outside _ = True"

lemma outside_pending:
  assumes "outside ev"
  shows "os_pending (op_state (op_next ev self)) = os_pending (op_state self)"
proof (cases ev)
  case (Ev_StartDataWrite env continuation)
  then show ?thesis using open_data_attempt_state [of self]
    by (auto simp: start_data_write_locked_def begin_write_attempt_def notify_observer_def check_active_def Let_def
        split: sum.splits prod.splits if_splits)
next
  case (Ev_BeginWriteAttempt env)
  then show ?thesis using open_data_attempt_state [of self]
    by (auto simp: begin_write_attempt_def notify_observer_def Let_def split: sum.splits prod.splits if_splits)
qed (use assms in \<open>auto simp: set_retry_started_def set_response_deadline_def bind_queue_def bind_cancellation_def
      prepare_def enqueue_def mark_writing_def bind_write_retirement_def op_requeue_def raw_retry_first_def raw_retry_second_def
      Let_def split: sum.splits prod.splits if_splits option.splits\<close>)

lemma outside_outcome:
  assumes "outside ev" and inv: "op_inv self"
  shows "op_outcome (op_next ev self) = op_outcome self"
proof (cases "op_outcome self")
  case (Some r)
  then show ?thesis using op_step_progress [OF inv, of ev] by (simp add: op_progress_def)
next
  case None
  show ?thesis
  proof (cases ev)
    case (Ev_StartDataWrite env continuation)
    obtain s effects r where call: "start_data_write_locked env continuation self = (s, effects, r)" by (metis prod_cases3)
    then show ?thesis using start_data_write_progress [OF inv call] None Ev_StartDataWrite
      by (auto simp: op_progress_def split: if_split_asm)
  next
    case (Ev_BeginWriteAttempt env)
    then show ?thesis using op_step_progress [OF inv, of ev] None open_data_attempt_state [of self]
      by (auto simp: begin_write_attempt_def notify_observer_def Let_def split: sum.splits prod.splits if_splits)
  next
    case (Ev_BindCancellation st h allocated)
    then show ?thesis using quiet_bind_cancellation [of self st h allocated] None
      by (auto simp: op_quiet_def split: prod.splits)
  next
    case (Ev_BindWriteRetirement tok)
    then show ?thesis using quiet_ops(5) [of self tok] None by (simp add: op_quiet_def)
  qed (use assms None quiet_ops quiet_phases quiet_mark_writing quiet_requeue quiet_retry_first quiet_retry_second
      in \<open>simp_all add: op_quiet_def\<close>)
qed

lemma op_event_progress:
  assumes inv: "pend_inv ops self" and op: "op_inv (ops o1)"
    and guard: "outside ev \<or> os_pending (op_state (ops o1)) = None"
  shows "table_progress ops self (ops(o1 := op_next ev (ops o1))) self (map P_Op effects) []"
proof (rule table_progressI)
  note prog = op_step_progress [OF op, of ev]
  have latch: "ops_latch ops (ops(o1 := op_next ev (ops o1)))"
    using prog by (auto simp: ops_latch_def op_progress_def)
  have "entry_ok (ops(o1 := op_next ev (ops o1))) self i e" if m: "(i, e) \<in> set (entries (np_state self))" for i e
  proof -
    have ok: "entry_ok ops self i e" using inv m by (auto simp: pend_inv_def)
    show ?thesis
    proof (cases "pe_core e = o1")
      case True
      then have out: "outside ev" using guard ok by (auto simp: entry_ok_def)
      have "tracked (op_next ev (ops o1)) = tracked (ops o1)" "op_inv (op_next ev (ops o1))"
        using prog by (simp_all add: op_progress_def same_config_def)
      then show ?thesis using True ok outside_pending [OF out] outside_outcome [OF out op] by (simp add: entry_ok_def)
    next
      case False
      then show ?thesis using entry_ok_frame [OF ok] by simp
    qed
  qed
  then have "pend_inv (ops(o1 := op_next ev (ops o1))) self" using inv by (auto simp: pend_inv_def)
  then show "pend_progress ops self (ops(o1 := op_next ev (ops o1))) self [] []"
    using latch by (simp add: pend_progress_def)
qed auto

end
