(* ===== verification/Pending_History.thy ===== *)
theory Pending_History
  imports Pending_Machine Machine
begin

text \<open>
  Whole histories of the request table: any sequence of the table's calls and of the calls on the
  operations, interpreted as a machine whose invariant accounts for every registered request. The
  properties of the table are stated here.
\<close>

section \<open>The machine of a table\<close>

datatype table_call =
    Tc_Register clock instant op_env bool request request_options op_id lease channel
  | Tc_Activate connection_id
  | Tc_Bind instant request_registration connection_id
  | Tc_Written clock op_env request_registration instant
  | Tc_Refresh instant op_env request_id u64
  | Tc_Requeue instant op_env request_registration
  | Tc_Terminate op_env request_id u64 net_error task_end_cause
  | Tc_Complete instant op_env request_id incoming_message
  | Tc_RegisterDispatch instant bool incoming_message
  | Tc_Resolve instant op_env request_registration incoming_message
  | Tc_Discard incoming_message
  | Tc_FailConnection "request_id \<Rightarrow> clock" "op_id \<Rightarrow> op_env" bool connection_id net_error
  | Tc_Close "op_id \<Rightarrow> op_env" net_error task_end_cause
  | Tc_CloseDisconnected instant "op_id \<Rightarrow> op_env" bool net_error
  | Tc_ExpireDue instant "op_id \<Rightarrow> op_env" bool
  | Tc_NextDeadline
  | Tc_Drop "op_id \<Rightarrow> op_env"
  | Tc_Operation op_id op_event

text \<open>The world of one table: the operations, the table, and the log of what was done and registered.
  A call that its callers cannot make (registering an operation that is not tracked, settling a bound
  operation from outside) leaves the world as it is.\<close>

record table_world =
  w_ops :: op_store
  w_table :: native_pending
  w_log :: "pend_effect list"
  w_registered :: "(op_id \<times> lease \<times> channel) list"

definition enabled :: "table_call \<Rightarrow> table_world \<Rightarrow> bool" where
  "enabled c w =
     (case c of
        Tc_Register _ _ _ _ _ _ o1 _ _ \<Rightarrow> tracked (w_ops w o1)
      | Tc_Operation o1 ev \<Rightarrow> outside ev \<or> os_pending (op_state (w_ops w o1)) = None
      | _ \<Rightarrow> True)"

fun call_table :: "table_call \<Rightarrow> op_store \<Rightarrow> native_pending
    \<Rightarrow> op_store \<times> native_pending \<times> pend_effect list \<times> (op_id \<times> lease \<times> channel) list" where
  "call_table (Tc_Register vclk now env allocated request options o1 permit chan) ops self =
     (let (ops, self, effects, r) = register vclk now env allocated request options o1 permit chan ops self
      in (ops, self, effects, registered o1 permit chan r))"
| "call_table (Tc_Activate con) ops self = (let (self, _) = activate_connection con self in (ops, self, [], []))"
| "call_table (Tc_Bind now reg con) ops self = (let (self, _) = bind_connection now reg con self in (ops, self, [], []))"
| "call_table (Tc_Written now env reg t) ops self =
     (let (ops, self, effects, _) = mark_written now env reg t ops self in (ops, self, effects, []))"
| "call_table (Tc_Refresh now env i tok) ops self =
     (let (ops, self, effects, _) = refresh_response_deadline now env i tok ops self in (ops, self, effects, []))"
| "call_table (Tc_Requeue now env reg) ops self =
     (let (ops, self, _) = pending_requeue now env reg ops self in (ops, self, [], []))"
| "call_table (Tc_Terminate env i tok err cause) ops self =
     (let (ops, self, effects, _) = pending_terminate env i tok err cause ops self in (ops, self, effects, []))"
| "call_table (Tc_Complete now env i incoming) ops self =
     (let (ops, self, effects, _) = complete_response now env i incoming ops self in (ops, self, effects, []))"
| "call_table (Tc_RegisterDispatch now allocated incoming) ops self =
     (let (_, self, effects, _) = register_dispatch now allocated incoming self in (ops, self, effects, []))"
| "call_table (Tc_Resolve now env reg incoming) ops self =
     (let (ops, self, effects, _) = pending_resolve now env reg incoming ops self in (ops, self, effects, []))"
| "call_table (Tc_Discard incoming) ops self =
     (let (self, effects, _) = discard_dispatch incoming self in (ops, self, effects, []))"
| "call_table (Tc_FailConnection now env allocated con err) ops self =
     (let (ops, self, effects, _) = fail_connection now env allocated con err ops self in (ops, self, effects, []))"
| "call_table (Tc_Close env err cause) ops self =
     (let (ops, self, effects, _) = pending_close env err cause ops self in (ops, self, effects, []))"
| "call_table (Tc_CloseDisconnected now env allocated err) ops self =
     (let (ops, self, effects, _) = close_disconnected now env allocated err ops self in (ops, self, effects, []))"
| "call_table (Tc_ExpireDue now env allocated) ops self =
     (let (ops, self, effects, _) = expire_due now env allocated ops self in (ops, self, effects, []))"
| "call_table Tc_NextDeadline ops self = (let (self, _) = next_deadline ops self in (ops, self, [], []))"
| "call_table (Tc_Drop env) ops self =
     (let (ops, self, effects) = pending_drop env ops self in (ops, self, effects, []))"
| "call_table (Tc_Operation o1 ev) ops self =
     (let (core, effects) = op_step ev (ops o1) in (ops(o1 := core), self, map P_Op effects, []))"

definition world_step :: "table_call \<Rightarrow> table_world \<Rightarrow> table_world" where
  "world_step c w =
     (if enabled c w
      then (let (ops, self, effects, arrived) = call_table c (w_ops w) (w_table w)
            in \<lparr>w_ops = ops, w_table = self, w_log = w_log w @ effects, w_registered = w_registered w @ arrived\<rparr>)
      else w)"

definition world_new :: "op_store \<Rightarrow> native_pending \<Rightarrow> table_world" where
  "world_new ops self = \<lparr>w_ops = ops, w_table = self, w_log = [], w_registered = []\<rparr>"

lemma call_table_progress:
  assumes inv: "pend_inv (w_ops w) (w_table w)" and ops: "\<forall>o1. op_inv (w_ops w o1)" and en: "enabled c w"
    and call: "call_table c (w_ops w) (w_table w) = (ops, self, effects, arrived)"
  shows "table_progress (w_ops w) (w_table w) ops self effects arrived"
proof (cases c)
  case (Tc_Register vclk now env allocated request options o1 permit chan)
  then show ?thesis using call en ops register_progress [OF inv] by (auto simp: enabled_def split: prod.split_asm)
next
  case (Tc_Operation o1 ev)
  then show ?thesis using call en op_event_progress [OF inv, of o1 ev] ops by (auto simp: enabled_def split: prod.split_asm)
qed (use call activate_connection_progress [OF inv] bind_connection_progress [OF inv] mark_written_progress [OF inv]
      refresh_progress [OF inv] requeue_progress [OF inv] terminate_progress [OF inv]
      complete_response_progress [OF inv] register_dispatch_progress [OF inv] resolve_progress [OF inv]
      discard_dispatch_progress [OF inv] fail_connection_progress [OF inv] close_progress [OF inv]
      close_disconnected_progress [OF inv] expire_due_progress [OF inv] next_deadline_progress [OF inv] drop_progress [OF inv]
      in \<open>auto split: prod.split_asm\<close>)

definition world_inv :: "table_world \<Rightarrow> bool" where
  "world_inv w \<longleftrightarrow> (\<forall>o1. op_inv (w_ops w o1))
     \<and> (\<exists>ops0 self0. tickets self0 = [] \<and> table_progress ops0 self0 (w_ops w) (w_table w) (w_log w) (w_registered w))"

lemma table_progress_trans:
  assumes "table_progress a s b t e1 xs" and "table_progress b t c u e2 ys"
  shows "table_progress a s c u (e1 @ e2) (xs @ ys)"
  using assms pend_progress_trans by (fastforce simp: table_progress_def)

lemma world_inv_step: "world_inv w \<Longrightarrow> world_inv (world_step c w)"
proof -
  assume w: "world_inv w"
  then obtain ops0 self0 where start: "tickets self0 = []"
    "table_progress ops0 self0 (w_ops w) (w_table w) (w_log w) (w_registered w)" and ops: "\<forall>o1. op_inv (w_ops w o1)"
    by (auto simp: world_inv_def)
  have inv: "pend_inv (w_ops w) (w_table w)" using start(2) by (auto simp: table_progress_def pend_progress_def)
  show "world_inv (world_step c w)"
  proof (cases "enabled c w")
    case True
    obtain ops' self effects arrived where call: "call_table c (w_ops w) (w_table w) = (ops', self, effects, arrived)"
      by (metis prod_cases4)
    have p: "table_progress (w_ops w) (w_table w) ops' self effects arrived"
      by (rule call_table_progress [OF inv ops True call])
    then have "\<forall>o1. op_inv (ops' o1)" using ops by (auto simp: table_progress_def pend_progress_def ops_latch_def)
    then show ?thesis using True call start(1) table_progress_trans [OF start(2) p]
      by (auto simp: world_step_def world_inv_def)
  qed (use w in \<open>simp add: world_step_def\<close>)
qed

text \<open>Closing is final: a closed table stays closed.\<close>

definition closed_mark :: "table_world \<Rightarrow> unit option" where
  "closed_mark w = (if closed (np_state (w_table w)) then Some () else None)"

lemma closed_step: "world_inv w \<Longrightarrow> closed (np_state (w_table w)) \<Longrightarrow> closed (np_state (w_table (world_step c w)))"
  using call_table_progress [of w c]
  by (auto simp: world_step_def world_inv_def table_progress_def pend_progress_def split: prod.split)

interpretation tab: latch world_step world_inv closed_mark
  by unfold_locales (auto intro: world_inv_step closed_step simp: closed_mark_def split: if_splits)

text \<open>A world starts with new operations and a new table.\<close>

definition new_ops ::
  "client_id \<Rightarrow> session_id \<Rightarrow> (op_id \<Rightarrow> operation_id \<times> send_options \<times> bool \<times> task_source \<times> reservation \<times> ws_timeout_phase)
     \<Rightarrow> u64 \<Rightarrow> instant \<Rightarrow> (op_id \<Rightarrow> token \<times> token) \<Rightarrow> op_store" where
  "new_ops client sess desc seed now toks o1 =
     (case (desc o1, toks o1) of ((i, options, is_tracked, source, reserved, dphase), (ctok, wtok)) \<Rightarrow>
        new_with_deadline_phase client sess i options is_tracked source reserved dphase seed now ctok wtok)"

lemma new_ops_inv: "op_inv (new_ops client sess desc seed now toks o1)"
  by (simp add: new_ops_def op_inv_new split: prod.split)

lemma pending_new_inv:
  assumes "pending_new max_permits now client sess limits max_disp table tok = Inr self"
  shows "pend_inv ops self" and "tickets self = []"
  using assms by (auto simp: pending_new_def try_bind_def pend_inv_def tickets_def split: asm_splits)

lemma world_new_inv:
  assumes "pending_new max_permits now client sess limits max_disp table tok = Inr self" and "\<And>o1. op_inv (ops o1)"
  shows "world_inv (world_new ops self)"
  using assms pending_new_inv [OF assms(1)] table_progress_refl [of ops self "[]"]
  by (auto simp: world_inv_def world_new_def)

definition table_run :: "table_call list \<Rightarrow> op_store \<Rightarrow> native_pending \<Rightarrow> table_world" where
  "table_run calls ops self = fold world_step calls (world_new ops self)"

text \<open>The completions of a whole history: they account for every registered request that has left.\<close>

definition accounts :: "table_world \<Rightarrow> completion list \<Rightarrow> bool" where
  "accounts w cs \<longleftrightarrow> pend_inv (w_ops w) (w_table w)
     \<and> mset (w_registered w) = mset (tickets (w_table w)) + mset (map (\<lambda>c. ticket (co_entry c)) cs)
     \<and> (\<forall>c \<in> set cs. agrees (w_ops w (pe_core (co_entry c))) (co_response c))
     \<and> sends (w_log w) = map answer_of cs \<and> dropped_leases (w_log w) = map lease_of cs"

lemma reachable_world:
  assumes "pending_new max_permits now client sess limits max_disp table tok = Inr self"
  obtains cs where "accounts (table_run calls (new_ops c2 s2 desc seed t toks) self) cs"
proof -
  have "world_inv (world_new (new_ops c2 s2 desc seed t toks) self)"
    by (rule world_new_inv [OF assms]) (rule new_ops_inv)
  then have "world_inv (table_run calls (new_ops c2 s2 desc seed t toks) self)"
    unfolding table_run_def by (rule tab.inv_run)
  then show ?thesis using that by (auto simp: accounts_def world_inv_def table_progress_def pend_progress_def)
qed

lemma accounts_member:
  assumes "accounts w cs"
  shows "x \<in> set (w_registered w) \<longleftrightarrow> x \<in> set (tickets (w_table w)) \<or> (\<exists>c \<in> set cs. x = ticket (co_entry c))"
proof -
  have "set_mset (mset (w_registered w)) = set_mset (mset (tickets (w_table w)) + mset (map (\<lambda>c. ticket (co_entry c)) cs))"
    using assms by (simp add: accounts_def)
  then show ?thesis by auto
qed

section \<open>Whole histories of a table\<close>

text \<open>C6. Every registered request is answered exactly once or still waits: over every sequence of calls on a new table,
  the registered response channels are, as a multiset, those of the entries in the table together with those that were
  sent an answer. The same holds of the references to the leases that the registrations handed over: each is held by an
  entry or was dropped exactly once, so the table neither keeps the slot of an answered request nor drops one twice.\<close>

theorem every_request_is_answered_once:
  assumes "pending_new max_permits now client sess limits max_disp table tok = Inr self"
  shows "let w = table_run calls (new_ops client sess desc seed t toks) self in
     mset (map (\<lambda>(_, _, chan). chan) (w_registered w))
       = mset (map (\<lambda>(_, e). pe_response e) (entries (np_state (w_table w)))) + mset (map fst (sends (w_log w)))
   \<and> mset (map (\<lambda>(_, permit, _). permit) (w_registered w))
       = mset (map (\<lambda>(_, e). pe_permit e) (entries (np_state (w_table w)))) + mset (dropped_leases (w_log w))"
proof -
  define w where "w = table_run calls (new_ops client sess desc seed t toks) self"
  obtain cs where acc: "accounts w cs" unfolding w_def by (rule reachable_world [OF assms(1)])
  have split: "mset (map f (w_registered w)) = mset (map (\<lambda>p. f (ticket (snd p))) (entries (np_state (w_table w))))
      + mset (map (\<lambda>c. f (ticket (co_entry c))) cs)" for f :: "op_id \<times> lease \<times> channel \<Rightarrow> nat"
    unfolding mset_map using acc by (simp add: accounts_def tickets_def image_mset.compositionality comp_def)
  have log: "map fst (sends (w_log w)) = map (\<lambda>c. pe_response (co_entry c)) cs" "dropped_leases (w_log w) = map lease_of cs"
    using acc by (simp_all add: accounts_def)
  show ?thesis
    using split [of "\<lambda>(_, _, chan). chan"] split [of "\<lambda>(_, permit, _). permit"]
    unfolding w_def [symmetric] Let_def log by (simp add: case_prod_beta' ticket_def)
qed

text \<open>C7. Every answer is the result its operation settled on: over every sequence of calls on a new
  table, a channel is sent a response only when it belongs to a registered request whose operation
  settled with a received response, and an error only when it is the error the operation settled
  with.\<close>

theorem answers_are_the_results_of_operations:
  assumes "pending_new max_permits now client sess limits max_disp table tok = Inr self"
    and "(chan, r) \<in> set (sends (w_log (table_run calls (new_ops client sess desc seed t toks) self)))"
  shows "\<exists>o1 permit. (o1, permit, chan) \<in> set (w_registered (table_run calls (new_ops client sess desc seed t toks) self))
     \<and> agrees (w_ops (table_run calls (new_ops client sess desc seed t toks) self) o1) r"
proof -
  define w where "w = table_run calls (new_ops client sess desc seed t toks) self"
  obtain cs where acc: "accounts w cs" unfolding w_def by (rule reachable_world [OF assms(1)])
  obtain c where c: "c \<in> set cs" "answer_of c = (chan, r)"
    using assms(2) acc unfolding w_def [symmetric] by (auto simp: accounts_def)
  then have "ticket (co_entry c) \<in> set (w_registered w)" using accounts_member [OF acc] by blast
  then show ?thesis using c acc unfolding w_def [symmetric] by (auto simp: ticket_def accounts_def)
qed

text \<open>C8. A registered request waits in its table exactly as long as its operation is unsettled: the
  two records of one request, the entry of the table and the state of the operation, never
  disagree.\<close>

theorem request_waits_iff_unsettled:
  assumes "pending_new max_permits now client sess limits max_disp table tok = Inr self"
    and "(o1, permit, chan) \<in> set (w_registered (table_run calls (new_ops client sess desc seed t toks) self))"
  shows "op_outcome (w_ops (table_run calls (new_ops client sess desc seed t toks) self) o1) = None
     \<longleftrightarrow> (o1, permit, chan) \<in> set (tickets (w_table (table_run calls (new_ops client sess desc seed t toks) self)))"
proof -
  define w where "w = table_run calls (new_ops client sess desc seed t toks) self"
  obtain cs where acc: "accounts w cs" unfolding w_def by (rule reachable_world [OF assms(1)])
  have "(o1, permit, chan) \<in> set (tickets (w_table w)) \<or> (\<exists>c \<in> set cs. (o1, permit, chan) = ticket (co_entry c))"
    using assms(2) accounts_member [OF acc] unfolding w_def [symmetric] by blast
  moreover have "\<forall>c \<in> set cs. op_outcome (w_ops w (pe_core (co_entry c))) \<noteq> None"
  proof
    fix c
    assume "c \<in> set cs"
    then show "op_outcome (w_ops w (pe_core (co_entry c))) \<noteq> None"
      using acc by (cases "co_response c") (auto simp: accounts_def agrees_def)
  qed
  moreover have "op_outcome (w_ops w o1) = None" if "(o1, permit, chan) \<in> set (tickets (w_table w))"
    using that acc by (auto simp: accounts_def tickets_def ticket_def pend_inv_def entry_ok_def)
  ultimately show ?thesis unfolding w_def [symmetric] by (auto simp: ticket_def)
qed

lemma closed_registers_nothing:
  assumes "world_inv w" and "closed (np_state (w_table w))"
  shows "w_registered (fold world_step calls w) = w_registered w"
  using assms
proof (induction calls arbitrary: w)
  case (Cons c calls)
  have "snd (snd (snd (call_table c (w_ops w) (w_table w)))) = []"
  proof (cases c)
    case (Tc_Register vclk now env allocated request options o1 permit chan)
    have "\<exists>err. register_admit vclk now allocated request options (w_ops w o1) (w_table w) = Inl err"
      using register_admit_facts(4) [of vclk now allocated request options "w_ops w o1" "w_table w"] Cons.prems(2)
      by (cases "register_admit vclk now allocated request options (w_ops w o1) (w_table w)") auto
    then show ?thesis using Tc_Register by (auto simp: register_def registered_def)
  qed (auto split: prod.split)
  then have "w_registered (world_step c w) = w_registered w" by (auto simp: world_step_def split: prod.split)
  then show ?case using Cons.IH [OF world_inv_step closed_step] Cons.prems by simp
qed simp

text \<open>C9. Closing is complete and final: \<open>close\<close> answers every request that waits, leaves the table
  empty and closed, and from then on no sequence of calls registers another request.\<close>

theorem close_is_complete_and_final:
  assumes "pending_new max_permits now client sess limits max_disp table tok = Inr self"
    and "pending_close env err cause (w_ops (table_run calls (new_ops client sess desc seed t toks) self))
           (w_table (table_run calls (new_ops client sess desc seed t toks) self)) = (ops', self', effects, Inr ())"
  shows "closed (np_state self') \<and> entries (np_state self') = []
   \<and> mset (map fst (sends effects)) = mset (map (\<lambda>(_, e). pe_response e)
        (entries (np_state (w_table (table_run calls (new_ops client sess desc seed t toks) self)))))
   \<and> w_registered (table_run (calls @ Tc_Close env err cause # calls2) (new_ops client sess desc seed t toks) self)
      = w_registered (table_run calls (new_ops client sess desc seed t toks) self)"
proof -
  define w where "w = table_run calls (new_ops client sess desc seed t toks) self"
  define w' where "w' = world_step (Tc_Close env err cause) w"
  have wi: "world_inv w"
    unfolding w_def table_run_def by (rule tab.inv_run [OF world_new_inv [OF assms(1)]]) (rule new_ops_inv)
  have call: "pending_close env err cause (w_ops w) (w_table w) = (ops', self', effects, Inr ())"
    using assms(2) unfolding w_def .
  have closed: "closed (np_state self') \<and> entries (np_state self') = []"
    using call by (auto simp: pending_close_def split: asm_splits)
  have "pend_inv (w_ops w) (w_table w)" using wi by (auto simp: world_inv_def table_progress_def pend_progress_def)
  then obtain cs where "mset (tickets (w_table w)) = mset (map (\<lambda>c. ticket (co_entry c)) cs)" "sends effects = map answer_of cs"
    using close_progress [OF _ call] closed by (auto simp: table_progress_def pend_progress_def tickets_def)
  then have "image_mset (\<lambda>(_, _, chan). chan) (mset (tickets (w_table w))) = mset (map fst (sends effects))"
    by (simp add: ticket_def image_mset.compositionality comp_def)
  then have answered: "mset (map fst (sends effects)) = mset (map (\<lambda>(_, e). pe_response e) (entries (np_state (w_table w))))"
    by (simp add: tickets_def ticket_def image_mset.compositionality comp_def case_prod_beta')
  have w': "w' = \<lparr>w_ops = ops', w_table = self', w_log = w_log w @ effects, w_registered = w_registered w\<rparr>"
    using call by (simp add: w'_def world_step_def enabled_def)
  have "w_registered (fold world_step calls2 w') = w_registered w'"
    by (rule closed_registers_nothing [OF world_inv_step [OF wi, of "Tc_Close env err cause", folded w'_def]])
      (simp add: w' closed)
  then have "w_registered (table_run (calls @ Tc_Close env err cause # calls2) (new_ops client sess desc seed t toks) self) = w_registered w"
    using w' by (simp add: table_run_def w_def w'_def)
  then show ?thesis using closed answered unfolding w_def [symmetric] by blast
qed

text \<open>C11. A stale registration is inert: when the table holds a newer entry under the same request
  identifier (its token differs), binding, marking written, requeueing, terminating and resolving with
  the old registration change neither the table nor any operation and send nothing.\<close>

theorem stale_registration_is_inert:
  assumes "get_entry (reg_request_id reg) self = Some e" and "reg_token (pe_registration e) \<noteq> reg_token reg"
  shows "fst (bind_connection now reg con self) = self
   \<and> (\<exists>r. mark_written clk0 env reg written_at ops self = (ops, self, [], r))
   \<and> (\<exists>r. pending_requeue now env reg ops self = (ops, self, r))
   \<and> pending_terminate env (reg_request_id reg) (reg_token reg) err cause ops self = (ops, self, [], Inr AlreadyFinished)
   \<and> (\<exists>r. pending_resolve now env reg incoming ops self = (ops, self, [], r) \<and> r \<noteq> Inr Resolved)"
proof -
  have none: "matching_entry self reg = None" using assms by (simp add: matching_entry_def)
  have res: "\<exists>r. resolve_check now ops reg incoming rec self = Inl r \<and> r \<noteq> Inr Resolved" for rec
    using assms by (auto simp: resolve_check_def)
  have "\<exists>r. pending_resolve now env reg incoming ops self = (ops, self, [], r) \<and> r \<noteq> Inr Resolved"
  proof (cases "in_dispatch incoming")
    case (Some d)
    obtain r where "map_of (dispatches (np_state self)) (disp_id d) = None
        \<or> (\<exists>rec. map_of (dispatches (np_state self)) (disp_id d) = Some rec
            \<and> resolve_check now ops reg incoming rec self = Inl r \<and> r \<noteq> Inr Resolved)"
      using res by (cases "map_of (dispatches (np_state self)) (disp_id d)") auto
    then show ?thesis using Some by (auto simp: pending_resolve_def split: sum.split)
  qed (auto simp: pending_resolve_def)
  then show ?thesis using none assms
    by (auto simp: bind_connection_def mark_written_def pending_requeue_def pending_terminate_def
        pending_prepare_termination_def deferred_dispatch_def deferred_default_def ok_or_def)
qed

lemma resolve_check_not_Resolved: "resolve_check now ops reg incoming rec self \<noteq> Inl (Inr Resolved)"
  unfolding resolve_check_def Let_def by (auto split: option.split sum.split)

lemma pending_resolve_Resolved:
  assumes inv: "pend_inv ops self" and call: "pending_resolve now env reg incoming ops self = (ops', self', effects, Inr Resolved)"
  obtains e resp d pub where "get_entry (reg_request_id reg) self = Some e" "reg_token (pe_registration e) = reg_token reg"
    "from_incoming (reg_request_id reg) incoming = Inr resp" "in_dispatch incoming = Some d"
    "agrees (ops' (pe_core e)) (Inr resp)" "op_delivery (ops' (pe_core e)) = ResponseConfirmed"
    "effects = completion_dispatch \<lparr>co_entry = e, co_publication = pub, co_response = Inr resp\<rparr> @ [P_Changed]"
    "dispatches (np_state self') = AList.delete (disp_id d) (dispatches (np_state self))"
proof -
  obtain d resp rec e extended where facts: "in_dispatch incoming = Some d" "from_incoming (reg_request_id reg) incoming = Inr resp"
      "resolve_check now ops reg incoming rec self = Inr (e, extended)"
    and res: "(case settle_response env resp (case extended of None \<Rightarrow> ops (pe_core e)
              | Some limit \<Rightarrow> set_response_deadline limit (ops (pe_core e))) of
          (core, won, pub, result) \<Rightarrow>
            (ops(pe_core e := core), upd_pending (\<lambda>s. s\<lparr>dispatches := AList.delete (disp_id d) (dispatches s)\<rparr>)
                 (remove_entry (reg_request_id reg) self),
             completion_dispatch \<lparr>co_entry = e, co_publication = pub, co_response = result\<rparr> @ [P_Changed],
             Inr (if won then Resolved else StaleOrFinished))) = (ops', self', effects, Inr Resolved)"
    using call unfolding pending_resolve_def Let_def
    by (simp add: resolve_check_not_Resolved split: if_split_asm option.split_asm sum.split_asm prod.split_asm)
  define core0 where "core0 = (case extended of None \<Rightarrow> ops (pe_core e)
              | Some limit \<Rightarrow> set_response_deadline limit (ops (pe_core e)))"
  note e = resolve_check_entry [OF facts(3)]
  have core0: "op_inv core0" "op_outcome core0 = None"
    using entry_core [OF inv conjunct1 [OF e]] set_response_deadline_keeps by (auto simp: core0_def split: option.split)
  obtain core won pub result where sel: "settle_response env resp core0 = (core, won, pub, result)" by (metis prod_cases4)
  have won: "won" "ops' = ops(pe_core e := core)"
    "effects = completion_dispatch \<lparr>co_entry = e, co_publication = pub, co_response = result\<rparr> @ [P_Changed]"
    "dispatches (np_state self') = AList.delete (disp_id d) (dispatches (np_state self))"
    using res sel unfolding core0_def [symmetric] by (auto split: if_split_asm)
  have "result = Inr resp" "op_delivery core = ResponseConfirmed" "agrees core result"
    using settle_response_agrees [OF core0 sel] won(1) by auto
  then show ?thesis using that e facts won by auto
qed

text \<open>C10. A response is claimed once: when \<open>resolve\<close> reports \<open>Resolved\<close>, the operation has settled with
  a received response and confirmed delivery, exactly that request is answered, with that response, and
  the same dispatch resolves nothing a second time, whatever registration is presented.\<close>

theorem resolve_is_exclusive:
  assumes "pending_new max_permits t0 client sess limits max_disp table tok = Inr self"
    and "pending_resolve now env reg incoming (w_ops (table_run calls (new_ops client sess desc seed t toks) self))
           (w_table (table_run calls (new_ops client sess desc seed t toks) self)) = (ops', self', effects, Inr Resolved)"
  shows "\<exists>e resp. get_entry (reg_request_id reg) (w_table (table_run calls (new_ops client sess desc seed t toks) self)) = Some e
     \<and> reg_token (pe_registration e) = reg_token reg
     \<and> from_incoming (reg_request_id reg) incoming = Inr resp
     \<and> sends effects = [(pe_response e, Inr resp)] \<and> op_outcome (ops' (pe_core e)) = Some (Inr ResponseReceived)
     \<and> op_delivery (ops' (pe_core e)) = ResponseConfirmed
     \<and> snd (snd (snd (pending_resolve now2 env2 reg2 incoming ops2 self'))) \<noteq> Inr Resolved"
proof -
  obtain cs where "accounts (table_run calls (new_ops client sess desc seed t toks) self) cs"
    by (rule reachable_world [OF assms(1)])
  then have inv: "pend_inv (w_ops (table_run calls (new_ops client sess desc seed t toks) self))
      (w_table (table_run calls (new_ops client sess desc seed t toks) self))" by (simp add: accounts_def)
  obtain e resp d pub where facts: "get_entry (reg_request_id reg) (w_table (table_run calls (new_ops client sess desc seed t toks) self)) = Some e"
    "reg_token (pe_registration e) = reg_token reg"
    "from_incoming (reg_request_id reg) incoming = Inr resp" "agrees (ops' (pe_core e)) (Inr resp)"
    "op_delivery (ops' (pe_core e)) = ResponseConfirmed"
    "effects = completion_dispatch \<lparr>co_entry = e, co_publication = pub, co_response = Inr resp\<rparr> @ [P_Changed]"
    and d: "in_dispatch incoming = Some d" "dispatches (np_state self') = AList.delete (disp_id d)
       (dispatches (np_state (w_table (table_run calls (new_ops client sess desc seed t toks) self))))"
    by (rule pending_resolve_Resolved [OF inv assms(2)])
  have "map_of (dispatches (np_state self')) (disp_id d) = None" unfolding d(2) by (simp add: AList.delete_conv)
  then have "snd (snd (snd (pending_resolve now2 env2 reg2 incoming ops2 self'))) \<noteq> Inr Resolved"
    using d(1) by (auto simp: pending_resolve_def split: sum.split)
  then show ?thesis using facts by (auto simp: agrees_def)
qed

section \<open>Timers\<close>

lemma expire_loop_entries:
  assumes "expire_loop now env ids ops self cs = (ops', self', Inr cs')" and "get_entry i self' = Some e'"
  shows "get_entry i self = Some e' \<and> i \<notin> set ids \<or> (\<exists>d. pe_grace_deadline e' = Some d \<and> now < d)"
  using assms
proof (induction ids arbitrary: ops self cs)
  case (Cons j ids)
  show ?case
  proof (cases "get_entry j self")
    case None
    then have "expire_loop now env ids ops self cs = (ops', self', Inr cs')" using Cons.prems(1) by simp
    then show ?thesis using Cons.IH [OF _ Cons.prems(2)] None by fastforce
  next
    case (Some e)
    obtain ops1 self1 cs1 where loop: "expire_loop now env ids ops1 self1 cs1 = (ops', self', Inr cs')"
      and step: "self1 = remove_entry j self
        \<or> (\<exists>d. grace_deadline e (dispatches (np_state self)) now (grace self) False = Some d \<and> self1 = put_entry j (enter_grace d timeout Cause_Expired e) self)"
      using Cons.prems(1) Some by (auto simp: Let_def split: asm_splits)
    have here: "get_entry j self1 = Some f \<Longrightarrow> \<exists>d. pe_grace_deadline f = Some d \<and> now < d" for f
      using step grace_deadline_bounds(1) by (auto simp: get_entry_def AList.delete_conv enter_grace_def AList.update_conv)
    have other: "i \<noteq> j \<Longrightarrow> get_entry i self1 = get_entry i self"
      using step by (auto simp: get_entry_def AList.delete_conv AList.update_conv)
    show ?thesis using Cons.IH [OF loop Cons.prems(2)] here other by (cases "i = j") auto
  qed
qed simp

lemma due_ids_rest:
  assumes "due_ids ops now es = Inr ids" and "distinct (map fst es)" and "(i, e) \<in> set es" and "i \<notin> set ids"
  shows "\<exists>d. entry_deadline ops e = Inr d \<and> is_none_or d (\<lambda>d. now < d)"
  using assms
proof (induction es arbitrary: ids)
  case (Cons p es)
  obtain j f where p: "p = (j, f)" by fastforce
  obtain d ids0 where d: "entry_deadline ops f = Inr d" and rest: "due_ids ops now es = Inr ids0"
    and ids: "ids = (if is_some_and d (\<lambda>d. d \<le> now) then j # ids0 else ids0)"
    using Cons.prems(1) p by (auto simp: try_bind_Inr)
  show ?case
  proof (cases "(i, e) = (j, f)")
    case True
    then have "\<not> is_some_and d (\<lambda>d. d \<le> now)" using Cons.prems(4) ids by auto
    then show ?thesis using True d by (auto simp: is_some_and_def is_none_or_def split: option.splits)
  next
    case False
    then show ?thesis using Cons.IH [OF rest] Cons.prems p ids by (auto split: if_splits)
  qed
qed simp

lemma entry_deadline_response:
  assumes "entry_deadline ops e = Inr d" and "is_none_or d (\<lambda>d. now < d)"
  shows "\<exists>rd. entry_response_deadline e = Inr rd \<and> is_none_or rd (\<lambda>d. now < d)"
proof -
  obtain rd where rd: "entry_response_deadline e = Inr rd"
    and d: "d = map_option budget_at (budget_earlier (absolute_budget (ops (pe_core e)))
        (map_option (\<lambda>t. \<lparr>budget_at = t, budget_phase = Tp_Response\<rparr>) rd))"
    using assms(1) by (auto simp: entry_deadline_def entry_budget_def try_bind_Inr)
  have "d = earliest (map_option budget_at (absolute_budget (ops (pe_core e)))) rd"
    unfolding d budget_earlier_at by (cases rd) auto
  then show ?thesis using rd assms(2)
    by (cases rd; cases "absolute_budget (ops (pe_core e))") (auto simp: is_none_or_def)
qed

lemma graced_response: "grace_ok e \<Longrightarrow> pe_grace_deadline e = Some d \<Longrightarrow> entry_response_deadline e = Inr (Some d)"
  by (simp add: entry_response_deadline_def timing_deadline_def grace_ok_def try_bind_def or_option_def)

text \<open>C12. A pass of the timer leaves nothing behind: after \<open>expire_due\<close> at an instant, every entry that
  is still in the table has a response deadline after that instant, or none; the overdue requests were
  answered or moved into their grace window.\<close>

theorem expire_leaves_nothing_overdue:
  assumes "pending_new max_permits t0 client sess limits max_disp table tok = Inr self"
    and "expire_due now env allocated (w_ops (table_run calls (new_ops client sess desc seed t toks) self))
           (w_table (table_run calls (new_ops client sess desc seed t toks) self)) = (ops', self', effects, Inr ())"
    and "get_entry i self' = Some e"
  shows "\<exists>d. entry_response_deadline e = Inr d \<and> is_none_or d (\<lambda>d. now < d)"
proof -
  define w where "w = table_run calls (new_ops client sess desc seed t toks) self"
  obtain cs where acc: "accounts w cs" unfolding w_def by (rule reachable_world [OF assms(1)])
  have inv: "pend_inv (w_ops w) (w_table w)" using acc by (simp add: accounts_def)
  have call: "expire_due now env allocated (w_ops w) (w_table w) = (ops', self', effects, Inr ())"
    using assms(2) unfolding w_def .
  define s1 where "s1 = upd_pending (\<lambda>s. s\<lparr>dispatches := filter (\<lambda>(_, r). now < expires_at r) (dispatches s)\<rparr>) (w_table w)"
  have "pend_inv ops' self'" using expire_due_progress [OF inv call] by (auto simp: table_progress_def pend_progress_def)
  then have ok: "grace_ok e" using assms(3) by (rule entry_grace_ok)
  obtain ids cs' where ids: "due_ids (w_ops w) now (entries (np_state s1)) = Inr ids"
    and loop: "expire_loop now env ids (w_ops w) s1 [] = (ops', self', Inr cs')"
    using call unfolding expire_due_def Let_def s1_def [symmetric] by (auto split: asm_splits)
  from expire_loop_entries [OF loop assms(3)] show ?thesis
  proof
    assume "\<exists>d. pe_grace_deadline e = Some d \<and> now < d"
    then show ?thesis using graced_response [OF ok] by (auto simp: is_none_or_def)
  next
    assume e: "get_entry i s1 = Some e \<and> i \<notin> set ids"
    have "distinct (map fst (entries (np_state s1)))" using inv by (simp add: s1_def pend_inv_def)
    moreover have "(i, e) \<in> set (entries (np_state s1))" using e by (auto simp: get_entry_def dest: map_of_SomeD)
    ultimately obtain d where "entry_deadline (w_ops w) e = Inr d" "is_none_or d (\<lambda>d. now < d)"
      using due_ids_rest [OF ids] e by blast
    then show ?thesis by (rule entry_deadline_response)
  qed
qed

lemma entries_deadline_lower:
  assumes "entries_deadline ops es best = Inr d"
  shows "is_none_or best (\<lambda>b. \<exists>y. d = Some y \<and> y \<le> b)"
    and "(i, e) \<in> set es \<Longrightarrow> entry_deadline ops e = Inr (Some x) \<Longrightarrow> \<exists>y. d = Some y \<and> y \<le> x"
proof -
  have "is_none_or best (\<lambda>b. \<exists>y. d = Some y \<and> y \<le> b)
    \<and> ((i, e) \<in> set es \<longrightarrow> entry_deadline ops e = Inr (Some x) \<longrightarrow> (\<exists>y. d = Some y \<and> y \<le> x))"
    using assms
  proof (induction es arbitrary: best)
    case Nil
    then show ?case by (auto simp: is_none_or_def split: option.split)
  next
    case (Cons p es)
    obtain j f where p: "p = (j, f)" by fastforce
    obtain df where df: "entry_deadline ops f = Inr df" and rest: "entries_deadline ops es (earliest best df) = Inr d"
      using Cons.prems p by (auto simp: try_bind_Inr)
    show ?case using Cons.IH [OF rest] p df
      by (cases best; cases df) (auto simp: is_none_or_def)
  qed
  then show "is_none_or best (\<lambda>b. \<exists>y. d = Some y \<and> y \<le> b)"
    and "(i, e) \<in> set es \<Longrightarrow> entry_deadline ops e = Inr (Some x) \<Longrightarrow> \<exists>y. d = Some y \<and> y \<le> x" by blast+
qed

lemma next_deadline_lower:
  assumes "next_deadline ops self = (self', Inr (stop, wake))"
  shows "\<not> stop \<Longrightarrow> self' = self" "stop \<Longrightarrow> closed (np_state self') \<and> entries (np_state self') = []"
    "(i, e) \<in> set (entries (np_state self)) \<Longrightarrow> entry_deadline ops e = Inr (Some x) \<Longrightarrow> \<exists>y. wake = Some y \<and> y \<le> x"
    "\<not> stop \<Longrightarrow> (k, r) \<in> set (dispatches (np_state self)) \<Longrightarrow> \<exists>y. wake = Some y \<and> y \<le> expires_at r"
proof -
  show "\<not> stop \<Longrightarrow> self' = self" "stop \<Longrightarrow> closed (np_state self') \<and> entries (np_state self') = []"
    using assms by (auto simp: next_deadline_def try_bind_Inr upd_pending_def split: if_splits)
  show "\<exists>y. wake = Some y \<and> y \<le> x" if "(i, e) \<in> set (entries (np_state self))" "entry_deadline ops e = Inr (Some x)"
  proof -
    have "entries_deadline ops (entries (np_state self))
        (list_min (map (\<lambda>(_, r). expires_at r) (dispatches (np_state self)))) = Inr wake"
      using assms that by (auto simp: next_deadline_def try_bind_Inr split: if_splits)
    from entries_deadline_lower(2) [OF this] that show ?thesis by blast
  qed
  show "\<exists>y. wake = Some y \<and> y \<le> expires_at r" if "\<not> stop" "(k, r) \<in> set (dispatches (np_state self))"
  proof -
    have d: "entries_deadline ops (entries (np_state self))
        (list_min (map (\<lambda>(_, r). expires_at r) (dispatches (np_state self)))) = Inr wake"
      using assms that(1) by (auto simp: next_deadline_def try_bind_Inr split: if_splits)
    have "expires_at r \<in> set (map (\<lambda>(_, r). expires_at r) (dispatches (np_state self)))" using that(2) by force
    then obtain b where "list_min (map (\<lambda>(_, r). expires_at r) (dispatches (np_state self))) = Some b" "b \<le> expires_at r"
      using list_min_lower by blast
    then show ?thesis using entries_deadline_lower(1) [OF d] by (auto simp: is_none_or_def)
  qed
qed

text \<open>C13. The timer never sleeps past a deadline and never abandons a request. A round that goes on waits no longer than to
  the deadline of any entry and the expiry of any dispatch of the table as the round leaves it. A round ends the timer
  only for a shutdown, for an error of one of its two calls, or for a closed and empty table; and whatever ended it, the
  guard that is dropped with the timer then closes the table and leaves no entry waiting, unless the table's lock is
  poisoned.\<close>

theorem timer_wakes_by_every_deadline:
  assumes "timer_round now env allocated shutdown ops (Some self) = (ops', Some self', effects, next)"
  shows "case next of
      Timer_Wait wake \<Rightarrow>
        (\<forall>(i, e) \<in> set (entries (np_state self')). \<forall>x. entry_deadline ops' e = Inr (Some x) \<longrightarrow> (\<exists>y. wake = Some y \<and> y \<le> x))
        \<and> (\<forall>(d, r) \<in> set (dispatches (np_state self')). \<exists>y. wake = Some y \<and> y \<le> expires_at r)
    | Timer_Return \<Rightarrow>
        (shutdown \<or> is_err (snd (snd (snd (expire_due now env allocated ops self)))) \<or> is_err (snd (next_deadline ops' self'))
           \<or> closed (np_state self') \<and> entries (np_state self') = [])
        \<and> (\<forall>env2 shutdown2 ops2 self2 effects2. \<not> np_poisoned self' \<longrightarrow>
             timer_retirement_drop env2 shutdown2 ops' (Some self') = (ops2, Some self2, effects2) \<longrightarrow>
             closed (np_state self2) \<and> entries (np_state self2) = [])"
proof -
  have retire: "closed (np_state self2) \<and> entries (np_state self2) = []"
    if "\<not> np_poisoned self'" "timer_retirement_drop env2 shutdown2 ops' (Some self') = (ops2, Some self2, effects2)"
    for env2 shutdown2 ops2 self2 effects2
    using that by (auto simp: timer_retirement_drop_def pending_close_def upd_pending_def split: prod.split_asm)
  consider (off) "shutdown" "next = Timer_Return"
    | (failed) e where "snd (snd (snd (expire_due now env allocated ops self))) = Inl e" "next = Timer_Return"
    | (failed2) e self1 where "next_deadline ops' self1 = (self', Inl e)" "next = Timer_Return"
    | (ok) stop wake self1 where "next_deadline ops' self1 = (self', Inr (stop, wake))" "next = (if stop then Timer_Return else Timer_Wait wake)"
    using assms by (fastforce simp: timer_round_def Let_def split: if_split_asm prod.split_asm sum.split_asm)
  then show ?thesis
  proof cases
    case failed2
    then have "next_deadline ops' self' = (self', Inl e)"
      by (auto simp: next_deadline_def try_bind_def split: if_split_asm sum.split_asm)
    then show ?thesis using failed2 retire by (auto simp: is_err_def)
  next
    case ok
    note lower = next_deadline_lower [OF ok(1)]
    show ?thesis using ok(2) lower retire by (cases stop) (auto split: prod.split)
  qed (use retire in \<open>auto simp: is_err_def\<close>)
qed

lemma grace_used_once: "grace_used e \<Longrightarrow> grace_deadline e recs t g disconnected = None"
  by (simp add: grace_deadline_def)

text \<open>C14. The grace window is bounded and used once: a request whose deadline passes while a received
  response may still be its own is kept at most the configured grace past its response deadline (past
  the disconnection, for a lost connection), never past its absolute deadline, and never a second
  time.\<close>

theorem grace_window_is_bounded:
  assumes "grace_deadline e recs t g disconnected = Some d"
  shows "t < d \<and> is_none_or (absolute_deadline e) (\<lambda>a. d \<le> a)
   \<and> (\<exists>rd. timing_deadline (pe_timing e) = Inr rd \<and> d \<le> (if disconnected then t else map_or t (\<lambda>d. d) rd) + g)
   \<and> grace_deadline (enter_grace d err cause e) recs2 t2 g2 disconnected2 = None"
  using grace_deadline_bounds [OF assms] grace_used_once [of "enter_grace d err cause e"] by (simp add: enter_grace_def)

section \<open>A concrete history\<close>

definition example_ops :: op_store where
  "example_ops = new_ops (ClientId 1) (SessionId 1)
     (\<lambda>o1. (OperationId 1, send_options_default, True, Source_Message (Text ''hi''), o1, Tp_Total)) 0 0 (\<lambda>_. (20, 21))"

definition example_table :: native_pending where
  "example_table = \<lparr>np_self = 7, np_client_id = ClientId 1, np_session_id = SessionId 1,
     grace = manual_response_grace request_limits_default, max_dispatches = 16, admission_closed = 3,
     np_state = \<lparr>entries = [], dispatches = [], next_token = 0, next_dispatch = 0, active = None, closed = False\<rparr>,
     np_poisoned = False\<rparr>"

lemma example_new: "pending_new 1000000 0 (ClientId 1) (SessionId 1) request_limits_default 16 7 3 = Inr example_table"
  by (simp add: pending_new_def example_table_def request_limits_validate_def request_limits_default_def permits_def
      deadline_check_def try_bind_def instant_checked_add_def INSTANT_MAX_def NANOS_PER_SEC_def positive_def USIZE_MAX_def)

definition example_options :: request_options where
  "example_options = request_options_default\<lparr>ro_response_timeout_origin := Registered\<rparr>"

definition example_registration :: request_registration where
  "example_registration = \<lparr>reg_request_id = RequestId ''r'', reg_session_id = SessionId 1, registered_at = 0,
     reg_token = 1, reg_pending = 7\<rparr>"

definition example_entry :: pending_entry where
  "example_entry = \<lparr>pe_request = request_new (RequestId ''r'') (Text ''hi''), pe_core = 4,
     pe_registration = example_registration, pe_timing = \<lparr>rt_deadline = Some (30 * NANOS_PER_SEC), rt_poisoned = False\<rparr>,
     pe_connection_id = None, bound_at = None, pe_response_timeout = 30 * NANOS_PER_SEC, timeout_origin = Registered,
     absolute_deadline = None, pe_grace_deadline = None, grace_used = False, deferred_error = None, deferred_cause = None,
     pe_response = 12, pe_permit = 11\<rparr>"

abbreviation example_register :: table_call where
  "example_register \<equiv> Tc_Register (\<lambda>_. 0) 0 example_env True (request_new (RequestId ''r'') (Text ''hi'')) example_options 4 11 12"

definition example_core :: operation_control where
  "example_core = set_response_deadline (Some (30 * NANOS_PER_SEC))
     (upd_state (\<lambda>s. s\<lparr>os_pending := Some \<lparr>pi_table = 7, pi_id = RequestId ''r'', pi_token = 1\<rparr>\<rparr>) (example_ops 4))"

definition example_world :: table_world where
  "example_world = \<lparr>w_ops = example_ops(4 := example_core),
     w_table = put_entry (RequestId ''r'') example_entry (upd_pending (\<lambda>s. s\<lparr>next_token := 1\<rparr>) example_table),
     w_log = [P_Changed], w_registered = [(4, 11, 12)]\<rparr>"

lemmas example_op1 = example_ops_def new_ops_def new_with_deadline_phase_def send_options_default_def Let_def

lemma example_admit:
  "register_admit (\<lambda>_. 0) 0 True (request_new (RequestId ''r'') (Text ''hi'')) example_options (example_ops 4) example_table
     = Inr (1, Some (30 * NANOS_PER_SEC))"
  by (simp add: register_admit_def example_options_def request_options_default_def request_options_validate_def
      send_options_default_def send_options_validate_def deadline_check_def try_bind_def map_err_def instant_checked_add_def
      INSTANT_MAX_def NANOS_PER_SEC_def validate_metadata_def request_new_def example_op1 example_table_def get_entry_def
      op_snapshot_def ok_or_def checked_add_def absolute_budget_def budget_earlier_def or_option_def register_deadline_def
      add_deadline_def)

lemma example_bind: "bind_request example_env 7 (RequestId ''r'') 1 (example_ops 4)
    = (upd_state (\<lambda>s. s\<lparr>os_pending := Some \<lparr>pi_table = 7, pi_id = RequestId ''r'', pi_token = 1\<rparr>\<rparr>) (example_ops 4), Inr ())"
  by (simp add: bind_request_def check_active_def check_active_until_def op_deadline_def example_op1 example_env_def is_some_and_def
      or_option_def is_some_def)

lemma example_step: "table_run [example_register] example_ops example_table = example_world"
proof -
  have table: "np_self example_table = 7" "np_session_id example_table = SessionId 1" by (simp_all add: example_table_def)
  have options: "ro_response_timeout example_options = 30 * NANOS_PER_SEC" "ro_response_timeout_origin example_options = Registered"
    "so_deadline (ro_send example_options) = None"
    by (simp_all add: example_options_def request_options_default_def send_options_default_def)
  have req: "req_id (request_new i m) = i" for i m by (simp add: request_new_def)
  have "tracked (example_ops 4)" by (simp add: example_op1)
  moreover have "register (\<lambda>_. 0) 0 example_env True (request_new (RequestId ''r'') (Text ''hi'')) example_options 4 11 12
      example_ops example_table = (w_ops example_world, w_table example_world, [P_Changed],
        Inr \<lparr>rh_core = 4, rh_registration = example_registration\<rparr>)"
    using example_bind
    by (simp add: register_def example_admit table options req example_world_def example_core_def
        example_entry_def example_registration_def Let_def)
  ultimately show ?thesis
    by (simp add: table_run_def world_new_def world_step_def enabled_def registered_def) (simp add: example_world_def)
qed

text \<open>The response of the example: it arrives on the connection the request is bound to.\<close>

definition example_incoming :: incoming_message where
  "example_incoming = \<lparr>in_client_id = ClientId 1, in_session_id = SessionId 1, in_connection_id = ConnectionId 1,
     in_payload = In_Message (Text ''ok''), in_received_at = 5, in_dispatch = Some \<lparr>disp_pending = 7, disp_id = 1\<rparr>\<rparr>"

abbreviation example_exchange :: "table_call list" where
  "example_exchange \<equiv> [example_register, Tc_Activate (ConnectionId 1), Tc_Bind 2 example_registration (ConnectionId 1),
     Tc_RegisterDispatch 3 True (example_incoming\<lparr>in_dispatch := None\<rparr>)]"

definition example_bound :: pending_entry where
  "example_bound = example_entry\<lparr>bound_at := Some 2, pe_connection_id := Some (ConnectionId 1)\<rparr>"

definition example_dispatch :: dispatch_record where
  "example_dispatch = \<lparr>dr_connection_id = ConnectionId 1, token_watermark = 1, received_at = 3, expires_at = 32 * NANOS_PER_SEC\<rparr>"

definition example_active :: native_pending where
  "example_active = example_table\<lparr>np_state := \<lparr>entries = [(RequestId ''r'', example_bound)], dispatches = [(1, example_dispatch)],
     next_token = 1, next_dispatch = 1, active = Some (ConnectionId 1), closed = False\<rparr>\<rparr>"

lemma example_exchange_world:
  "w_ops (table_run example_exchange example_ops example_table) = example_ops(4 := example_core)"
  "w_table (table_run example_exchange example_ops example_table) = example_active"
  using example_step
  by (simp_all add: table_run_def)
  (simp_all add: world_step_def enabled_def example_world_def activate_connection_def bind_connection_def belongs_to_def matching_entry_def
    get_entry_def example_registration_def example_entry_def put_entry_def upd_pending_def example_table_def register_dispatch_def
    incoming_message_of_def example_incoming_def matches_origin_def request_limits_default_def add_deadline_def instant_checked_add_def
    INSTANT_MAX_def NANOS_PER_SEC_def timing_deadline_def try_bind_def ok_or_def checked_add_def map_or_def
    example_active_def example_bound_def example_dispatch_def)

theorem every_request_is_answered_once_witness:
  "let w = table_run example_exchange example_ops example_table in
     entries (np_state (w_table w)) = [(RequestId ''r'', example_bound)]
   \<and> mset (map (\<lambda>(_, _, chan). chan) (w_registered w))
       = mset (map (\<lambda>(_, e). pe_response e) (entries (np_state (w_table w)))) + mset (map fst (sends (w_log w)))"
  using every_request_is_answered_once [OF example_new, where calls = example_exchange
      and desc = "\<lambda>o1. (OperationId 1, send_options_default, True, Source_Message (Text ''hi''), o1, Tp_Total)" and seed = 0 and t = 0
      and toks = "\<lambda>_. (20, 21)", folded example_ops_def]
  unfolding Let_def example_exchange_world by (simp add: example_active_def)

lemma example_close:
  "\<exists>ops' self' effects r. pending_close (\<lambda>_. example_env) (from_kind K_Closed) Cause_Shutdown
       (w_ops (table_run [example_register] example_ops example_table)) (w_table (table_run [example_register] example_ops example_table))
     = (ops', self', effects, Inr ()) \<and> sends effects = [(12, r)]"
  unfolding example_step
  by (auto simp: pending_close_def example_world_def example_table_def fail_entry_def example_entry_def Let_def put_entry_def
      upd_pending_def split: prod.splits)

theorem answers_are_the_results_of_operations_witness:
  "\<exists>r. (12, r) \<in> set (sends (w_log (table_run [example_register, Tc_Close (\<lambda>_. example_env) (from_kind K_Closed) Cause_Shutdown]
       example_ops example_table)))
     \<and> (\<exists>o1 permit. (o1, permit, 12) \<in> set (w_registered (table_run
         [example_register, Tc_Close (\<lambda>_. example_env) (from_kind K_Closed) Cause_Shutdown] example_ops example_table))
       \<and> agrees (w_ops (table_run [example_register, Tc_Close (\<lambda>_. example_env) (from_kind K_Closed) Cause_Shutdown]
           example_ops example_table) o1) r)"
proof -
  obtain ops' self' effects r where close: "pending_close (\<lambda>_. example_env) (from_kind K_Closed) Cause_Shutdown
       (w_ops (table_run [example_register] example_ops example_table)) (w_table (table_run [example_register] example_ops example_table))
     = (ops', self', effects, Inr ())" "sends effects = [(12, r)]"
    using example_close by blast
  have run: "table_run [example_register, Tc_Close (\<lambda>_. example_env) (from_kind K_Closed) Cause_Shutdown] example_ops example_table
      = world_step (Tc_Close (\<lambda>_. example_env) (from_kind K_Closed) Cause_Shutdown) (table_run [example_register] example_ops example_table)"
    by (simp add: table_run_def)
  have sent: "(12, r) \<in> set (sends (w_log (table_run [example_register, Tc_Close (\<lambda>_. example_env) (from_kind K_Closed) Cause_Shutdown]
       example_ops example_table)))"
    unfolding run using close by (simp add: world_step_def enabled_def)
  show ?thesis
    using sent answers_are_the_results_of_operations [OF example_new sent [unfolded example_ops_def], folded example_ops_def] by blast
qed

theorem request_waits_iff_unsettled_witness:
  "op_outcome (w_ops (table_run [example_register] example_ops example_table) 4) = None
     \<and> (4, 11, 12) \<in> set (tickets (w_table (table_run [example_register] example_ops example_table)))"
proof -
  have reg: "(4, 11, 12) \<in> set (w_registered (table_run [example_register] example_ops example_table))"
    unfolding example_step by (simp add: example_world_def)
  have "(4, 11, 12) \<in> set (tickets (w_table (table_run [example_register] example_ops example_table)))"
    unfolding example_step by (simp add: example_world_def tickets_def example_table_def ticket_def example_entry_def)
  then show ?thesis
    using request_waits_iff_unsettled [OF example_new reg [unfolded example_ops_def], folded example_ops_def] by blast
qed

theorem close_is_complete_and_final_witness:
  "\<exists>ops' self' effects. pending_close (\<lambda>_. example_env) (from_kind K_Closed) Cause_Shutdown
       (w_ops (table_run [example_register] example_ops example_table)) (w_table (table_run [example_register] example_ops example_table))
     = (ops', self', effects, Inr ()) \<and> closed (np_state self') \<and> entries (np_state self') = []"
proof -
  obtain ops' self' effects where close: "pending_close (\<lambda>_. example_env) (from_kind K_Closed) Cause_Shutdown
       (w_ops (table_run [example_register] example_ops example_table)) (w_table (table_run [example_register] example_ops example_table))
     = (ops', self', effects, Inr ())" using example_close by blast
  then show ?thesis
    using close_is_complete_and_final [OF example_new close [unfolded example_ops_def], folded example_ops_def] by blast
qed

theorem stale_registration_is_inert_witness:
  "pending_terminate example_env (RequestId ''r'') 9 (from_kind K_Cancelled) Cause_Cancelled example_ops example_active
     = (example_ops, example_active, [], Inr AlreadyFinished)"
  using stale_registration_is_inert [of "example_registration\<lparr>reg_token := 9\<rparr>" example_active example_bound]
  by (simp add: example_registration_def example_active_def get_entry_def example_bound_def example_entry_def)

lemma example_resolve:
  "\<exists>ops' self' effects. pending_resolve 5 example_env example_registration example_incoming
       (w_ops (table_run example_exchange example_ops example_table)) (w_table (table_run example_exchange example_ops example_table))
     = (ops', self', effects, Inr Resolved)"
proof -
  have chk: "resolve_check 5 (example_ops(4 := example_core)) example_registration example_incoming example_dispatch example_active
      = Inr (example_bound, None)"
    by (simp add: resolve_check_def example_dispatch_def NANOS_PER_SEC_def example_incoming_def example_registration_def get_entry_def
        example_active_def example_bound_def example_entry_def is_none_or_def is_some_and_def entry_deadline_def entry_budget_def
        entry_response_deadline_def timing_deadline_def try_bind_def or_option_def budget_earlier_def absolute_budget_def
        example_core_def set_response_deadline_def upd_state_def example_op1)
  have "\<exists>core pub. select_response example_env example_core = (core, True, pub)"
    by (auto simp: select_response_def lock_domain_def check_active_def check_active_until_def op_deadline_def is_some_and_def
        or_option_def is_some_def example_env_def example_core_def set_response_deadline_def upd_state_def example_op1
        NANOS_PER_SEC_def split: prod.split)
  then obtain core pub where "select_response example_env example_core = (core, True, pub)" by blast
  then show ?thesis
    unfolding example_exchange_world
    using chk
    by (simp add: pending_resolve_def example_incoming_def incoming_message_of_def belongs_to_def matches_origin_def
        example_registration_def example_active_def example_table_def from_incoming_def settle_response_def example_bound_def
        example_entry_def)
qed

theorem resolve_is_exclusive_witness:
  "\<exists>ops' self' effects r. pending_resolve 5 example_env example_registration example_incoming
       (w_ops (table_run example_exchange example_ops example_table)) (w_table (table_run example_exchange example_ops example_table))
     = (ops', self', effects, Inr Resolved) \<and> sends effects = [(12, Inr r)]
   \<and> snd (snd (snd (pending_resolve 6 example_env example_registration example_incoming ops' self'))) \<noteq> Inr Resolved"
proof -
  obtain ops' self' effects where res: "pending_resolve 5 example_env example_registration example_incoming
       (w_ops (table_run example_exchange example_ops example_table)) (w_table (table_run example_exchange example_ops example_table))
     = (ops', self', effects, Inr Resolved)" using example_resolve by blast
  have "get_entry (reg_request_id example_registration) (w_table (table_run example_exchange example_ops example_table)) = Some example_bound"
    "pe_response example_bound = 12"
    unfolding example_exchange_world
    by (simp_all add: example_registration_def example_active_def get_entry_def example_bound_def example_entry_def)
  then show ?thesis
    using res resolve_is_exclusive [OF example_new res [unfolded example_ops_def], folded example_ops_def,
        of 6 example_env example_registration ops'] by auto
qed

lemma example_not_due:
  "expire_due 5 (\<lambda>_. example_env) True (w_ops (table_run example_exchange example_ops example_table))
     (w_table (table_run example_exchange example_ops example_table)) = (example_ops(4 := example_core), example_active, [], Inr ())"
  unfolding example_exchange_world
  by (simp add: expire_due_def example_active_def example_dispatch_def upd_pending_def NANOS_PER_SEC_def example_table_def
      entry_deadline_def entry_budget_def entry_response_deadline_def timing_deadline_def try_bind_def or_option_def
      budget_earlier_def absolute_budget_def example_bound_def example_entry_def example_core_def set_response_deadline_def
      upd_state_def example_op1 is_some_and_def)

theorem expire_leaves_nothing_overdue_witness:
  "\<exists>d. entry_response_deadline example_bound = Inr d \<and> is_none_or d (\<lambda>d. 5 < d)"
  by (rule expire_leaves_nothing_overdue [OF example_new example_not_due [unfolded example_ops_def], of "RequestId ''r''"])
    (simp add: example_active_def get_entry_def)

theorem timer_wakes_by_every_deadline_witness:
  "timer_round 5 (\<lambda>_. example_env) True False (example_ops(4 := example_core)) (Some example_active)
     = (example_ops(4 := example_core), Some example_active, [], Timer_Wait (Some (30 * NANOS_PER_SEC)))
   \<and> (\<exists>y. Some (30 * NANOS_PER_SEC) = Some y \<and> y \<le> expires_at example_dispatch)"
proof -
  have "next_deadline (example_ops(4 := example_core)) example_active = (example_active, Inr (False, Some (30 * NANOS_PER_SEC)))"
    by (simp add: next_deadline_def example_active_def example_dispatch_def NANOS_PER_SEC_def example_table_def list_min_def
        entry_deadline_def entry_budget_def entry_response_deadline_def timing_deadline_def try_bind_def or_option_def
        budget_earlier_def absolute_budget_def example_bound_def example_entry_def example_core_def set_response_deadline_def
        upd_state_def example_op1 is_some_and_def)
  with example_not_due [unfolded example_exchange_world]
  have round: "timer_round 5 (\<lambda>_. example_env) True False (example_ops(4 := example_core)) (Some example_active)
      = (example_ops(4 := example_core), Some example_active, [], Timer_Wait (Some (30 * NANOS_PER_SEC)))"
    by (simp add: timer_round_def)
  moreover have "(1, example_dispatch) \<in> set (dispatches (np_state example_active))" by (simp add: example_active_def)
  ultimately show ?thesis using timer_wakes_by_every_deadline [OF round] by fastforce
qed

theorem grace_window_is_bounded_witness:
  "grace_deadline example_bound [(1, example_dispatch)] (31 * NANOS_PER_SEC) (2 * NANOS_PER_SEC) False = Some (32 * NANOS_PER_SEC)
   \<and> grace_deadline (enter_grace (32 * NANOS_PER_SEC) timeout Cause_Expired example_bound) [(1, example_dispatch)] 0 5 False = None"
proof -
  have g: "grace_deadline example_bound [(1, example_dispatch)] (31 * NANOS_PER_SEC) (2 * NANOS_PER_SEC) False = Some (32 * NANOS_PER_SEC)"
    by (simp add: grace_deadline_def grace_match_def example_bound_def example_entry_def example_registration_def example_dispatch_def
        NANOS_PER_SEC_def timing_deadline_def list_max_def map_or_def instant_checked_add_def INSTANT_MAX_def is_some_and_def
        is_none_or_def)
  then show ?thesis using grace_window_is_bounded [OF g] by blast
qed

end
