(* ===== verification/Queued_Request.thy ===== *)
theory Queued_Request
  imports Native_Pending "HOL-Library.Product_Lexorder"
begin

text \<open>
  One entry of the write queue: \<open>src/module/ws_client/write/queued_request.rs\<close>. A request carries the
  permits of the queue's capacity and the operation it drives; it completes at most once, and capacity is
  returned before anything is notified. The wire message is a value of the WebSocket library and is
  represented by an identity.
\<close>

type_synonym wire_message = nat
type_synonym permit = nat

record queued_request =
  qr_registration :: "request_registration option"
  qr_message :: wire_message
  qr_config :: send_options
  attempt :: u32
  ready_at :: "instant option"
  dispatch_cancel :: token
  dispatch_phase :: op_id
  admission_cancel :: "token option"
  sequence :: u64
  slot_permit :: "permit option"
  byte_permit :: "permit option"
  completed :: bool
  retirement :: "deferred_termination option"

datatype queue_effect =
    Q_Release permit
  | Q_Pend pend_effect
  | Q_NotifyOne
  | Q_NotifyWaiters
  | Q_CloseSemaphores

text \<open>\<open>drop((self.slot_permit.take(), self.byte_permit.take()))\<close>.\<close>

definition release_permits :: "queued_request \<Rightarrow> queued_request \<times> queue_effect list" where
  "release_permits self =
     (self\<lparr>slot_permit := None, byte_permit := None\<rparr>,
      (case slot_permit self of None \<Rightarrow> [] | Some p \<Rightarrow> [Q_Release p])
      @ (case byte_permit self of None \<Rightarrow> [] | Some p \<Rightarrow> [Q_Release p]))"

definition retirement_cause :: "net_error \<Rightarrow> task_end_cause" where
  "retirement_cause e =
     (case kind e of
        K_Cancelled \<Rightarrow> Cause_Cancelled
      | K_TimedOut \<Rightarrow> Cause_Expired
      | K_Closed \<Rightarrow> Cause_Disconnected
      | K_NotConnected \<Rightarrow> Cause_Disconnected
      | K_EngineDropped \<Rightarrow> Cause_Shutdown
      | _ \<Rightarrow> Cause_Failed)"

definition prepare_retirement ::
  "op_env \<Rightarrow> net_error \<Rightarrow> queued_request \<Rightarrow> op_store \<Rightarrow> tables \<Rightarrow> queued_request \<times> op_store \<times> tables" where
  "prepare_retirement env err self ops tabs =
     (if retirement self = None \<and> \<not> completed self
      then (let (ops, tabs, deferred) =
                  op_prepare_termination env (dispatch_phase self) err (retirement_cause err) ops tabs
            in (self\<lparr>retirement := Some deferred\<rparr>, ops, tabs))
      else (self, ops, tabs))"

definition dispatch_retirement :: "queued_request \<Rightarrow> queued_request \<times> queue_effect list" where
  "dispatch_retirement self =
     (case retirement self of
        None \<Rightarrow> (self, [])
      | Some deferred \<Rightarrow>
          (let (self, released) = release_permits (self\<lparr>retirement := None, completed := True\<rparr>)
           in (self, released @ map Q_Pend (deferred_dispatch deferred))))"

definition completion_cause :: "net_error \<Rightarrow> task_end_cause" where
  "completion_cause e =
     (case kind e of
        K_Cancelled \<Rightarrow> Cause_Cancelled
      | K_TimedOut \<Rightarrow> Cause_Expired
      | K_Closed \<Rightarrow> Cause_Disconnected
      | K_EngineDropped \<Rightarrow> Cause_Shutdown
      | _ \<Rightarrow> Cause_Failed)"

text \<open>What \<open>complete\<close> does to the operation, once the permits are back: the write is marked, or the
  operation terminates with the error.\<close>

definition settle_write ::
  "clock \<Rightarrow> op_env \<Rightarrow> instant \<Rightarrow> queued_request \<Rightarrow> (unit, net_error) result \<Rightarrow> op_store \<Rightarrow> tables
     \<Rightarrow> op_store \<times> tables \<times> pend_effect list \<times> (unit, net_error) result" where
  "settle_write now env written_at self result ops tabs =
     (case (result, qr_registration self) of
        (Inr _, Some reg) \<Rightarrow>
          (case tabs (reg_pending reg) of
             Some p \<Rightarrow>
               (let (ops, p, effects, r) = mark_written now env reg written_at ops p
                in (ops, tabs(reg_pending reg := Some p), effects, case r of Inl e \<Rightarrow> Inl e | Inr _ \<Rightarrow> Inr ()))
           | None \<Rightarrow>
               (ops, tabs, [], if response_confirmed (ops (dispatch_phase self)) then Inr ()
                               else Inl (from_kind K_EngineDropped)))
      | (Inr _, None) \<Rightarrow>
          (let (core, _, pub) = select_written env (ops (dispatch_phase self))
           in (ops(dispatch_phase self := core), tabs, map P_Op (dispatch pub), Inr ()))
      | (Inl e, _) \<Rightarrow> (ops, tabs, [], Inl e))"

text \<open>\<open>complete\<close> takes the request by value: permits that a completed request still holds are dropped with it.\<close>

definition complete ::
  "clock \<Rightarrow> op_env \<Rightarrow> op_env \<Rightarrow> instant \<Rightarrow> queued_request \<Rightarrow> (unit, net_error) result \<Rightarrow> op_store \<Rightarrow> tables
     \<Rightarrow> op_store \<times> tables \<times> queue_effect list" where
  "complete now env env2 written_at self result ops tabs =
     (let (self, retired) = dispatch_retirement self
      in if completed self then (ops, tabs, retired @ snd (release_permits self))
         else
           let (self, released) = release_permits (self\<lparr>completed := True\<rparr>);
               (ops, tabs, effects, r) = settle_write now env written_at self result ops tabs
           in case r of
                Inr _ \<Rightarrow> (ops, tabs, retired @ released @ map Q_Pend effects)
              | Inl e \<Rightarrow>
                  let (ops, tabs, ended, _) = op_terminate env2 (dispatch_phase self) e (completion_cause e) ops tabs
                  in (ops, tabs, retired @ released @ map Q_Pend (effects @ ended)))"

definition request_release :: "queued_request \<Rightarrow> queue_effect list" where
  "request_release self = snd (release_permits (self\<lparr>completed := True\<rparr>))"

definition request_terminal_error :: "op_store \<Rightarrow> net_error \<Rightarrow> queued_request \<Rightarrow> net_error" where
  "request_terminal_error ops fallback self = map_or fallback (\<lambda>e. e) (selected_error (ops (dispatch_phase self)))"

definition can_wait_for_reconnect :: "op_store \<Rightarrow> queued_request \<Rightarrow> bool" where
  "can_wait_for_reconnect ops self \<longleftrightarrow>
     so_disconnected (qr_config self) = WaitForReconnect
   \<or> (0 < attempt self \<and> raw_replay_allowed (ops (dispatch_phase self)))"

text \<open>Dropping a request runs \<open>Drop::drop\<close> and then drops the fields, the permits among them.\<close>

definition request_drop ::
  "op_env \<Rightarrow> queued_request \<Rightarrow> op_store \<Rightarrow> tables \<Rightarrow> op_store \<times> tables \<times> queue_effect list" where
  "request_drop env self ops tabs =
     (if completed self then (ops, tabs, snd (release_permits self))
      else
        let (self, released) = release_permits self;
            (ops, tabs, ended, _) =
              op_terminate env (dispatch_phase self) (from_kind K_EngineDropped) Cause_Shutdown ops tabs
        in (ops, tabs, released @ map Q_Pend ended))"

section \<open>Order\<close>

datatype ordering = Less | Equal | Greater

definition cmp_nat :: "'a::linorder \<Rightarrow> 'a \<Rightarrow> ordering" where
  "cmp_nat a b = (if a < b then Less else if a = b then Equal else Greater)"

definition then_with :: "ordering \<Rightarrow> ordering \<Rightarrow> ordering" where
  "then_with a b = (case a of Equal \<Rightarrow> b | _ \<Rightarrow> a)"

definition rank :: "priority \<Rightarrow> nat" where
  "rank p = (case p of Low \<Rightarrow> 0 | Normal \<Rightarrow> 1 | High \<Rightarrow> 2)"

definition request_cmp :: "queued_request \<Rightarrow> queued_request \<Rightarrow> ordering" where
  "request_cmp a b =
     then_with (cmp_nat (rank (so_priority (qr_config a))) (rank (so_priority (qr_config b))))
       (cmp_nat (sequence b) (sequence a))"

definition request_eq :: "queued_request \<Rightarrow> queued_request \<Rightarrow> bool" where
  "request_eq a b \<longleftrightarrow> sequence a = sequence b"

text \<open>The order as a key: the rank, and among equal ranks the earlier sequence number first.\<close>

definition sched_key :: "queued_request \<Rightarrow> nat \<times> int" where
  "sched_key r = (rank (so_priority (qr_config r)), - uint (sequence r))"

lemma request_cmp_key: "request_cmp a b = cmp_nat (sched_key a) (sched_key b)"
  by (auto simp: request_cmp_def sched_key_def then_with_def cmp_nat_def word_less_def word_uint_eq_iff)

section \<open>Permits\<close>

fun released :: "queue_effect list \<Rightarrow> permit list" where
  "released [] = []"
| "released (Q_Release p # es) = p # released es"
| "released (_ # es) = released es"

definition permits_of :: "queued_request \<Rightarrow> permit list" where
  "permits_of r = (case slot_permit r of None \<Rightarrow> [] | Some p \<Rightarrow> [p]) @ (case byte_permit r of None \<Rightarrow> [] | Some p \<Rightarrow> [p])"

lemma released_append [simp]: "released (xs @ ys) = released xs @ released ys"
  by (induction xs rule: released.induct) auto

lemma released_pend [simp]: "released (map Q_Pend es) = []"
  by (induction es) auto

lemma release_permits_facts [simp]:
  "released (snd (release_permits r)) = permits_of r" "permits_of (fst (release_permits r)) = []"
  "completed (fst (release_permits r)) = completed r" "retirement (fst (release_permits r)) = retirement r"
  "dispatch_cancel (fst (release_permits r)) = dispatch_cancel r" "dispatch_phase (fst (release_permits r)) = dispatch_phase r"
  by (auto simp: release_permits_def permits_of_def split: option.splits)

lemma permits_of_update [simp]:
  "permits_of (r\<lparr>completed := b\<rparr>) = permits_of r" "permits_of (r\<lparr>retirement := d\<rparr>) = permits_of r"
  "permits_of (r\<lparr>admission_cancel := a\<rparr>) = permits_of r"
  by (simp_all add: permits_of_def)

text \<open>A request that ends, by completion or by its drop, leaves no permit behind: both take it by value.\<close>

lemma ended_request_returns_its_permits:
  "released (snd (snd (complete now env env2 written_at r result ops tabs))) = permits_of r"
  "released (snd (snd (request_drop env r ops tabs))) = permits_of r"
  by (cases "retirement r"; auto simp: complete_def dispatch_retirement_def case_prod_beta Let_def split: sum.split)
    (auto simp: request_drop_def case_prod_beta Let_def)

end
