(* ===== verification/Indexed_Heap.thy ===== *)
theory Indexed_Heap
  imports Queued_Request "HOL-Library.Multiset"
begin

text \<open>
  The indexed max-heap of the write queue: \<open>src/module/ws_client/write/indexed_heap.rs\<close>. The vector
  of requests is a list, the index from dispatch tokens to positions is a map, and every method is
  translated with its defensive branches. \<open>Vec::try_reserve\<close> and \<open>HashMap::try_reserve\<close> may refuse
  an allocation; whether they do is an argument of \<open>push\<close>.

  The invariant \<open>heap_inv\<close> has the index consistent with the vector in both directions, the heap
  order, and a length that fits the vector. The locale \<open>request_heap\<close> is the contract the write
  queue relies on, over the abstraction of a heap to a map from tokens to requests; it is
  interpreted on the definitions of this theory.
\<close>

section \<open>The heap and its operations\<close>

record indexed_heap =
  items :: "queued_request list"
  positions :: "token \<rightharpoonup> usize"

definition heap_new :: indexed_heap where
  "heap_new = \<lparr>items = [], positions = Map.empty\<rparr>"

definition heap_len :: "indexed_heap \<Rightarrow> usize" where
  "heap_len self = length (items self)"

definition heap_peek :: "indexed_heap \<Rightarrow> queued_request option" where
  "heap_peek self = get (items self) 0"

definition heap_contains :: "indexed_heap \<Rightarrow> token \<Rightarrow> bool" where
  "heap_contains self tok = is_some (positions self tok)"

definition heap_greater :: "indexed_heap \<Rightarrow> usize \<Rightarrow> usize \<Rightarrow> bool" where
  "heap_greater self left right =
     (case (get (items self) left, get (items self) right) of
        (Some l, Some r) \<Rightarrow> request_cmp l r = Greater
      | _ \<Rightarrow> False)"

text \<open>\<open>if let Some(position) = positions.get_mut(t) { *position = i; }\<close>\<close>

definition set_position :: "(token \<rightharpoonup> usize) \<Rightarrow> token \<Rightarrow> usize \<Rightarrow> (token \<rightharpoonup> usize)" where
  "set_position ps t i = (case ps t of None \<Rightarrow> ps | Some _ \<Rightarrow> ps(t \<mapsto> i))"

definition swap :: "indexed_heap \<Rightarrow> usize \<Rightarrow> usize \<Rightarrow> indexed_heap \<times> bool" where
  "swap self left right =
     (if left = right then (self, True)
      else case (get (items self) left, get (items self) right) of
             (Some l, Some r) \<Rightarrow>
               (let xs = (items self)[left := r, right := l];
                    ps = set_position (positions self) (dispatch_cancel r) left;
                    ps = set_position ps (dispatch_cancel l) right
                in (self\<lparr>items := xs, positions := ps\<rparr>, True))
           | _ \<Rightarrow> (self, False))"

function sift_up :: "indexed_heap \<Rightarrow> usize \<Rightarrow> indexed_heap" where
  "sift_up self index =
     (case usize_checked_sub index 1 of
        None \<Rightarrow> self
      | Some value \<Rightarrow>
          (let parent = value div 2
           in if \<not> heap_greater self index parent then self
              else case swap self index parent of
                     (self, ok) \<Rightarrow> if \<not> ok then self else sift_up self parent))"
  by pat_completeness auto
termination
  by (relation "measure snd") (auto simp: usize_checked_sub_def split: if_splits)

lemma swap_length: "length (items (fst (swap self l r))) = length (items self)"
  by (auto simp: swap_def Let_def split: option.splits)

function sift_down :: "indexed_heap \<Rightarrow> usize \<Rightarrow> indexed_heap" where
  "sift_down self index =
     (case Option.bind (usize_checked_mul index 2) (\<lambda>value. usize_checked_add value 1) of
        None \<Rightarrow> self
      | Some left \<Rightarrow>
          (if get (items self) left = None then self
           else
             let larger = (case usize_checked_add left 1 of
                             Some right \<Rightarrow>
                               if get (items self) right \<noteq> None \<and> heap_greater self right left then right
                               else left
                           | None \<Rightarrow> left)
             in if \<not> heap_greater self larger index then self
                else case swap self index larger of
                       (self, ok) \<Rightarrow> if \<not> ok then self else sift_down self larger))"
  by pat_completeness auto
termination
proof (relation "measure (\<lambda>(self, index). length (items self) - index)", goal_cases)
  case (2 self index left larger self' ok)
  have l: "left = index * 2 + 1" "left < length (items self)"
    using 2 by (auto simp: usize_checked_mul_def usize_checked_add_def split: if_splits)
  have "larger = left \<or> (larger = left + 1 \<and> larger < length (items self))"
    using 2(3) by (auto simp: usize_checked_add_def split: option.splits if_splits)
  with l have "index < larger" "larger < length (items self)" by auto
  moreover have "length (items self') = length (items self)"
    using swap_length [of self index larger] by (simp add: 2(5) [symmetric])
  ultimately show ?case by simp
qed simp

declare sift_up.simps [simp del] sift_down.simps [simp del]

definition heap_push ::
  "bool \<Rightarrow> bool \<Rightarrow> indexed_heap \<Rightarrow> queued_request \<Rightarrow> indexed_heap \<times> (unit, queued_request) result" where
  "heap_push items_ok positions_ok self request =
     (if heap_contains self (dispatch_cancel request)
         \<or> \<not> try_reserve_one items_ok (length (items self))
         \<or> \<not> positions_ok
      then (self, Inl request)
      else let index = length (items self);
               self = self\<lparr>positions := (positions self)(dispatch_cancel request \<mapsto> index)\<rparr>;
               self = self\<lparr>items := items self @ [request]\<rparr>
           in (sift_up self index, Inr ()))"

definition heap_remove :: "indexed_heap \<Rightarrow> token \<Rightarrow> indexed_heap \<times> queued_request option" where
  "heap_remove self tok =
     (case positions self tok of
        None \<Rightarrow> (self, None)
      | Some index \<Rightarrow>
          if \<not> is_some_and (get (items self) index) (\<lambda>item. dispatch_cancel item = tok)
          then (self, None)
          else case usize_checked_sub (length (items self)) 1 of
                 None \<Rightarrow> (self, None)
               | Some last_index \<Rightarrow>
                   let lst = last (items self);
                       self = self\<lparr>items := butlast (items self)\<rparr>
                   in if index = last_index
                      then (self\<lparr>positions := (positions self)(tok := None)\<rparr>, Some lst)
                      else case get (items self) index of
                             None \<Rightarrow> (self\<lparr>items := items self @ [lst]\<rparr>, None)
                           | Some removed \<Rightarrow>
                               let self = self\<lparr>items := (items self)[index := lst],
                                            positions := (positions self)(tok := None)\<rparr>;
                                   self = self\<lparr>positions := (positions self)(dispatch_cancel lst \<mapsto> index)\<rparr>;
                                   self = (if is_some_and (usize_checked_sub index 1)
                                               (\<lambda>parent. heap_greater self index (parent div 2))
                                           then sift_up self index else sift_down self index)
                               in (self, Some removed))"

definition heap_pop :: "indexed_heap \<Rightarrow> indexed_heap \<times> queued_request option" where
  "heap_pop self =
     (case get (items self) 0 of
        None \<Rightarrow> (self, None)
      | Some first \<Rightarrow> heap_remove self (dispatch_cancel first))"

definition heap_drain :: "indexed_heap \<Rightarrow> indexed_heap \<times> queued_request list" where
  "heap_drain self = (self\<lparr>items := [], positions := Map.empty\<rparr>, items self)"

section \<open>The invariant\<close>

definition par :: "nat \<Rightarrow> nat" where
  "par i = (i - 1) div 2"

definition index_ok :: "indexed_heap \<Rightarrow> bool" where
  "index_ok h \<longleftrightarrow>
     (\<forall>i < length (items h). positions h (dispatch_cancel (items h ! i)) = Some i)
   \<and> (\<forall>t i. positions h t = Some i \<longrightarrow> i < length (items h) \<and> dispatch_cancel (items h ! i) = t)"

definition heap_order :: "queued_request list \<Rightarrow> bool" where
  "heap_order xs \<longleftrightarrow> (\<forall>i. 0 < i \<longrightarrow> i < length xs \<longrightarrow> sched_key (xs ! i) \<le> sched_key (xs ! par i))"

definition heap_inv :: "indexed_heap \<Rightarrow> bool" where
  "heap_inv h \<longleftrightarrow> index_ok h \<and> heap_order (items h) \<and> length (items h) \<le> ISIZE_MAX"

lemma par_less: "0 < i \<Longrightarrow> par i < i"
  by (auto simp: par_def)

lemma heap_greater_iff:
  "heap_greater h l r \<longleftrightarrow> l < length (items h) \<and> r < length (items h)
     \<and> sched_key (items h ! r) < sched_key (items h ! l)"
  by (auto simp: heap_greater_def request_cmp_key cmp_nat_def split: option.splits if_splits)

lemma request_cmp_not_Less: "request_cmp a b \<noteq> Less \<longleftrightarrow> sched_key b \<le> sched_key a"
  by (auto simp: request_cmp_key cmp_nat_def not_less)

lemma index_okI:
  assumes "\<And>i. i < length (items h) \<Longrightarrow> positions h (dispatch_cancel (items h ! i)) = Some i"
    and "\<And>t i. positions h t = Some i \<Longrightarrow> i < length (items h) \<and> dispatch_cancel (items h ! i) = t"
  shows "index_ok h"
  using assms by (simp add: index_ok_def)

lemma index_okD:
  assumes "index_ok h"
  shows "i < length (items h) \<Longrightarrow> positions h (dispatch_cancel (items h ! i)) = Some i"
    and "positions h t = Some i \<Longrightarrow> i < length (items h)"
    and "positions h t = Some i \<Longrightarrow> dispatch_cancel (items h ! i) = t"
  using assms by (auto simp: index_ok_def)

lemma index_ok_inj:
  assumes "index_ok h" and "dispatch_cancel (items h ! a) = dispatch_cancel (items h ! b)"
    and "a < length (items h)" and "b < length (items h)"
  shows "a = b"
  using index_okD(1) [OF assms(1,3)] index_okD(1) [OF assms(1,4)] unfolding assms(2) by simp

lemma index_ok_distinct: "index_ok h \<Longrightarrow> distinct (map dispatch_cancel (items h))"
  using index_ok_inj [of h] by (auto simp: distinct_conv_nth)

text \<open>A swap of two positions in range keeps the index consistent.\<close>

lemma swap_ok:
  assumes "index_ok h" and "l < length (items h)" and "r < length (items h)" and "l \<noteq> r"
  shows "snd (swap h l r)"
    and "items (fst (swap h l r)) = (items h)[l := items h ! r, r := items h ! l]"
    and "index_ok (fst (swap h l r))"
proof -
  define a b where "a = items h ! l" and "b = items h ! r"
  have pa: "positions h (dispatch_cancel a) = Some l" and pb: "positions h (dispatch_cancel b) = Some r"
    using assms by (auto simp: index_ok_def a_def b_def)
  then have ne: "dispatch_cancel a \<noteq> dispatch_cancel b" using assms(4) by auto
  have sw: "swap h l r = (h\<lparr>items := (items h)[l := b, r := a],
      positions := (positions h)(dispatch_cancel b \<mapsto> l, dispatch_cancel a \<mapsto> r)\<rparr>, True)"
    using assms(2-4) pa pb ne by (simp add: swap_def set_position_def get_lt a_def b_def)
  show "snd (swap h l r)" by (simp add: sw)
  show "items (fst (swap h l r)) = (items h)[l := items h ! r, r := items h ! l]"
    by (simp add: sw a_def b_def)
  note inj = index_ok_inj [OF assms(1)]
  show "index_ok (fst (swap h l r))"
    unfolding sw index_ok_def
    using assms ne inj [of _ l] inj [of _ r]
    by (auto simp: index_ok_def nth_list_update a_def b_def)
qed

section \<open>Sifting\<close>

text \<open>Heap order except between position \<open>k\<close> and its parent.\<close>

definition order_up :: "queued_request list \<Rightarrow> nat \<Rightarrow> bool" where
  "order_up xs k \<longleftrightarrow>
     (\<forall>i. 0 < i \<longrightarrow> i < length xs \<longrightarrow> i \<noteq> k \<longrightarrow> sched_key (xs ! i) \<le> sched_key (xs ! par i))
   \<and> (\<forall>c. 0 < c \<longrightarrow> c < length xs \<longrightarrow> par c = k \<longrightarrow> 0 < k \<longrightarrow> sched_key (xs ! c) \<le> sched_key (xs ! par k))"

text \<open>Heap order except between position \<open>k\<close> and its children.\<close>

definition order_down :: "queued_request list \<Rightarrow> nat \<Rightarrow> bool" where
  "order_down xs k \<longleftrightarrow>
     (\<forall>i. 0 < i \<longrightarrow> i < length xs \<longrightarrow> par i \<noteq> k \<longrightarrow> sched_key (xs ! i) \<le> sched_key (xs ! par i))
   \<and> (\<forall>c. 0 < c \<longrightarrow> c < length xs \<longrightarrow> par c = k \<longrightarrow> 0 < k \<longrightarrow> sched_key (xs ! c) \<le> sched_key (xs ! par k))"

lemma nth_swapped:
  assumes "l < length xs" and "r < length xs"
  shows "xs[l := xs ! r, r := xs ! l] ! i = (if i = r then xs ! l else if i = l then xs ! r else xs ! i)"
  using assms by (auto simp: nth_list_update)

lemma order_up_step:
  assumes up: "order_up xs k" and k: "0 < k" "k < length xs"
    and gt: "sched_key (xs ! par k) < sched_key (xs ! k)"
  shows "order_up (xs[k := xs ! par k, par k := xs ! k]) (par k)"
proof -
  let ?p = "par k"
  define ys where "ys = xs[k := xs ! par k, par k := xs ! k]"
  have p: "?p < length xs" "?p < k" using k par_less [of k] by auto
  have nth: "ys ! i = (if i = ?p then xs ! k else if i = k then xs ! ?p else xs ! i)" for i
    unfolding ys_def by (rule nth_swapped [OF k(2) p(1)])
  have ord: "sched_key (xs ! i) \<le> sched_key (xs ! par i)" if "0 < i" "i < length xs" "i \<noteq> k" for i
    using up that by (auto simp: order_up_def)
  have chi: "sched_key (xs ! c) \<le> sched_key (xs ! ?p)" if "0 < c" "c < length xs" "par c = k" for c
    using up that k by (auto simp: order_up_def)
  have one: "sched_key (ys ! i) \<le> sched_key (ys ! par i)" if i: "0 < i" "i < length xs" "i \<noteq> ?p" for i
  proof -
    consider "i = k" | "i \<noteq> k" "par i = k" | "i \<noteq> k" "par i = ?p" | "i \<noteq> k" "par i \<noteq> k" "par i \<noteq> ?p"
      by blast
    then show ?thesis
    proof cases
      case 1 then show ?thesis using gt p by (simp add: nth)
    next
      case 2 then show ?thesis using chi [of i] i p by (simp add: nth)
    next
      case 3 then show ?thesis using ord [of i] i gt p by (simp add: nth)
    next
      case 4 then show ?thesis using ord [of i] i by (simp add: nth)
    qed
  qed
  have two: "sched_key (ys ! c) \<le> sched_key (ys ! par ?p)"
    if c: "0 < c" "c < length xs" "par c = ?p" "0 < ?p" for c
  proof -
    have pp: "par ?p < ?p" using c(4) by (rule par_less)
    have a: "sched_key (xs ! ?p) \<le> sched_key (xs ! par ?p)" using ord [of ?p] p c(4) by auto
    show ?thesis
    proof (cases "c = k")
      case True then show ?thesis using a pp p by (simp add: nth)
    next
      case False
      then have "sched_key (xs ! c) \<le> sched_key (xs ! ?p)" using ord [of c] c by simp
      moreover have "c \<noteq> ?p" using c par_less [of c] by auto
      ultimately show ?thesis using a pp p False by (simp add: nth)
    qed
  qed
  have "length ys = length xs" by (simp add: ys_def)
  then show ?thesis unfolding order_up_def ys_def [symmetric] using one two by auto
qed

lemma order_up_done:
  "order_up xs k \<Longrightarrow> \<not> 0 < k \<or> sched_key (xs ! k) \<le> sched_key (xs ! par k) \<Longrightarrow> heap_order xs"
  unfolding order_up_def heap_order_def by blast

lemma mset_swapped:
  "l < length xs \<Longrightarrow> r < length xs \<Longrightarrow> mset (xs[l := xs ! r, r := xs ! l]) = mset xs"
  by (simp add: mset_swap)

lemma sift_up_correct:
  assumes "index_ok h" and "order_up (items h) k" and "k < length (items h)"
  shows "index_ok (sift_up h k) \<and> heap_order (items (sift_up h k))
    \<and> mset (items (sift_up h k)) = mset (items h)"
  using assms
proof (induction k arbitrary: h rule: less_induct)
  case (less k)
  have unf: "sift_up h k = (if 0 < k \<and> heap_greater h k (par k)
      then (case swap h k (par k) of (self, ok) \<Rightarrow> if ok then sift_up self (par k) else self)
      else h)"
    by (auto simp: sift_up.simps [of h k] usize_checked_sub_def par_def Let_def case_prod_beta)
  show ?case
  proof (cases "0 < k \<and> heap_greater h k (par k)")
    case False
    then have "sift_up h k = h" unfolding unf by (rule if_not_P)
    moreover have "\<not> 0 < k \<or> sched_key (items h ! k) \<le> sched_key (items h ! par k)"
      using False less.prems(3) par_less [of k] by (cases "0 < k") (simp_all add: heap_greater_iff not_less)
    then have "heap_order (items h)" by (rule order_up_done [OF less.prems(2)])
    ultimately show ?thesis using less.prems by simp
  next
    case True
    then have k: "0 < k" and gt: "sched_key (items h ! par k) < sched_key (items h ! k)"
      by (auto simp: heap_greater_iff)
    have pk: "par k < k" using k by (rule par_less)
    then have p: "par k < length (items h)" using less.prems(3) by simp
    note sw = swap_ok [OF less.prems(1,3) p]
    define h' where "h' = fst (swap h k (par k))"
    have it: "items h' = (items h)[k := items h ! par k, par k := items h ! k]"
      using sw(2) pk by (simp add: h'_def)
    have eq: "sift_up h k = sift_up h' (par k)"
      unfolding unf using True sw(1) pk by (simp add: h'_def case_prod_beta)
    have "order_up (items h') (par k)"
      unfolding it by (rule order_up_step [OF less.prems(2) k less.prems(3) gt])
    moreover have "index_ok h'" using sw(3) pk by (simp add: h'_def)
    ultimately have "index_ok (sift_up h' (par k)) \<and> heap_order (items (sift_up h' (par k)))
        \<and> mset (items (sift_up h' (par k))) = mset (items h')"
      using p by (intro less.IH [OF pk]) (simp_all add: it)
    then show ?thesis unfolding eq it using mset_swapped less.prems(3) p by simp
  qed
qed

lemma par_child: "0 < i \<Longrightarrow> par i = k \<longleftrightarrow> i = 2 * k + 1 \<or> i = 2 * k + 2"
  by (auto simp: par_def)

lemma order_down_step:
  assumes dn: "order_down xs k" and c: "0 < c" "c < length xs" "par c = k"
    and mx: "\<And>i. 0 < i \<Longrightarrow> i < length xs \<Longrightarrow> par i = k \<Longrightarrow> sched_key (xs ! i) \<le> sched_key (xs ! c)"
    and gt: "sched_key (xs ! k) < sched_key (xs ! c)"
  shows "order_down (xs[k := xs ! c, c := xs ! k]) c"
proof -
  define ys where "ys = xs[k := xs ! c, c := xs ! k]"
  have k: "k < c" "k < length xs" using c par_less [of c] by auto
  have nth: "ys ! i = (if i = c then xs ! k else if i = k then xs ! c else xs ! i)" for i
    unfolding ys_def by (rule nth_swapped [OF k(2) c(2)])
  have ord: "sched_key (xs ! i) \<le> sched_key (xs ! par i)" if "0 < i" "i < length xs" "par i \<noteq> k" for i
    using dn that by (auto simp: order_down_def)
  have one: "sched_key (ys ! i) \<le> sched_key (ys ! par i)" if i: "0 < i" "i < length xs" "par i \<noteq> c" for i
  proof -
    consider "i = c" | "i \<noteq> c" "par i = k" | "i = k" "par i \<noteq> k" | "i \<noteq> c" "i \<noteq> k" "par i \<noteq> k"
      by blast
    then show ?thesis
    proof cases
      case 1 then show ?thesis using gt c k by (simp add: nth)
    next
      case 2
      then have "i \<noteq> k" using par_less [OF i(1)] by auto
      with 2 show ?thesis using mx [of i] i k by (simp add: nth)
    next
      case 3
      have "sched_key (xs ! c) \<le> sched_key (xs ! par k)"
        using dn c 3 i by (auto simp: order_down_def)
      with 3 show ?thesis using i k by (simp add: nth)
    next
      case 4 then show ?thesis using ord [of i] i by (simp add: nth)
    qed
  qed
  have two: "sched_key (ys ! d) \<le> sched_key (ys ! par c)" if d: "0 < d" "d < length xs" "par d = c" for d
  proof -
    have "c < d" using par_less [OF d(1)] d(3) by simp
    then show ?thesis using ord [of d] d c k by (simp add: nth)
  qed
  have "length ys = length xs" by (simp add: ys_def)
  then show ?thesis unfolding order_down_def ys_def [symmetric] using one two by auto
qed

lemma order_down_done:
  assumes "order_down xs k"
    and "\<And>i. 0 < i \<Longrightarrow> i < length xs \<Longrightarrow> par i = k \<Longrightarrow> sched_key (xs ! i) \<le> sched_key (xs ! k)"
  shows "heap_order xs"
  using assms unfolding order_down_def heap_order_def by blast

text \<open>The child the loop compares with: the larger of the two.\<close>

definition larger_child :: "indexed_heap \<Rightarrow> nat \<Rightarrow> nat" where
  "larger_child h k = (if 2 * k + 2 < length (items h) \<and> heap_greater h (2 * k + 2) (2 * k + 1)
                       then 2 * k + 2 else 2 * k + 1)"

lemma sift_down_unfold:
  assumes "length (items h) \<le> ISIZE_MAX" and "k < length (items h)"
  shows "sift_down h k =
    (if 2 * k + 1 < length (items h) \<and> heap_greater h (larger_child h k) k
     then (case swap h k (larger_child h k) of
             (self, ok) \<Rightarrow> if ok then sift_down self (larger_child h k) else self)
     else h)"
proof -
  have "2 * k + 2 \<le> USIZE_MAX" using assms by (simp add: ISIZE_MAX_def USIZE_MAX_def)
  then show ?thesis
    by (auto simp: sift_down.simps [of h k] usize_checked_mul_def usize_checked_add_def
        larger_child_def mult.commute [of 2 k] Let_def case_prod_beta)
qed

lemma larger_child_facts:
  assumes "2 * k + 1 < length (items h)"
  shows "larger_child h k < length (items h)" and "0 < larger_child h k" and "par (larger_child h k) = k"
    and "\<And>i. 0 < i \<Longrightarrow> i < length (items h) \<Longrightarrow> par i = k
          \<Longrightarrow> sched_key (items h ! i) \<le> sched_key (items h ! larger_child h k)"
proof -
  show "larger_child h k < length (items h)" and "0 < larger_child h k"
    using assms by (auto simp: larger_child_def)
  show "par (larger_child h k) = k" by (simp add: larger_child_def par_def)
  show "sched_key (items h ! i) \<le> sched_key (items h ! larger_child h k)"
    if "0 < i" "i < length (items h)" "par i = k" for i
  proof -
    have "i = 2 * k + 1 \<or> i = 2 * k + 2" using par_child [OF that(1), of k] that(3) by blast
    then show ?thesis using assms that(2) by (auto simp: larger_child_def heap_greater_iff)
  qed
qed

lemma sift_down_correct:
  assumes "index_ok h" and "order_down (items h) k" and "k < length (items h)"
    and "length (items h) \<le> ISIZE_MAX"
  shows "index_ok (sift_down h k) \<and> heap_order (items (sift_down h k))
    \<and> mset (items (sift_down h k)) = mset (items h)"
  using assms
proof (induction "length (items h) - k" arbitrary: h k rule: less_induct)
  case less
  note unf = sift_down_unfold [OF less.prems(4,3)]
  show ?case
  proof (cases "2 * k + 1 < length (items h) \<and> heap_greater h (larger_child h k) k")
    case False
    then have "sift_down h k = h" by (simp add: unf if_not_P)
    moreover have "heap_order (items h)"
    proof (rule order_down_done [OF less.prems(2)])
      fix i assume i: "0 < i" "i < length (items h)" "par i = k"
      then have l: "2 * k + 1 < length (items h)" using par_child [of i k] by auto
      have "sched_key (items h ! larger_child h k) \<le> sched_key (items h ! k)"
        using False l larger_child_facts(1) [OF l] less.prems(3) by (simp add: heap_greater_iff not_less)
      with larger_child_facts(4) [OF l i] show "sched_key (items h ! i) \<le> sched_key (items h ! k)"
        by simp
    qed
    ultimately show ?thesis using less.prems by simp
  next
    case True
    define c where "c = larger_child h k"
    have lc: "2 * k + 1 < length (items h)" using True by simp
    note c = larger_child_facts [OF lc, folded c_def]
    have gt: "sched_key (items h ! k) < sched_key (items h ! c)"
      using True by (simp add: heap_greater_iff c_def)
    have kc: "k < c" using par_less [OF c(2)] c(3) by simp
    note sw = swap_ok [OF less.prems(1,3) c(1)]
    define h' where "h' = fst (swap h k c)"
    have it: "items h' = (items h)[k := items h ! c, c := items h ! k]"
      using sw(2) kc by (simp add: h'_def)
    have eq: "sift_down h k = sift_down h' c"
      using True sw(1) kc by (simp add: unf c_def [symmetric] h'_def case_prod_beta)
    have "order_down (items h') c"
      unfolding it by (rule order_down_step [OF less.prems(2) c(2,1,3,4) gt])
    moreover have "length (items h') = length (items h)" by (simp add: it)
    moreover have "index_ok h'" using sw(3) kc by (simp add: h'_def)
    ultimately have "index_ok (sift_down h' c) \<and> heap_order (items (sift_down h' c))
        \<and> mset (items (sift_down h' c)) = mset (items h')"
      using kc c(1) less.prems(3,4) by (intro less.hyps) auto
    then show ?thesis unfolding eq it using mset_swapped c(1) less.prems(3) by simp
  qed
qed

section \<open>Every operation keeps the invariant\<close>

lemma heap_inv_new: "heap_inv heap_new"
  by (simp add: heap_inv_def heap_new_def index_ok_def heap_order_def)

lemma heap_push_ok:
  assumes inv: "heap_inv h" and ok: "heap_push a b h r = (h', Inr ())"
  shows "heap_inv h'" and "mset (items h') = add_mset r (mset (items h))"
proof -
  define h1 where "h1 = h\<lparr>positions := (positions h)(dispatch_cancel r \<mapsto> length (items h)),
      items := items h @ [r]\<rparr>"
  have new: "positions h (dispatch_cancel r) = None" and len: "length (items h) + 1 \<le> ISIZE_MAX"
    and h': "h' = sift_up h1 (length (items h))"
    using ok by (auto simp: heap_push_def h1_def heap_contains_def is_some_def try_reserve_one_def Let_def
        split: if_splits option.splits)
  have ix: "index_ok h" using inv by (simp add: heap_inv_def)
  have "index_ok h1"
  proof (rule index_okI)
    fix i assume i: "i < length (items h1)"
    show "positions h1 (dispatch_cancel (items h1 ! i)) = Some i"
    proof (cases "i < length (items h)")
      case True
      then have "positions h (dispatch_cancel (items h ! i)) = Some i" by (rule index_okD(1) [OF ix])
      with new True show ?thesis by (auto simp: h1_def nth_append)
    qed (use i in \<open>simp add: h1_def nth_append\<close>)
  next
    fix u i assume "positions h1 u = Some i"
    then show "i < length (items h1) \<and> dispatch_cancel (items h1 ! i) = u"
      using index_okD(2,3) [OF ix, of u i] by (auto simp: h1_def nth_append split: if_splits)
  qed
  moreover have "order_up (items h1) (length (items h))"
  proof -
    have len1: "length (items h1) = Suc (length (items h))" by (simp add: h1_def)
    have pl: "par i < length (items h)" if "0 < i" "i < Suc (length (items h))" for i
      using par_less [OF that(1)] that(2) by simp
    have "sched_key (items h1 ! i) \<le> sched_key (items h1 ! par i)"
      if "0 < i" "i < length (items h)" for i
      using inv that pl [of i] by (simp add: heap_inv_def heap_order_def h1_def nth_append)
    moreover have "par c \<noteq> length (items h)" if "0 < c" "c < Suc (length (items h))" for c
      using pl [OF that] by simp
    ultimately show ?thesis unfolding order_up_def len1 by (auto simp: less_Suc_eq)
  qed
  ultimately have "index_ok h' \<and> heap_order (items h') \<and> mset (items h') = mset (items h1)"
    unfolding h' by (intro sift_up_correct) (simp_all add: h1_def)
  moreover from this have "length (items h') = length (items h1)" by (metis mset_eq_length)
  moreover have "length (items h1) = length (items h) + 1" by (simp add: h1_def)
  ultimately show "mset (items h') = add_mset r (mset (items h))" and "heap_inv h'"
    using len by (simp_all add: heap_inv_def h1_def)
qed

text \<open>The state of \<open>remove\<close> before it restores the order: the last request has taken the slot.\<close>

definition filled :: "indexed_heap \<Rightarrow> token \<Rightarrow> nat \<Rightarrow> indexed_heap" where
  "filled h t i = h\<lparr>items := (butlast (items h))[i := last (items h)],
     positions := (positions h)(t := None, dispatch_cancel (last (items h)) \<mapsto> i)\<rparr>"

lemma heap_remove_cases:
  assumes "index_ok h" and "positions h t = Some i"
  shows "heap_remove h t =
    (if Suc i = length (items h)
     then (h\<lparr>items := butlast (items h), positions := (positions h)(t := None)\<rparr>, Some (items h ! i))
     else (if 0 < i \<and> heap_greater (filled h t i) i (par i) then sift_up (filled h t i) i
           else sift_down (filled h t i) i,
           Some (items h ! i)))"
proof -
  have i: "i < length (items h)" "dispatch_cancel (items h ! i) = t"
    using assms by (auto simp: index_ok_def)
  then have "last (items h) = items h ! i" if "Suc i = length (items h)"
    using that last_conv_nth [of "items h"] by (metis diff_Suc_1 length_0_conv less_nat_zero_code)
  moreover have "filled h t i = h\<lparr>items := (butlast (items h))[i := last (items h)],
      positions := (positions h)(t := None, dispatch_cancel (last (items h)) \<mapsto> i)\<rparr>"
    by (simp add: filled_def)
  ultimately show ?thesis using assms(2) i
    by (auto simp: heap_remove_def Let_def usize_checked_sub_def is_some_and_def get_lt nth_butlast par_def
        split: option.splits)
qed

lemma filled_facts:
  assumes inv: "heap_inv h" and i: "positions h t = Some i" and ne: "Suc i \<noteq> length (items h)"
  shows "index_ok (filled h t i)" and "length (items (filled h t i)) = length (items h) - 1"
    and "i < length (items h) - 1"
    and "mset (items (filled h t i)) = mset (items h) - {#items h ! i#}"
    and "\<And>j. j < length (items h) - 1 \<Longrightarrow>
          items (filled h t i) ! j = (if j = i then last (items h) else items h ! j)"
proof -
  define n xs where "n = length (items h) - 1" and "xs = items h"
  have ix: "index_ok h" using inv by (simp add: heap_inv_def)
  have i': "i < length xs" "dispatch_cancel (xs ! i) = t"
    using index_okD(2,3) [OF ix i] by (simp_all add: xs_def)
  then have len: "length xs = Suc n" and lt: "i < n" using ne by (auto simp: n_def xs_def)
  have lst: "last xs = xs ! n" using len by (metis diff_Suc_1 last_conv_nth length_0_conv nat.distinct(1))
  have split: "xs = butlast xs @ [xs ! n]"
    using len lst by (metis append_butlast_last_id length_0_conv nat.distinct(1))
  have inj: "a = b" if "dispatch_cancel (xs ! a) = dispatch_cancel (xs ! b)" "a < length xs" "b < length xs"
    for a b
    using index_ok_inj [OF ix, of a b] that by (simp add: xs_def)
  show nth: "items (filled h t i) ! j = (if j = i then last (items h) else items h ! j)"
    if "j < length (items h) - 1" for j
    using that lt by (simp add: filled_def nth_list_update nth_butlast n_def)
  show l: "length (items (filled h t i)) = length (items h) - 1" by (simp add: filled_def)
  show "i < length (items h) - 1" using lt by (simp add: n_def)
  have p: "positions h (dispatch_cancel (xs ! j)) = Some j" if "j < length xs" for j
    using ix that by (auto simp: index_ok_def xs_def)
  have pf: "positions (filled h t i) = (positions h)(t := None, dispatch_cancel (xs ! n) \<mapsto> i)"
    using lst by (simp add: filled_def xs_def)
  show "index_ok (filled h t i)"
  proof (rule index_okI)
    fix j assume "j < length (items (filled h t i))"
    then have j: "j < n" by (simp add: l n_def)
    then have e: "items (filled h t i) ! j = (if j = i then xs ! n else xs ! j)"
      using nth [of j] lst by (simp add: n_def xs_def)
    have "dispatch_cancel (xs ! j) \<noteq> t" if "j \<noteq> i" using inj [of j i] i' j len that by auto
    moreover have "dispatch_cancel (xs ! j) \<noteq> dispatch_cancel (xs ! n)" using inj [of j n] j len by auto
    moreover have "positions h (dispatch_cancel (xs ! j)) = Some j" using p [of j] j len by simp
    ultimately show "positions (filled h t i) (dispatch_cancel (items (filled h t i) ! j)) = Some j"
      unfolding e pf by auto
  next
    fix u j assume u: "positions (filled h t i) u = Some j"
    have "j < n \<and> dispatch_cancel (if j = i then xs ! n else xs ! j) = u"
    proof (cases "u = dispatch_cancel (xs ! n)")
      case True
      then show ?thesis using u lt by (simp add: pf)
    next
      case False
      then have "u \<noteq> t" "positions h u = Some j"
        using u by (auto simp: pf split: if_splits)
      then have "j < length xs" "dispatch_cancel (xs ! j) = u"
        using index_okD(2,3) [OF ix, of u j] by (simp_all add: xs_def)
      with False \<open>u \<noteq> t\<close> i' len show ?thesis by (auto simp: less_Suc_eq)
    qed
    then show "j < length (items (filled h t i)) \<and> dispatch_cancel (items (filled h t i) ! j) = u"
      using nth [of j] lst by (auto simp: l n_def xs_def)
  qed
  have "mset xs = add_mset (xs ! n) (mset (butlast xs))" by (subst split) simp
  moreover have "xs ! i \<in># mset (butlast xs)"
    using lt len by (auto simp: in_set_conv_nth nth_butlast intro!: exI [of _ i])
  ultimately show "mset (items (filled h t i)) = mset (items h) - {#items h ! i#}"
    using lt len by (simp add: filled_def xs_def [symmetric] lst mset_update nth_butlast)
qed

lemma filled_order:
  assumes inv: "heap_inv h" and i: "positions h t = Some i" and ne: "Suc i \<noteq> length (items h)"
  shows "0 < i \<and> heap_greater (filled h t i) i (par i) \<Longrightarrow> order_up (items (filled h t i)) i"
    and "\<not> (0 < i \<and> heap_greater (filled h t i) i (par i)) \<Longrightarrow> order_down (items (filled h t i)) i"
proof -
  define n xs ys where "n = length (items h) - 1" and "xs = items h" and "ys = items (filled h t i)"
  note f = filled_facts [OF assms]
  have len: "length ys = n" and lt: "i < n" using f(2,3) by (auto simp: ys_def n_def)
  have nth: "ys ! j = (if j = i then last xs else xs ! j)" if "j < n" for j
    using f(5) that by (simp add: ys_def n_def xs_def)
  have ord: "sched_key (xs ! j) \<le> sched_key (xs ! par j)" if "0 < j" "j < n" for j
    using inv that by (auto simp: heap_inv_def heap_order_def xs_def n_def)
  have g: "heap_greater (filled h t i) i (par i) \<longleftrightarrow> sched_key (xs ! par i) < sched_key (last xs)"
    if "0 < i"
    using par_less [OF that] lt len nth [of i] nth [of "par i"] by (auto simp: heap_greater_iff ys_def)
  have same: "sched_key (ys ! j) \<le> sched_key (ys ! par j)" if "0 < j" "j < n" "j \<noteq> i" "par j \<noteq> i" for j
    using ord [OF that(1,2)] nth [OF that(2)] nth [of "par j"] par_less [OF that(1)] that by auto
  have kids: "sched_key (ys ! c) \<le> sched_key (ys ! par i)" if "0 < c" "c < n" "par c = i" "0 < i" for c
  proof -
    have "sched_key (xs ! c) \<le> sched_key (xs ! i)" using ord [of c] that by simp
    also have "\<dots> \<le> sched_key (xs ! par i)" using ord [of i] that lt by simp
    finally show ?thesis
      using nth [of c] nth [of "par i"] that lt par_less [OF that(1)] par_less [OF that(4)] by auto
  qed
  show "order_up (items (filled h t i)) i" if up: "0 < i \<and> heap_greater (filled h t i) i (par i)"
  proof -
    have gt: "sched_key (ys ! par i) < sched_key (ys ! i)"
      using up g nth [of i] nth [of "par i"] lt par_less [of i] by auto
    have "sched_key (ys ! j) \<le> sched_key (ys ! par j)" if "0 < j" "j < n" "j \<noteq> i" for j
      using same [OF that] kids [of j] that up gt by (cases "par j = i") auto
    then show ?thesis unfolding order_up_def ys_def [symmetric] using kids len by auto
  qed
  show "order_down (items (filled h t i)) i" if dn: "\<not> (0 < i \<and> heap_greater (filled h t i) i (par i))"
  proof -
    have le: "sched_key (ys ! i) \<le> sched_key (ys ! par i)" if "0 < i"
      using that dn g nth [of i] nth [of "par i"] lt par_less [of i] by auto
    have "sched_key (ys ! j) \<le> sched_key (ys ! par j)" if "0 < j" "j < n" "par j \<noteq> i" for j
      using same [of j] that le by (cases "j = i") auto
    then show ?thesis unfolding order_down_def ys_def [symmetric] using kids len by auto
  qed
qed

lemma heap_remove_ok:
  assumes inv: "heap_inv h" and i: "positions h t = Some i"
  shows "snd (heap_remove h t) = Some (items h ! i)" and "heap_inv (fst (heap_remove h t))"
    and "mset (items (fst (heap_remove h t))) = mset (items h) - {#items h ! i#}"
proof -
  have ix: "index_ok h" using inv by (simp add: heap_inv_def)
  have lt: "i < length (items h)" "dispatch_cancel (items h ! i) = t" using ix i by (auto simp: index_ok_def)
  note c = heap_remove_cases [OF ix i]
  show "snd (heap_remove h t) = Some (items h ! i)" by (simp add: c)
  have "heap_inv (fst (heap_remove h t))
    \<and> mset (items (fst (heap_remove h t))) = mset (items h) - {#items h ! i#}"
  proof (cases "Suc i = length (items h)")
    case True
    have e: "items h = butlast (items h) @ [items h ! i]"
      using True lt by (metis append_butlast_last_id diff_Suc_1 last_conv_nth length_greater_0_conv
          less_nat_zero_code not_gr_zero)
    have m: "mset (butlast (items h)) = mset (items h) - {#items h ! i#}"
      by (subst (2) e) simp
    have "index_ok (h\<lparr>items := butlast (items h), positions := (positions h)(t := None)\<rparr>)" (is "index_ok ?h")
    proof (rule index_okI)
      fix j assume j: "j < length (items ?h)"
      then have "j \<noteq> i" "j < length (items h)" using True by auto
      moreover from this have "dispatch_cancel (items h ! j) \<noteq> t" using index_ok_inj [OF ix, of j i] lt by auto
      ultimately show "positions ?h (dispatch_cancel (items ?h ! j)) = Some j"
        using j index_okD(1) [OF ix, of j] by (simp add: nth_butlast)
    next
      fix u j assume "positions ?h u = Some j"
      then have u: "u \<noteq> t" "positions h u = Some j" by (auto split: if_splits)
      then have "j < length (items h)" "dispatch_cancel (items h ! j) = u" "j \<noteq> i"
        using index_okD(2,3) [OF ix u(2)] lt by auto
      then show "j < length (items ?h) \<and> dispatch_cancel (items ?h ! j) = u"
        using True by (auto simp: nth_butlast)
    qed
    moreover have "heap_order (butlast (items h))"
    proof -
      have "sched_key (butlast (items h) ! j) \<le> sched_key (butlast (items h) ! par j)"
        if "0 < j" "j < length (items h) - 1" for j
        using inv that par_less [OF that(1)] by (simp add: heap_inv_def heap_order_def nth_butlast)
      then show ?thesis by (simp add: heap_order_def)
    qed
    moreover have "length (items h) - 1 \<le> ISIZE_MAX" using inv unfolding heap_inv_def by linarith
    ultimately show ?thesis using True m by (simp add: c heap_inv_def)
  next
    case False
    note f = filled_facts [OF inv i False]
    define h1 where "h1 = filled h t i"
    have l: "length (items h1) \<le> ISIZE_MAX" using f(2) inv unfolding h1_def heap_inv_def by linarith
    have lt1: "i < length (items h1)" using f(2,3) by (simp add: h1_def)
    define h2 where "h2 = (if 0 < i \<and> heap_greater h1 i (par i) then sift_up h1 i else sift_down h1 i)"
    have e: "fst (heap_remove h t) = h2"
      unfolding c h2_def h1_def using False by (simp only: if_False fst_conv)
    have "index_ok h2 \<and> heap_order (items h2) \<and> mset (items h2) = mset (items h1)"
    proof (cases "0 < i \<and> heap_greater h1 i (par i)")
      case True
      then have "h2 = sift_up h1 i" unfolding h2_def by (rule if_P)
      moreover have "order_up (items h1) i" using filled_order(1) [OF inv i False] True unfolding h1_def by blast
      ultimately show ?thesis using sift_up_correct [of h1 i] f(1) lt1 unfolding h1_def by blast
    next
      case no: False
      then have "h2 = sift_down h1 i" unfolding h2_def by (rule if_not_P)
      moreover have "order_down (items h1) i" using filled_order(2) [OF inv i False] no unfolding h1_def by blast
      ultimately show ?thesis using sift_down_correct [of h1 i] f(1) lt1 l unfolding h1_def by blast
    qed
    moreover from this have "length (items h2) = length (items h1)" by (metis mset_eq_length)
    ultimately show ?thesis unfolding e using f(4) l by (simp add: heap_inv_def h1_def)
  qed
  then show "heap_inv (fst (heap_remove h t))"
    and "mset (items (fst (heap_remove h t))) = mset (items h) - {#items h ! i#}" by auto
qed

lemma heap_root_max:
  assumes "heap_order xs" and "i < length xs"
  shows "sched_key (xs ! i) \<le> sched_key (xs ! 0)"
  using assms(2)
proof (induction i rule: less_induct)
  case (less i)
  show ?case
  proof (cases "i = 0")
    case False
    then have i: "0 < i" by simp
    have "sched_key (xs ! i) \<le> sched_key (xs ! par i)"
      using assms(1) i less.prems unfolding heap_order_def by blast
    also have "\<dots> \<le> sched_key (xs ! 0)"
      by (rule less.IH [OF par_less [OF i] order_less_trans [OF par_less [OF i] less.prems]])
    finally show ?thesis .
  qed simp
qed

section \<open>The contract of the heap\<close>

definition contents :: "indexed_heap \<Rightarrow> token \<rightharpoonup> queued_request" where
  "contents h t = map_option (\<lambda>i. items h ! i) (positions h t)"

text \<open>Up to \<open>n\<close> successive \<open>pop\<close>s: the requests in the order they came out, and the rest.\<close>

fun pops :: "('h \<Rightarrow> 'h \<times> queued_request option) \<Rightarrow> nat \<Rightarrow> 'h \<Rightarrow> queued_request list \<times> 'h" where
  "pops pop 0 h = ([], h)"
| "pops pop (Suc n) h =
     (case pop h of
        (h', None) \<Rightarrow> ([], h')
      | (h', Some r) \<Rightarrow> (case pops pop n h' of (rs, h'') \<Rightarrow> (r # rs, h'')))"

locale request_heap =
  fixes inv :: "'h \<Rightarrow> bool"
    and cont :: "'h \<Rightarrow> token \<rightharpoonup> queued_request"
    and empty_heap :: 'h
    and push :: "bool \<Rightarrow> bool \<Rightarrow> 'h \<Rightarrow> queued_request \<Rightarrow> 'h \<times> (unit, queued_request) result"
    and remove :: "'h \<Rightarrow> token \<Rightarrow> 'h \<times> queued_request option"
    and pop :: "'h \<Rightarrow> 'h \<times> queued_request option"
    and drain :: "'h \<Rightarrow> 'h \<times> queued_request list"
  assumes empty_ok: "inv empty_heap" "cont empty_heap = Map.empty"
    and finite_cont: "inv h \<Longrightarrow> finite (dom (cont h))"
    and cont_key: "inv h \<Longrightarrow> cont h t = Some r \<Longrightarrow> dispatch_cancel r = t"
    and push_refused: "push a b h r = (h', Inl r') \<Longrightarrow> h' = h \<and> r' = r"
    and push_done: "inv h \<Longrightarrow> push a b h r = (h', Inr ()) \<Longrightarrow>
      inv h' \<and> cont h (dispatch_cancel r) = None \<and> cont h' = (cont h)(dispatch_cancel r \<mapsto> r)"
    and remove_ok: "inv h \<Longrightarrow> inv (fst (remove h t)) \<and> snd (remove h t) = cont h t
      \<and> cont (fst (remove h t)) = (cont h)(t := None)"
    and pop_none: "inv h \<Longrightarrow> pop h = (h', None) \<longleftrightarrow> cont h = Map.empty \<and> h' = h"
    and pop_some: "inv h \<Longrightarrow> pop h = (h', Some r) \<Longrightarrow>
      inv h' \<and> cont h (dispatch_cancel r) = Some r \<and> cont h' = (cont h)(dispatch_cancel r := None)
      \<and> (\<forall>t r'. cont h t = Some r' \<longrightarrow> sched_key r' \<le> sched_key r)"
    and drain_ok: "inv h \<Longrightarrow> inv (fst (drain h)) \<and> cont (fst (drain h)) = Map.empty
      \<and> distinct (map dispatch_cancel (snd (drain h))) \<and> set (snd (drain h)) = ran (cont h)"
begin

lemma pops_all:
  assumes "inv h" and "card (dom (cont h)) = n" and "pops pop n h = (rs, h')"
  shows "inv h' \<and> cont h' = Map.empty \<and> set rs = ran (cont h) \<and> distinct (map dispatch_cancel rs)
    \<and> sorted_wrt (\<lambda>a b. sched_key b \<le> sched_key a) rs"
  using assms
proof (induction n arbitrary: h rs)
  case 0
  then have "cont h = Map.empty" using finite_cont [of h] by simp
  with 0 show ?case by simp
next
  case (Suc n)
  obtain h1 x where p: "pop h = (h1, x)" by fastforce
  have "cont h \<noteq> Map.empty" using Suc.prems(2) by (metis card.empty dom_empty nat.distinct(1))
  then have "x \<noteq> None" using p pop_none [OF Suc.prems(1), of h1] by auto
  then obtain r where r: "pop h = (h1, Some r)" using p by blast
  note s = pop_some [OF Suc.prems(1) r]
  obtain rs1 where q: "pops pop n h1 = (rs1, h')" and rs: "rs = r # rs1"
    using Suc.prems(3) r by (auto split: prod.splits)
  have card1: "card (dom (cont h1)) = n"
    using s Suc.prems(2) finite_cont [OF Suc.prems(1)] by (auto simp: card_Diff_singleton domI)
  have inv1: "inv h1" using s by blast
  have ih: "inv h'" "cont h' = Map.empty" "set rs1 = ran (cont h1)"
      "distinct (map dispatch_cancel rs1)" "sorted_wrt (\<lambda>a b. sched_key b \<le> sched_key a) rs1"
    using Suc.IH [OF inv1 card1 q] by blast+
  have sub: "\<exists>t. cont h1 t = Some x" if "x \<in> set rs1" for x
    using that ih(3) by (auto simp: ran_def)
  have below: "dispatch_cancel x \<noteq> dispatch_cancel r \<and> sched_key x \<le> sched_key r" if x: "x \<in> set rs1" for x
  proof -
    obtain t where t: "cont h1 t = Some x" using sub [OF x] by blast
    then have "dispatch_cancel x = t" using cont_key [of h1 t x] s by blast
    moreover from t s have "t \<noteq> dispatch_cancel r" "cont h t = Some x" by (auto split: if_splits)
    ultimately show ?thesis using s by blast
  qed
  moreover have "ran (cont h) = insert r (ran (cont h1))"
  proof -
    have "cont h = (cont h1)(dispatch_cancel r \<mapsto> r)" using s by (auto simp: fun_eq_iff)
    moreover have "cont h1 (dispatch_cancel r) = None" using s by simp
    ultimately show ?thesis by simp
  qed
  moreover have "dispatch_cancel r \<notin> dispatch_cancel ` set rs1"
    using below by (metis imageE)
  ultimately show ?case using ih unfolding rs by simp
qed

end

lemma contents_iff:
  assumes "index_ok h"
  shows "contents h t = Some r \<longleftrightarrow> r \<in> set (items h) \<and> dispatch_cancel r = t"
proof
  assume "contents h t = Some r"
  then obtain i where "positions h t = Some i" "r = items h ! i" by (auto simp: contents_def)
  then show "r \<in> set (items h) \<and> dispatch_cancel r = t"
    using index_okD(2,3) [OF assms] by auto
next
  assume "r \<in> set (items h) \<and> dispatch_cancel r = t"
  then obtain i where i: "i < length (items h)" "items h ! i = r" and t: "dispatch_cancel r = t"
    by (auto simp: in_set_conv_nth)
  then have "positions h t = Some i" using index_okD(1) [OF assms i(1)] by simp
  with i show "contents h t = Some r" by (simp add: contents_def)
qed

lemma contents_None:
  assumes "index_ok h"
  shows "contents h t = None \<longleftrightarrow> t \<notin> dispatch_cancel ` set (items h)"
proof -
  have "contents h t = None \<longleftrightarrow> (\<forall>r. contents h t \<noteq> Some r)" by auto
  then show ?thesis using contents_iff [OF assms, of t] by auto
qed

lemma mset_remove_tokens:
  assumes "distinct (map dispatch_cancel xs)" and "x \<in> set xs" and "mset ys = mset xs - {#x#}"
  shows "r \<in> set ys \<longleftrightarrow> r \<in> set xs \<and> dispatch_cancel r \<noteq> dispatch_cancel x"
proof -
  have d: "distinct xs" using assms(1) by (simp add: distinct_map)
  then have "mset ys = mset_set (set xs - {x})"
    using assms(2,3) by (simp add: mset_set_set mset_set_Diff)
  then have "set ys = set xs - {x}" by (metis finite_Diff finite_set finite_set_mset_mset_set set_mset_mset)
  moreover have "dispatch_cancel r \<noteq> dispatch_cancel x" if "r \<in> set xs" "r \<noteq> x"
    using assms(1,2) that by (auto simp: distinct_map inj_on_def)
  ultimately show ?thesis by auto
qed

lemma heap_remove_contents:
  assumes inv: "heap_inv h"
  shows "heap_inv (fst (heap_remove h t)) \<and> snd (heap_remove h t) = contents h t
    \<and> contents (fst (heap_remove h t)) = (contents h)(t := None)"
proof (cases "positions h t")
  case None
  then show ?thesis using inv by (auto simp: heap_remove_def contents_def fun_eq_iff)
next
  case (Some i)
  have ix: "index_ok h" using inv by (simp add: heap_inv_def)
  have i: "i < length (items h)" "dispatch_cancel (items h ! i) = t"
    using index_okD(2,3) [OF ix Some] by auto
  note ok = heap_remove_ok [OF inv Some]
  have ix': "index_ok (fst (heap_remove h t))" using ok(2) by (simp add: heap_inv_def)
  note m = mset_remove_tokens [OF index_ok_distinct [OF ix] nth_mem [OF i(1)] ok(3), unfolded i(2)]
  have "contents (fst (heap_remove h t)) u = ((contents h)(t := None)) u" for u
  proof (rule option.expand)
    show "(contents (fst (heap_remove h t)) u = None) = (((contents h)(t := None)) u = None)"
      using m by (auto simp: contents_None [OF ix'] contents_None [OF ix] image_iff)
    assume "contents (fst (heap_remove h t)) u \<noteq> None" and "((contents h)(t := None)) u \<noteq> None"
    then obtain r where "contents (fst (heap_remove h t)) u = Some r" by blast
    moreover from this have "contents h u = Some r" "u \<noteq> t"
      using m by (auto simp: contents_iff [OF ix'] contents_iff [OF ix])
    ultimately show "the (contents (fst (heap_remove h t)) u) = the (((contents h)(t := None)) u)"
      by simp
  qed
  then show ?thesis using ok Some by (auto simp: contents_def fun_eq_iff)
qed

lemma heap_push_contents:
  assumes "heap_inv h" and "heap_push a b h r = (h', Inr ())"
  shows "heap_inv h' \<and> contents h (dispatch_cancel r) = None
    \<and> contents h' = (contents h)(dispatch_cancel r \<mapsto> r)"
proof -
  note ok = heap_push_ok [OF assms]
  have ix: "index_ok h" "index_ok h'" using assms(1) ok(1) by (auto simp: heap_inv_def)
  have none: "contents h (dispatch_cancel r) = None"
    using assms(2) by (auto simp: heap_push_def heap_contains_def contents_def is_some_def
        split: if_splits option.splits)
  have s: "set (items h') = insert r (set (items h))"
    by (metis ok(2) set_mset_add_mset_insert set_mset_mset)
  have "contents h' u = ((contents h)(dispatch_cancel r \<mapsto> r)) u" for u
  proof (cases "contents h' u")
    case None
    then have "contents h u = None \<and> u \<noteq> dispatch_cancel r"
      using s by (auto simp: contents_None [OF ix(2)] contents_None [OF ix(1)])
    with None show ?thesis by simp
  next
    case (Some x)
    then have x: "x = r \<or> x \<in> set (items h)" "dispatch_cancel x = u"
      using s by (auto simp: contents_iff [OF ix(2)])
    show ?thesis
    proof (cases "u = dispatch_cancel r")
      case True
      then have "x \<notin> set (items h)" using x(2) none contents_None [OF ix(1)] by (metis imageI)
      then have "x = r" using x(1) by blast
      with Some True show ?thesis by simp
    next
      case False
      then have "contents h u = Some x" using x by (auto simp: contents_iff [OF ix(1)])
      with Some False show ?thesis by simp
    qed
  qed
  then show ?thesis using ok(1) none by auto
qed

lemma heap_pop_some:
  assumes inv: "heap_inv h" and p: "heap_pop h = (h', Some r)"
  shows "heap_inv h' \<and> contents h (dispatch_cancel r) = Some r
    \<and> contents h' = (contents h)(dispatch_cancel r := None)
    \<and> (\<forall>t r'. contents h t = Some r' \<longrightarrow> sched_key r' \<le> sched_key r)"
proof -
  have ix: "index_ok h" and ord: "heap_order (items h)" using inv by (auto simp: heap_inv_def)
  define x where "x = items h ! 0"
  have ne: "0 < length (items h)" and rm: "heap_remove h (dispatch_cancel x) = (h', Some r)"
    using p by (auto simp: heap_pop_def x_def split: option.splits)
  have "contents h (dispatch_cancel x) = Some x"
    using contents_iff [OF ix, of "dispatch_cancel x" x] ne by (simp add: x_def)
  with heap_remove_contents [OF inv, of "dispatch_cancel x"] rm have "r = x" by simp
  moreover have "sched_key r' \<le> sched_key x" if "contents h t = Some r'" for t r'
  proof -
    have "r' \<in> set (items h)" using that by (simp add: contents_iff [OF ix])
    then obtain i where "i < length (items h)" "items h ! i = r'" by (auto simp: in_set_conv_nth)
    then show ?thesis using heap_root_max [OF ord] by (auto simp: x_def)
  qed
  ultimately show ?thesis using heap_remove_contents [OF inv, of "dispatch_cancel x"] rm by simp
qed

lemma heap_pop_none:
  assumes "heap_inv h"
  shows "heap_pop h = (h', None) \<longleftrightarrow> contents h = Map.empty \<and> h' = h"
proof (cases "items h")
  case Nil
  then have "contents h u = None" for u
    using contents_None [of h u] assms by (simp add: heap_inv_def)
  then have "contents h = Map.empty" by blast
  with Nil show ?thesis by (auto simp: heap_pop_def get_def)
next
  case (Cons x xs)
  have ix: "index_ok h" using assms by (simp add: heap_inv_def)
  have c: "contents h (dispatch_cancel x) = Some x" using Cons by (simp add: contents_iff [OF ix])
  then have "snd (heap_pop h) = Some x"
    using heap_remove_contents [OF assms, of "dispatch_cancel x"] Cons by (simp add: heap_pop_def get_def)
  with c show ?thesis by (cases "heap_pop h") auto
qed

lemma heap_drain_contents:
  assumes "heap_inv h"
  shows "heap_inv (fst (heap_drain h)) \<and> contents (fst (heap_drain h)) = Map.empty
    \<and> distinct (map dispatch_cancel (snd (heap_drain h))) \<and> set (snd (heap_drain h)) = ran (contents h)"
proof -
  have ix: "index_ok h" using assms by (simp add: heap_inv_def)
  have "set (items h) = ran (contents h)" by (auto simp: ran_def contents_iff [OF ix])
  moreover have "contents (fst (heap_drain h)) = Map.empty" by (auto simp: heap_drain_def contents_def)
  moreover have "heap_inv (fst (heap_drain h))"
    by (simp add: heap_drain_def heap_inv_def index_ok_def heap_order_def)
  ultimately show ?thesis using index_ok_distinct [OF ix] by (simp add: heap_drain_def)
qed

lemma contents_finite:
  assumes "heap_inv h"
  shows "finite (dom (contents h))"
proof -
  have ix: "index_ok h" using assms by (simp add: heap_inv_def)
  have "dom (contents h) \<subseteq> dispatch_cancel ` set (items h)"
    using contents_iff [OF ix] by (auto simp: dom_def)
  then show ?thesis by (rule finite_subset) simp
qed

interpretation ih: request_heap heap_inv contents heap_new heap_push heap_remove heap_pop heap_drain
proof (unfold_locales, goal_cases)
  case 1 show ?case by (rule heap_inv_new)
next
  case 2 show ?case by (auto simp: heap_new_def contents_def)
next
  case (3 h) then show ?case by (rule contents_finite)
next
  case (4 h t r) then show ?case using contents_iff [of h t r] by (simp add: heap_inv_def)
next
  case (5 a b h r h' r') then show ?case by (auto simp: heap_push_def Let_def split: if_splits)
next
  case (6 h a b r h') then show ?case by (rule heap_push_contents)
next
  case (7 h t) then show ?case by (rule heap_remove_contents)
next
  case (8 h h') then show ?case by (rule heap_pop_none)
next
  case (9 h h' r) then show ?case by (rule heap_pop_some)
next
  case (10 h) then show ?case by (rule heap_drain_contents)
qed

section \<open>Sequences of operations\<close>

text \<open>The consistency check \<open>valid\<close> that the source runs in its tests.\<close>

definition heap_valid :: "indexed_heap \<Rightarrow> bool" where
  "heap_valid self \<longleftrightarrow> length (items self) = card (dom (positions self))
     \<and> list_all (\<lambda>(index, item).
          positions self (dispatch_cancel item) = Some index
          \<and> (case Option.bind (usize_checked_sub index 1) (\<lambda>value. get (items self) (value div 2)) of
                Some parent \<Rightarrow> request_cmp parent item \<noteq> Less
              | None \<Rightarrow> index = 0))
        (enumerate 0 (items self))"

datatype heap_op =
    Heap_Push bool bool queued_request
  | Heap_Remove token
  | Heap_Pop
  | Heap_Drain

fun heap_step :: "heap_op \<Rightarrow> indexed_heap \<Rightarrow> indexed_heap" where
  "heap_step (Heap_Push a b r) h = fst (heap_push a b h r)"
| "heap_step (Heap_Remove t) h = fst (heap_remove h t)"
| "heap_step Heap_Pop h = fst (heap_pop h)"
| "heap_step Heap_Drain h = fst (heap_drain h)"

definition heap_run :: "heap_op list \<Rightarrow> indexed_heap" where
  "heap_run ops = fold heap_step ops heap_new"

lemma heap_push_inv: "heap_inv h \<Longrightarrow> heap_inv (fst (heap_push a b h r))"
  using ih.push_refused [of a b h r] ih.push_done [of h a b r]
  by (cases "heap_push a b h r"; cases "snd (heap_push a b h r)") auto

lemma heap_pop_inv:
  assumes "heap_inv h"
  shows "heap_inv (fst (heap_pop h))"
proof -
  obtain h' x where p: "heap_pop h = (h', x)" by fastforce
  show ?thesis
    using p assms ih.pop_none [OF assms, of h'] ih.pop_some [OF assms, of h'] by (cases x) auto
qed

lemma heap_step_inv: "heap_inv h \<Longrightarrow> heap_inv (heap_step op h)"
  by (cases op) (simp_all add: heap_push_inv heap_pop_inv ih.remove_ok ih.drain_ok)

lemma heap_run_inv: "heap_inv (heap_run ops)"
proof -
  have "heap_inv h \<Longrightarrow> heap_inv (fold heap_step ops h)" for h
    by (induction ops arbitrary: h) (simp_all add: heap_step_inv)
  then show ?thesis by (simp add: heap_run_def heap_inv_new)
qed

lemma dom_positions:
  assumes "index_ok h"
  shows "dom (positions h) = dispatch_cancel ` set (items h)" and "card (dom (positions h)) = length (items h)"
proof -
  have "t \<in> dom (positions h) \<longleftrightarrow> t \<in> dispatch_cancel ` set (items h)" for t
    using contents_None [OF assms, of t] by (auto simp: contents_def domIff)
  then show d: "dom (positions h) = dispatch_cancel ` set (items h)" by blast
  show "card (dom (positions h)) = length (items h)"
    unfolding d using index_ok_distinct [OF assms] by (simp add: distinct_map card_image distinct_card)
qed

lemma heap_valid_inv:
  assumes "heap_inv h"
  shows "heap_valid h"
proof -
  have ix: "index_ok h" and ord: "heap_order (items h)" using assms by (auto simp: heap_inv_def)
  have "case Option.bind (usize_checked_sub i 1) (\<lambda>v. get (items h) (v div 2)) of
          Some p \<Rightarrow> request_cmp p (items h ! i) \<noteq> Less | None \<Rightarrow> i = 0"
    if i: "i < length (items h)" for i
  proof (cases "i = 0")
    case False
    then have "par i < length (items h)" using par_less [of i] i by simp
    moreover have "sched_key (items h ! i) \<le> sched_key (items h ! par i)"
      using ord False i by (simp add: heap_order_def)
    ultimately show ?thesis using False unfolding par_def
      by (simp add: usize_checked_sub_def get_lt request_cmp_not_Less)
  qed (simp add: usize_checked_sub_def)
  then show ?thesis
    by (simp add: heap_valid_def dom_positions(2) [OF ix] list_all_length nth_enumerate_eq
        index_okD(1) [OF ix])
qed

section \<open>Properties\<close>

text \<open>C29. The index and the vector stay consistent: after any sequence of pushes (refused or not), removals,
  pops and drains, the source's own consistency check \<open>valid\<close> holds.\<close>

theorem heap_always_valid: "heap_valid (heap_run ops)"
  by (rule heap_valid_inv [OF heap_run_inv])

text \<open>C27. The heap refines a map from dispatch tokens to requests: a push that the allocator grants
  succeeds exactly for a new token and adds the request, a refused push returns the request and changes
  nothing, \<open>remove\<close> returns and deletes the token's own request and no other, and \<open>drain\<close> empties
  the map.\<close>

theorem heap_refines_map:
  "(snd (heap_push True True (heap_run ops) r) = Inr ()
      \<longleftrightarrow> contents (heap_run ops) (dispatch_cancel r) = None \<and> heap_len (heap_run ops) < ISIZE_MAX)
   \<and> contents (fst (heap_push a b (heap_run ops) r))
      = (if is_err (snd (heap_push a b (heap_run ops) r)) then contents (heap_run ops)
         else (contents (heap_run ops))(dispatch_cancel r \<mapsto> r))
   \<and> snd (heap_remove (heap_run ops) t) = contents (heap_run ops) t
   \<and> contents (fst (heap_remove (heap_run ops) t)) = (contents (heap_run ops))(t := None)
   \<and> contents (fst (heap_drain (heap_run ops))) = Map.empty
   \<and> set (snd (heap_drain (heap_run ops))) = ran (contents (heap_run ops))"
proof -
  let ?h = "heap_run ops"
  have inv: "heap_inv ?h" by (rule heap_run_inv)
  have "snd (heap_push True True ?h r) = Inr ()
      \<longleftrightarrow> contents ?h (dispatch_cancel r) = None \<and> heap_len ?h < ISIZE_MAX"
    by (auto simp: heap_push_def heap_contains_def contents_def is_some_def try_reserve_one_def heap_len_def
        Let_def split: option.splits)
  moreover have "contents (fst (heap_push a b ?h r))
      = (if is_err (snd (heap_push a b ?h r)) then contents ?h else (contents ?h)(dispatch_cancel r \<mapsto> r))"
    using ih.push_refused [of a b ?h r] ih.push_done [OF inv, of a b r]
    by (cases "heap_push a b ?h r"; cases "snd (heap_push a b ?h r)") (auto simp: is_err_def)
  ultimately show ?thesis using ih.remove_ok [OF inv, of t] ih.drain_ok [OF inv] by blast
qed

lemma sched_key_le:
  "sched_key b \<le> sched_key a \<longleftrightarrow>
     so_priority (qr_config a) = so_priority (qr_config b) \<and> sequence a \<le> sequence b
     \<or> so_priority (qr_config a) = High \<and> so_priority (qr_config b) \<noteq> High
     \<or> so_priority (qr_config a) \<noteq> Low \<and> so_priority (qr_config b) = Low"
  by (cases "so_priority (qr_config a)"; cases "so_priority (qr_config b)")
    (auto simp: sched_key_def rank_def less_eq_prod_def word_le_def)

text \<open>C28. Scheduling order: popping until the heap is empty yields every queued request exactly once,
  by descending priority (high before normal before low) and, within one priority, in ascending order of the sequence
  numbers, so first come, first served.\<close>

theorem heap_pops_in_order:
  "\<exists>rs h'. pops heap_pop (heap_len (heap_run ops)) (heap_run ops) = (rs, h')
     \<and> mset rs = mset (items (heap_run ops)) \<and> items h' = []
     \<and> sorted_wrt (\<lambda>a b. so_priority (qr_config a) = so_priority (qr_config b) \<and> sequence a \<le> sequence b
         \<or> so_priority (qr_config a) = High \<and> so_priority (qr_config b) \<noteq> High
         \<or> so_priority (qr_config a) \<noteq> Low \<and> so_priority (qr_config b) = Low) rs"
proof -
  define h where "h = heap_run ops"
  have inv: "heap_inv h" unfolding h_def by (rule heap_run_inv)
  have ix: "index_ok h" using inv by (simp add: heap_inv_def)
  have "dom (contents h) = dom (positions h)" by (auto simp: contents_def domIff)
  then have n: "card (dom (contents h)) = heap_len h" using dom_positions(2) [OF ix] by (simp add: heap_len_def)
  obtain rs h' where p: "pops heap_pop (heap_len h) h = (rs, h')" by fastforce
  note all = ih.pops_all [OF inv n p]
  have "set rs = set (items h)" using all ih.drain_ok [OF inv] by (simp add: heap_drain_def)
  moreover have "distinct rs" "distinct (items h)"
    using all index_ok_distinct [OF ix] by (auto simp: distinct_map)
  ultimately have "mset rs = mset (items h)" by (simp add: set_eq_iff_mset_eq_distinct)
  moreover have "items h' = []"
    using all ih.drain_ok [of h'] by (simp add: heap_drain_def)
  moreover have "sorted_wrt (\<lambda>a b. sched_key b \<le> sched_key a) rs" using all by simp
  then have "sorted_wrt (\<lambda>a b. so_priority (qr_config a) = so_priority (qr_config b) \<and> sequence a \<le> sequence b
         \<or> so_priority (qr_config a) = High \<and> so_priority (qr_config b) \<noteq> High
         \<or> so_priority (qr_config a) \<noteq> Low \<and> so_priority (qr_config b) = Low) rs"
    by (rule sorted_wrt_mono_rel [rotated]) (use sched_key_le in blast)
  ultimately show ?thesis using p unfolding h_def by blast
qed

end
