(* ===== verification/Write_Queue.thy ===== *)
theory Write_Queue
  imports Indexed_Heap Machine Pending_Laws
begin

text \<open>
  The priority write queue: \<open>src/module/ws_client/write/priority_write_queue.rs\<close>. The two hash maps
  are association lists by dispatch token; the semaphores of the asynchronous runtime are outside the
  model, so the result of an acquisition is an argument and closing them is an effect. \<open>next\<close> is one
  round of its loop: it returns a request, ends, or waits.
\<close>

section \<open>The queue\<close>

record queue_state =
  heap :: indexed_heap
  prepared :: "(token \<times> queued_request) list"
  delayed :: "(token \<times> queued_request) list"
  q_closed :: bool

record queue_permits =
  qp_item :: permit
  qp_bytes :: permit

record priority_write_queue =
  q_state :: queue_state
  q_poisoned :: bool
  q_max_bytes :: u32

definition upd_queue :: "(queue_state \<Rightarrow> queue_state) \<Rightarrow> priority_write_queue \<Rightarrow> priority_write_queue" where
  "upd_queue f self = self\<lparr>q_state := f (q_state self)\<rparr>"

definition queue_new :: "usize \<Rightarrow> usize \<Rightarrow> usize \<Rightarrow> (priority_write_queue, net_error) result" where
  "queue_new max_permits max_tasks max_bytes1 =
     try_bind (queue_limit_validate max_permits \<lparr>max_items = max_tasks, max_bytes = max_bytes1\<rparr>) (\<lambda>_.
       Inr \<lparr>q_state = \<lparr>heap = heap_new, prepared = [], delayed = [], q_closed = False\<rparr>,
            q_poisoned = False, q_max_bytes = of_nat max_bytes1\<rparr>)"

text \<open>The process-wide counter of sequence numbers: \<open>fetch_update\<close> yields the previous value.\<close>

definition queue_sequence :: "u64 \<Rightarrow> u64 \<times> (u64, net_error) result" where
  "queue_sequence counter =
     (case checked_add counter 1 of
        Some n \<Rightarrow> (n, Inr counter)
      | None \<Rightarrow> (counter, Inl (from_kind K_ResourceExhausted)))"

definition byte_count :: "usize \<Rightarrow> priority_write_queue \<Rightarrow> (u32, net_error) result" where
  "byte_count bytes self =
     (let bytes = max bytes 1
      in if unat (q_max_bytes self) < bytes then Inl (from_kind K_ItemTooLarge) else Inr (of_nat bytes))"

definition capacity_error :: "try_acquire_error \<Rightarrow> net_error" where
  "capacity_error e = from_kind (case e of Acquire_Closed \<Rightarrow> K_QueueClosed | NoPermits \<Rightarrow> K_QueueFull)"

text \<open>\<open>reserve\<close> and \<open>try_reserve\<close>: an item permit that was granted is returned when the bytes are refused.\<close>

definition reserve_with ::
  "('e \<Rightarrow> net_error) \<Rightarrow> usize \<Rightarrow> (permit, 'e) result \<Rightarrow> (u32 \<Rightarrow> (permit, 'e) result) \<Rightarrow> priority_write_queue
     \<Rightarrow> queue_effect list \<times> (queue_permits, net_error) result" where
  "reserve_with err bytes item byte_slots self =
     (case byte_count bytes self of
        Inl e \<Rightarrow> ([], Inl e)
      | Inr n \<Rightarrow>
          (case item of
             Inl e \<Rightarrow> ([], Inl (err e))
           | Inr p \<Rightarrow>
               (case byte_slots n of
                  Inl e \<Rightarrow> ([Q_Release p], Inl (err e))
                | Inr b \<Rightarrow> ([], Inr \<lparr>qp_item = p, qp_bytes = b\<rparr>))))"

definition queue_reserve ::
  "usize \<Rightarrow> (permit, unit) result \<Rightarrow> (u32 \<Rightarrow> (permit, unit) result) \<Rightarrow> priority_write_queue
     \<Rightarrow> queue_effect list \<times> (queue_permits, net_error) result" where
  "queue_reserve = reserve_with (\<lambda>_. from_kind K_QueueClosed)"

definition queue_try_reserve ::
  "usize \<Rightarrow> (permit, try_acquire_error) result \<Rightarrow> (u32 \<Rightarrow> (permit, try_acquire_error) result) \<Rightarrow> priority_write_queue
     \<Rightarrow> queue_effect list \<times> (queue_permits, net_error) result" where
  "queue_try_reserve = reserve_with capacity_error"

section \<open>Admission\<close>

definition can_admit :: "instant \<Rightarrow> op_env \<Rightarrow> op_store \<Rightarrow> queue_state \<Rightarrow> queued_request \<Rightarrow> (unit, net_error) result" where
  "can_admit now env ops st r =
     (if q_closed st then Inl (from_kind K_QueueClosed)
      else if is_finished (ops (dispatch_phase r)) \<or> token_cancelled env (dispatch_cancel r)
      then Inl (request_terminal_error ops (from_kind K_Cancelled) r)
      else if is_some_and (admission_cancel r) (token_cancelled env) then Inl (from_kind K_Closed)
      else if is_some_and (op_deadline (ops (dispatch_phase r))) (\<lambda>d. d \<le> now) then Inl (from_kind K_TimedOut)
      else Inr ())"

definition queued :: "token \<Rightarrow> queue_state \<Rightarrow> bool" where
  "queued t st \<longleftrightarrow> heap_contains (heap st) t \<or> map_of (prepared st) t \<noteq> None \<or> map_of (delayed st) t \<noteq> None"

text \<open>The allocations a call may need: the vector and the index of the heap, and the hash map.\<close>

record queue_alloc =
  items_ok :: bool
  positions_ok :: bool
  map_ok :: bool

definition push ::
  "clock \<Rightarrow> op_env \<Rightarrow> queue_alloc \<Rightarrow> queued_request \<Rightarrow> bool \<Rightarrow> op_store \<Rightarrow> priority_write_queue
     \<Rightarrow> op_store \<times> priority_write_queue \<times> queue_effect list \<times> (unit, queued_request \<times> net_error) result" where
  "push now env alloc r is_prepared ops self =
     (if q_poisoned self then (ops, self, [], Inl (r, from_kind K_Internal))
      else case lock_domain env (ops (dispatch_phase r)) of
        Inl e \<Rightarrow> (ops, self, [], Inl (r, e))
      | Inr _ \<Rightarrow>
          let st = q_state self; t = dispatch_cancel r
          in (case can_admit (now 0) env ops st r of
                Inl e \<Rightarrow> (ops, self, [], Inl (r, e))
              | Inr _ \<Rightarrow>
                  if queued t st then (ops, self, [], Inl (r, from_kind K_Internal))
                  else if is_prepared then
                    (if \<not> map_ok alloc then (ops, self, [], Inl (r, from_kind K_ResourceExhausted))
                     else case prepare env (ops (dispatch_phase r)) of
                       (core, Inl e) \<Rightarrow> (ops(dispatch_phase r := core), self, [], Inl (r, e))
                     | (core, Inr _) \<Rightarrow>
                         (ops(dispatch_phase r := core), upd_queue (\<lambda>s. s\<lparr>prepared := (t, r) # prepared s\<rparr>) self,
                          [Q_NotifyOne], Inr ()))
                  else if is_some_and (ready_at r) (\<lambda>d. now 1 < d) then
                    (if \<not> map_ok alloc then (ops, self, [], Inl (r, from_kind K_ResourceExhausted))
                     else (ops, upd_queue (\<lambda>s. s\<lparr>delayed := (t, r) # delayed s\<rparr>) self, [Q_NotifyOne], Inr ()))
                  else (case heap_push (items_ok alloc) (positions_ok alloc) (heap st) r of
                          (_, Inl r) \<Rightarrow> (ops, self, [], Inl (r, from_kind K_ResourceExhausted))
                        | (h, Inr _) \<Rightarrow> (ops, upd_queue (\<lambda>s. s\<lparr>heap := h\<rparr>) self, [Q_NotifyOne], Inr ()))))"

definition queue_prepare ::
  "clock \<Rightarrow> op_env \<Rightarrow> queue_alloc \<Rightarrow> queued_request \<Rightarrow> op_store \<Rightarrow> priority_write_queue
     \<Rightarrow> op_store \<times> priority_write_queue \<times> queue_effect list \<times> (unit, queued_request \<times> net_error) result" where
  "queue_prepare now env alloc r = push now env alloc r True"

definition push_existing ::
  "clock \<Rightarrow> op_env \<Rightarrow> queue_alloc \<Rightarrow> queued_request \<Rightarrow> op_store \<Rightarrow> priority_write_queue
     \<Rightarrow> op_store \<times> priority_write_queue \<times> queue_effect list \<times> (unit, queued_request \<times> net_error) result" where
  "push_existing now env alloc r = push now env alloc r False"

text \<open>A request that \<open>commit_prepared\<close> cannot admit is retired under the lock and completed after it. The
  environment of the retirement is read after the admission.\<close>

definition reject_prepared ::
  "op_env \<Rightarrow> net_error \<Rightarrow> queued_request \<Rightarrow> op_store \<Rightarrow> tables \<Rightarrow> op_store \<times> tables \<times> queue_effect list" where
  "reject_prepared env e r ops tabs =
     (let (r, ops, tabs) = prepare_retirement env e r ops tabs
      in complete (clk env) env env (clk env 0) r (Inl e) ops tabs)"

definition commit_prepared ::
  "instant \<Rightarrow> op_env \<Rightarrow> op_env \<Rightarrow> queue_alloc \<Rightarrow> token \<Rightarrow> op_store \<Rightarrow> tables \<Rightarrow> priority_write_queue
     \<Rightarrow> op_store \<times> tables \<times> priority_write_queue \<times> queue_effect list \<times> (unit, net_error) result" where
  "commit_prepared now env env2 alloc t ops tabs self =
     (if q_poisoned self then (ops, tabs, self, [], Inl from_poison)
      else case map_of (prepared (q_state self)) t of
        None \<Rightarrow> (ops, tabs, self, [], Inl (from_kind K_Cancelled))
      | Some r \<Rightarrow>
          let self = upd_queue (\<lambda>s. s\<lparr>prepared := AList.delete t (prepared s)\<rparr>) self;
              o1 = dispatch_phase r
          in (case lock_domain env (ops o1) of
                Inl e \<Rightarrow>
                  (let (ops, tabs, effects) = reject_prepared env2 e r ops tabs in (ops, tabs, self, effects, Inl e))
              | Inr _ \<Rightarrow>
                  (case (case can_admit now env ops (q_state self) r of
                           Inl e \<Rightarrow> (ops o1, Inl e)
                         | Inr _ \<Rightarrow> enqueue env (ops o1)) of
                     (core, Inl e) \<Rightarrow>
                       (let (ops, tabs, effects) = reject_prepared env2 e r (ops(o1 := core)) tabs
                        in (ops, tabs, self, effects, Inl e))
                   | (core, Inr _) \<Rightarrow>
                       let ops = ops(o1 := core)
                       in (case heap_push (items_ok alloc) (positions_ok alloc) (heap (q_state self)) r of
                             (_, Inl r) \<Rightarrow>
                               (let e = from_kind K_ResourceExhausted;
                                    (ops, tabs, effects) = reject_prepared env2 e r ops tabs
                                in (ops, tabs, self, effects, Inl e))
                           | (h, Inr _) \<Rightarrow>
                               (ops, tabs, upd_queue (\<lambda>s. s\<lparr>heap := h\<rparr>) self, [Q_NotifyOne], Inr ())))))"

section \<open>Taking requests\<close>

definition take_queued :: "token \<Rightarrow> queue_state \<Rightarrow> queue_state \<times> queued_request option" where
  "take_queued t st =
     (case map_of (prepared st) t of
        Some r \<Rightarrow> (st\<lparr>prepared := AList.delete t (prepared st)\<rparr>, Some r)
      | None \<Rightarrow>
          (case heap_remove (heap st) t of
             (h, Some r) \<Rightarrow> (st\<lparr>heap := h\<rparr>, Some r)
           | (h, None) \<Rightarrow>
               (case map_of (delayed st) t of
                  Some r \<Rightarrow> (st\<lparr>heap := h, delayed := AList.delete t (delayed st)\<rparr>, Some r)
                | None \<Rightarrow> (st\<lparr>heap := h\<rparr>, None))))"

definition cancel_queued_with_error ::
  "op_env \<Rightarrow> token \<Rightarrow> net_error \<Rightarrow> op_store \<Rightarrow> tables \<Rightarrow> priority_write_queue
     \<Rightarrow> op_store \<times> tables \<times> priority_write_queue \<times> queue_effect list \<times> bool" where
  "cancel_queued_with_error env t e ops tabs self =
     (case take_queued t (q_state self) of
        (st, None) \<Rightarrow> (ops, tabs, self\<lparr>q_state := st\<rparr>, [], False)
      | (st, Some r) \<Rightarrow>
          (let (r, ops, tabs) = prepare_retirement env e r ops tabs;
               (r, effects) = dispatch_retirement r
           in (ops, tabs, self\<lparr>q_state := st\<rparr>, effects, True)))"

definition wake_at :: "op_store \<Rightarrow> queued_request \<Rightarrow> instant option" where
  "wake_at ops r = earliest (ready_at r) (op_deadline (ops (dispatch_phase r)))"

text \<open>\<open>Iterator::max_by\<close> returns the last of the maximal elements.\<close>

fun max_by :: "(token \<times> queued_request) list \<Rightarrow> (token \<times> queued_request) option" where
  "max_by [] = None"
| "max_by (x # xs) = Some (fold (\<lambda>y best. if request_cmp (snd best) (snd y) = Greater then best else y) xs x)"

definition pop_ready :: "instant \<Rightarrow> op_store \<Rightarrow> queue_state \<Rightarrow> queue_state \<times> queued_request option" where
  "pop_ready now ops st =
     (let ready = max_by (filter (\<lambda>(_, r). is_none_or (wake_at ops r) (\<lambda>d. d \<le> now)) (delayed st));
          chosen = Option.bind ready (\<lambda>(t, r).
                     if is_none_or (heap_peek (heap st)) (\<lambda>top. request_cmp r top = Greater)
                     then Some t else None)
      in case chosen of
           Some t \<Rightarrow> (st\<lparr>delayed := AList.delete t (delayed st)\<rparr>, map_of (delayed st) t)
         | None \<Rightarrow> (let (h, r) = heap_pop (heap st) in (st\<lparr>heap := h\<rparr>, r)))"

definition try_next :: "instant \<Rightarrow> op_store \<Rightarrow> priority_write_queue \<Rightarrow> priority_write_queue \<times> queued_request option" where
  "try_next now ops self = (let (st, r) = pop_ready now ops (q_state self) in (self\<lparr>q_state := st\<rparr>, r))"

datatype next_step = Next_Request queued_request | Next_End | Next_Wait "instant option"

definition queue_next :: "instant \<Rightarrow> op_store \<Rightarrow> priority_write_queue \<Rightarrow> priority_write_queue \<times> next_step" where
  "queue_next now ops self =
     (case pop_ready now ops (q_state self) of
        (st, Some r) \<Rightarrow> (self\<lparr>q_state := st\<rparr>, Next_Request r)
      | (st, None) \<Rightarrow>
          (self\<lparr>q_state := st\<rparr>,
           if q_closed st then Next_End
           else Next_Wait (list_min (List.map_filter (\<lambda>(_, r). wake_at ops r) (delayed st)))))"

section \<open>Draining\<close>

fun retire_all ::
  "(op_id \<Rightarrow> op_env) \<Rightarrow> net_error \<Rightarrow> queued_request list \<Rightarrow> op_store \<Rightarrow> tables
     \<Rightarrow> queued_request list \<times> op_store \<times> tables" where
  "retire_all env e [] ops tabs = ([], ops, tabs)"
| "retire_all env e (r # rs) ops tabs =
     (let (r, ops, tabs) = prepare_retirement (env (dispatch_phase r)) e r ops tabs;
          (rs, ops, tabs) = retire_all env e rs ops tabs
      in (r # rs, ops, tabs))"

definition dispatch_all :: "queued_request list \<Rightarrow> queued_request list \<times> queue_effect list" where
  "dispatch_all rs = (map (\<lambda>r. fst (dispatch_retirement r)) rs, concat (map (\<lambda>r. snd (dispatch_retirement r)) rs))"

definition drain_with_error ::
  "(op_id \<Rightarrow> op_env) \<Rightarrow> net_error \<Rightarrow> op_store \<Rightarrow> tables \<Rightarrow> priority_write_queue
     \<Rightarrow> op_store \<times> tables \<times> priority_write_queue \<times> queue_effect list \<times> queued_request list" where
  "drain_with_error env e ops tabs self =
     (let st = q_state self;
          (h, rs) = heap_drain (heap st);
          rs = rs @ map snd (prepared st) @ map snd (delayed st);
          (rs, ops, tabs) = retire_all env e rs ops tabs;
          (rs, effects) = dispatch_all rs
      in (ops, tabs, self\<lparr>q_state := st\<lparr>heap := h, prepared := [], delayed := []\<rparr>\<rparr>, effects, rs))"

definition waits :: "op_store \<Rightarrow> queued_request \<Rightarrow> bool" where
  "waits ops r \<longleftrightarrow> can_wait_for_reconnect ops r \<and> \<not> is_finished (ops (dispatch_phase r))"

fun requeue_waiting ::
  "(token \<Rightarrow> queue_alloc) \<Rightarrow> op_store \<Rightarrow> queued_request list \<Rightarrow> indexed_heap \<times> queued_request list
     \<Rightarrow> indexed_heap \<times> queued_request list" where
  "requeue_waiting alloc ops [] (h, rejected) = (h, rejected)"
| "requeue_waiting alloc ops (r # rs) (h, rejected) =
     requeue_waiting alloc ops rs
       (if waits ops r
        then (case heap_push (items_ok (alloc (dispatch_cancel r))) (positions_ok (alloc (dispatch_cancel r))) h
                     (r\<lparr>admission_cancel := None\<rparr>) of
                (h, Inl r) \<Rightarrow> (h, rejected @ [r])
              | (h, Inr _) \<Rightarrow> (h, rejected))
        else (h, rejected @ [r]))"

fun retain_waiting ::
  "(token \<Rightarrow> queue_alloc) \<Rightarrow> op_store \<Rightarrow> (token \<times> queued_request) list
     \<Rightarrow> (token \<times> queued_request) list \<times> queued_request list \<Rightarrow> (token \<times> queued_request) list \<times> queued_request list" where
  "retain_waiting alloc ops [] acc = acc"
| "retain_waiting alloc ops ((t, r) # rs) (kept, rejected) =
     retain_waiting alloc ops rs
       (if waits ops r \<and> map_ok (alloc t) then (kept @ [(t, r\<lparr>admission_cancel := None\<rparr>)], rejected)
        else (kept, rejected @ [r]))"

definition drain_rejected_on_disconnect_with_error ::
  "(token \<Rightarrow> queue_alloc) \<Rightarrow> (op_id \<Rightarrow> op_env) \<Rightarrow> net_error \<Rightarrow> op_store \<Rightarrow> tables \<Rightarrow> priority_write_queue
     \<Rightarrow> op_store \<times> tables \<times> priority_write_queue \<times> queue_effect list \<times> queued_request list" where
  "drain_rejected_on_disconnect_with_error alloc env e ops tabs self =
     (let st = q_state self;
          (h, rs) = heap_drain (heap st);
          (h, rejected) = requeue_waiting alloc ops rs (h, []);
          (kept, rejected) = retain_waiting alloc ops (prepared st) ([], rejected);
          (late, rejected) = retain_waiting alloc ops (delayed st) ([], rejected);
          (rejected, ops, tabs) = retire_all env e rejected ops tabs;
          (rejected, effects) = dispatch_all rejected
      in (ops, tabs, self\<lparr>q_state := st\<lparr>heap := h, prepared := kept, delayed := late\<rparr>\<rparr>, effects, rejected))"

definition queue_close :: "priority_write_queue \<Rightarrow> priority_write_queue \<times> queue_effect list" where
  "queue_close self = (upd_queue (\<lambda>s. s\<lparr>q_closed := True\<rparr>) self, [Q_CloseSemaphores, Q_NotifyWaiters])"

end
