(* ===== verification/Queue_Laws.thy ===== *)
theory Queue_Laws
  imports Write_Queue
begin

text \<open>What one call of the write queue does to the requests it holds: every request has its token in exactly
one of the heap, the prepared and the delayed map, and a call accounts for the tokens that enter and the ones
that leave.\<close>

section \<open>The invariant\<close>

definition tokens :: "queue_state \<Rightarrow> token list" where
  "tokens st = map dispatch_cancel (items (heap st)) @ map fst (prepared st) @ map fst (delayed st)"

definition keyed :: "(token \<times> queued_request) list \<Rightarrow> bool" where
  "keyed xs \<longleftrightarrow> (\<forall>(t, r) \<in> set xs. dispatch_cancel r = t)"

definition queue_inv :: "queue_state \<Rightarrow> bool" where
  "queue_inv st \<longleftrightarrow> heap_inv (heap st) \<and> distinct (tokens st) \<and> keyed (prepared st) \<and> keyed (delayed st)"

text \<open>What a call does: the tokens that enter and the tokens that leave account for the difference.\<close>

definition queue_progress :: "queue_state \<Rightarrow> queue_state \<Rightarrow> token list \<Rightarrow> token list \<Rightarrow> bool" where
  "queue_progress st st' entered left \<longleftrightarrow>
     queue_inv st' \<and> mset (tokens st) + mset entered = mset (tokens st') + mset left
   \<and> (q_closed st \<longrightarrow> q_closed st' \<and> entered = [])"

abbreviation heap_tokens :: "indexed_heap \<Rightarrow> token list" where
  "heap_tokens h \<equiv> map dispatch_cancel (items h)"

lemma heap_push_tokens:
  assumes "heap_inv h" and "heap_push a b h r = (h', Inr u)"
  shows "heap_inv h' \<and> mset (heap_tokens h') = add_mset (dispatch_cancel r) (mset (heap_tokens h))"
  using heap_push_ok [OF assms(1), of a b r h'] assms(2) by simp

lemma heap_push_refused: "heap_push a b h r = (h', Inl r') \<Longrightarrow> h' = h \<and> r' = r"
  by (rule ih.push_refused)

lemma heap_remove_tokens:
  assumes inv: "heap_inv h"
  shows "heap_remove h t = (h', Some r) \<Longrightarrow> heap_inv h' \<and> dispatch_cancel r = t \<and> r \<in> set (items h)
      \<and> mset (heap_tokens h) = add_mset t (mset (heap_tokens h'))"
    and "heap_remove h t = (h', None) \<Longrightarrow> h' = h"
proof -
  have ix: "index_ok h" using inv by (simp add: heap_inv_def)
  show "heap_inv h' \<and> dispatch_cancel r = t \<and> r \<in> set (items h) \<and> mset (heap_tokens h) = add_mset t (mset (heap_tokens h'))"
    if rm: "heap_remove h t = (h', Some r)"
  proof -
    obtain i where i: "positions h t = Some i" using rm by (auto simp: heap_remove_def split: option.splits)
    note ok = heap_remove_ok [OF inv i]
    have "i < length (items h)" "dispatch_cancel (items h ! i) = t" using index_okD(2,3) [OF ix i] by auto
    moreover have "r = items h ! i" "heap_inv h'" "mset (items h') = mset (items h) - {#items h ! i#}"
      using ok rm by simp_all
    ultimately have "mset (items h) = add_mset r (mset (items h'))" by simp
    then have "image_mset dispatch_cancel (mset (items h)) = image_mset dispatch_cancel (add_mset r (mset (items h')))" by simp
    then show ?thesis using \<open>heap_inv h'\<close> \<open>r = _\<close> \<open>i < _\<close> \<open>dispatch_cancel (items h ! i) = t\<close> by simp
  qed
  show "heap_remove h t = (h', None) \<Longrightarrow> h' = h"
    using heap_remove_ok(1) [OF inv, of t] by (cases "positions h t") (auto simp: heap_remove_def)
qed

lemma heap_pop_tokens:
  assumes inv: "heap_inv h"
  shows "heap_pop h = (h', Some r) \<Longrightarrow> heap_inv h' \<and> r \<in> set (items h) \<and> (\<forall>x \<in> set (items h). sched_key x \<le> sched_key r)
      \<and> mset (heap_tokens h) = add_mset (dispatch_cancel r) (mset (heap_tokens h'))"
    and "heap_pop h = (h', None) \<Longrightarrow> h' = h \<and> items h = []"
proof -
  have ix: "index_ok h" using inv by (simp add: heap_inv_def)
  show "heap_inv h' \<and> r \<in> set (items h) \<and> (\<forall>x \<in> set (items h). sched_key x \<le> sched_key r)
      \<and> mset (heap_tokens h) = add_mset (dispatch_cancel r) (mset (heap_tokens h'))" if p: "heap_pop h = (h', Some r)"
  proof -
    obtain t where "heap_remove h t = (h', Some r)" using p by (auto simp: heap_pop_def split: option.splits)
    note rm = heap_remove_tokens(1) [OF inv this]
    have "sched_key x \<le> sched_key r" if "x \<in> set (items h)" for x
      using heap_pop_some [OF inv p] contents_iff [OF ix, of "dispatch_cancel x" x] that by blast
    then show ?thesis using rm by auto
  qed
  show "h' = h \<and> items h = []" if p: "heap_pop h = (h', None)"
  proof -
    have "contents h = Map.empty" "h' = h" using heap_pop_none [OF inv, of h'] p by auto
    moreover have "items h = []"
    proof (cases "items h")
      case (Cons x xs)
      then have "contents h (dispatch_cancel x) = Some x" using contents_iff [OF ix] by simp
      then show ?thesis using \<open>contents h = Map.empty\<close> by simp
    qed
    ultimately show ?thesis by simp
  qed
qed

lemma heap_contains_token: "heap_inv h \<Longrightarrow> heap_contains h t \<longleftrightarrow> t \<in> set (heap_tokens h)"
  using contents_None [of h t] by (auto simp: heap_inv_def heap_contains_def contents_def is_some_def)

lemma queued_token: "queue_inv st \<Longrightarrow> queued t st \<longleftrightarrow> t \<in> set (tokens st)"
  by (auto simp: queued_def queue_inv_def tokens_def heap_contains_token map_of_eq_None_iff)

lemma queue_progressI:
  assumes "queue_inv st" and "heap_inv (heap st')" and "keyed (prepared st')" "keyed (delayed st')"
    and "mset (tokens st) + mset entered = mset (tokens st') + mset left"
    and "distinct entered" "set entered \<inter> set (tokens st) = {}" and "q_closed st \<longrightarrow> q_closed st' \<and> entered = []"
  shows "queue_progress st st' entered left"
proof -
  have "distinct (tokens st @ entered)" using assms(1,6,7) by (auto simp: queue_inv_def)
  moreover have "mset (tokens st @ entered) = mset (tokens st' @ left)" using assms(5) by simp
  ultimately have "distinct (tokens st' @ left)" using mset_eq_imp_distinct_iff by blast
  then show ?thesis using assms by (simp add: queue_progress_def queue_inv_def)
qed

lemma queue_progress_refl: "queue_inv st \<Longrightarrow> queue_progress st st [] []"
  by (simp add: queue_progress_def)

lemma queue_progress_trans:
  assumes "queue_progress a b xs ls" and "queue_progress b c ys ms"
  shows "queue_progress a c (xs @ ys) (ls @ ms)"
  using assms mset_chain [of "mset (tokens a)" "mset xs" "mset (tokens b)" "mset ls" "mset ys" "mset (tokens c)" "mset ms"]
  by (auto simp: queue_progress_def)

lemma keyed_delete: "keyed xs \<Longrightarrow> keyed (AList.delete t xs)"
  by (auto simp: keyed_def set_delete)

lemma tokens_delete:
  assumes "distinct (map fst xs)" and "map_of xs t = Some r"
  shows "mset (map fst xs) = add_mset t (mset (map fst (AList.delete t xs)))"
  using mset_delete [OF assms, of fst] by simp

section \<open>Every call accounts for its requests\<close>

lemma upd_queue_state [simp]: "q_state (upd_queue f self) = f (q_state self)" "q_poisoned (upd_queue f self) = q_poisoned self"
  by (simp_all add: upd_queue_def)

lemma can_admit_open: "can_admit now env ops st r = Inr u \<Longrightarrow> \<not> q_closed st"
  by (auto simp: can_admit_def split: if_splits)

lemma enter_heap:
  assumes inv: "queue_inv st" and r: "\<not> queued (dispatch_cancel r) st" "\<not> q_closed st"
    and p: "heap_push a b (heap st) r = (h, Inr u)"
  shows "queue_progress st (st\<lparr>heap := h\<rparr>) [dispatch_cancel r] []"
  by (rule queue_progressI [OF inv])
    (use inv r heap_push_tokens [OF _ p] queued_token [OF inv] in \<open>auto simp: queue_inv_def tokens_def\<close>)

lemma enter_maps:
  assumes inv: "queue_inv st" and r: "\<not> queued (dispatch_cancel r) st" "\<not> q_closed st"
  shows "queue_progress st (st\<lparr>prepared := (dispatch_cancel r, r) # prepared st\<rparr>) [dispatch_cancel r] []"
    and "queue_progress st (st\<lparr>delayed := (dispatch_cancel r, r) # delayed st\<rparr>) [dispatch_cancel r] []"
  by (rule queue_progressI [OF inv];
      use inv r queued_token [OF inv] in \<open>auto simp: queue_inv_def tokens_def keyed_def\<close>)+

definition accepted :: "token \<Rightarrow> ('a, 'e) result \<Rightarrow> token list" where
  "accepted t res = (case res of Inr _ \<Rightarrow> [t] | Inl _ \<Rightarrow> [])"

lemma push_progress:
  assumes "queue_inv (q_state self)" and "push now env alloc r is_prepared ops self = (ops', self', effects, res)"
  shows "queue_progress (q_state self) (q_state self') (accepted (dispatch_cancel r) res) []"
    and "res = Inl (r', e) \<Longrightarrow> r' = r \<and> self' = self"
  using assms unfolding push_def Let_def accepted_def
  by (auto split: if_split_asm option.split_asm sum.split_asm prod.split_asm
      intro: queue_progress_refl enter_heap [OF _ _ can_admit_open] enter_maps [OF _ _ can_admit_open] dest: heap_push_refused)

lemma leave_prepared:
  assumes inv: "queue_inv st" and m: "map_of (prepared st) t = Some r"
  shows "queue_progress st (st\<lparr>prepared := AList.delete t (prepared st)\<rparr>) [] [t]" and "dispatch_cancel r = t"
proof -
  have "distinct (map fst (prepared st))" using inv by (simp add: queue_inv_def tokens_def)
  from tokens_delete [OF this m]
  show "queue_progress st (st\<lparr>prepared := AList.delete t (prepared st)\<rparr>) [] [t]"
    by (intro queue_progressI [OF inv]) (use inv in \<open>auto simp: queue_inv_def tokens_def keyed_delete\<close>)
  show "dispatch_cancel r = t" using inv map_of_SomeD [OF m] by (auto simp: queue_inv_def keyed_def)
qed

lemma leave_delayed:
  assumes inv: "queue_inv st" and m: "map_of (delayed st) t = Some r"
  shows "queue_progress st (st\<lparr>delayed := AList.delete t (delayed st)\<rparr>) [] [t]" and "dispatch_cancel r = t"
proof -
  have "distinct (map fst (delayed st))" using inv by (simp add: queue_inv_def tokens_def)
  from tokens_delete [OF this m]
  show "queue_progress st (st\<lparr>delayed := AList.delete t (delayed st)\<rparr>) [] [t]"
    by (intro queue_progressI [OF inv]) (use inv in \<open>auto simp: queue_inv_def tokens_def keyed_delete\<close>)
  show "dispatch_cancel r = t" using inv map_of_SomeD [OF m] by (auto simp: queue_inv_def keyed_def)
qed

lemma leave_heap:
  assumes inv: "queue_inv st" and rm: "heap_inv h" "mset (heap_tokens (heap st)) = add_mset t (mset (heap_tokens h))"
  shows "queue_progress st (st\<lparr>heap := h\<rparr>) [] [t]"
  by (rule queue_progressI [OF inv]) (use inv rm in \<open>auto simp: queue_inv_def tokens_def\<close>)

lemma take_queued_progress:
  assumes inv: "queue_inv st"
  shows "take_queued t st = (st', Some r) \<Longrightarrow> queue_progress st st' [] [t] \<and> dispatch_cancel r = t"
    and "take_queued t st = (st', None) \<Longrightarrow> st' = st \<and> t \<notin> set (tokens st)"
proof -
  have hi: "heap_inv (heap st)" using inv by (simp add: queue_inv_def)
  note none = heap_remove_tokens(2) [OF hi]
  show "queue_progress st st' [] [t] \<and> dispatch_cancel r = t" if tk: "take_queued t st = (st', Some r)"
  proof (cases "map_of (prepared st) t")
    case (Some x)
    then show ?thesis using tk leave_prepared [OF inv Some] by (auto simp: take_queued_def)
  next
    case None
    obtain h y where hr: "heap_remove (heap st) t = (h, y)" by fastforce
    show ?thesis
    proof (cases y)
      case (Some x)
      then show ?thesis using tk None hr heap_remove_tokens(1) [OF hi, of t h x] leave_heap [OF inv, of h t]
        by (auto simp: take_queued_def)
    next
      case no: None
      then have "h = heap st" using hr none by blast
      then show ?thesis using tk None hr no leave_delayed [OF inv, of t] by (auto simp: take_queued_def split: option.split_asm)
    qed
  qed
  show "st' = st \<and> t \<notin> set (tokens st)" if tk: "take_queued t st = (st', None)"
  proof -
    have p: "map_of (prepared st) t = None" and d: "map_of (delayed st) t = None" and h: "snd (heap_remove (heap st) t) = None"
      and s: "st' = st\<lparr>heap := fst (heap_remove (heap st) t)\<rparr>"
      using tk by (auto simp: take_queued_def split: option.split_asm prod.split_asm)
    have "fst (heap_remove (heap st) t) = heap st" using h none by (metis prod.collapse)
    moreover have "contents (heap st) t = None" using h heap_remove_contents [OF hi, of t] by simp
    then have "t \<notin> set (heap_tokens (heap st))" using contents_None [of "heap st" t] hi by (simp add: heap_inv_def)
    ultimately show ?thesis using p d s by (auto simp: tokens_def map_of_eq_None_iff)
  qed
qed

definition rejected :: "token \<Rightarrow> queue_state \<Rightarrow> (unit, net_error) result \<Rightarrow> token list" where
  "rejected t st res = (case (map_of (prepared st) t, res) of (Some _, Inl _) \<Rightarrow> [t] | _ \<Rightarrow> [])"

lemma commit_progress:
  assumes inv: "queue_inv (q_state self)" and ok: "\<not> q_poisoned self"
    and call: "commit_prepared now env env2 alloc t ops tabs self = (ops', tabs', self', effects, res)"
  shows "queue_progress (q_state self) (q_state self') [] (rejected t (q_state self) res)"
proof (cases "map_of (prepared (q_state self)) t")
  case None
  then show ?thesis using call ok queue_progress_refl [OF inv] by (auto simp: commit_prepared_def rejected_def)
next
  case (Some r)
  define s1 where "s1 = upd_queue (\<lambda>s. s\<lparr>prepared := AList.delete t (prepared s)\<rparr>) self"
  note out = leave_prepared [OF inv Some]
  have q1: "q_state s1 = (q_state self)\<lparr>prepared := AList.delete t (prepared (q_state self))\<rparr>" by (simp add: s1_def)
  have inv1: "queue_inv (q_state s1)" using out(1) q1 by (simp add: queue_progress_def)
  have fresh: "\<not> queued (dispatch_cancel r) (q_state s1)"
  proof -
    have "mset (tokens (q_state self)) = mset (tokens (q_state s1)) + {#t#}" using out(1) q1 by (simp add: queue_progress_def)
    moreover have "distinct (tokens (q_state self))" using inv by (simp add: queue_inv_def)
    ultimately have "t \<notin> set (tokens (q_state s1))" by (metis add_mset_add_single distinct.simps(2) mset.simps(2) mset_eq_imp_distinct_iff)
    then show ?thesis using queued_token [OF inv1] out(2) by simp
  qed
  have "(\<exists>e. Inl e = res) \<and> self' = s1
      \<or> (\<exists>h u. \<not> q_closed (q_state s1) \<and> heap_push (items_ok alloc) (positions_ok alloc) (heap (q_state s1)) r = (h, Inr u)
          \<and> res = Inr () \<and> self' = upd_queue (\<lambda>s. s\<lparr>heap := h\<rparr>) s1)"
    using call Some ok can_admit_open unfolding commit_prepared_def Let_def s1_def [symmetric]
    by (simp split: sum.split_asm prod.split_asm) blast+
  then show ?thesis
  proof (elim disjE exE conjE)
    fix e
    assume "Inl e = res" "self' = s1"
    then show ?thesis using out(1) q1 Some by (auto simp: rejected_def)
  next
    fix h u
    assume open1: "\<not> q_closed (q_state s1)" and p: "heap_push (items_ok alloc) (positions_ok alloc) (heap (q_state s1)) r = (h, Inr u)"
      and res: "res = Inr ()" "self' = upd_queue (\<lambda>s. s\<lparr>heap := h\<rparr>) s1"
    have "queue_progress (q_state s1) (q_state self') [t] []"
      using enter_heap [OF inv1 fresh open1 p] res(2) out(2) by simp
    then have "queue_progress (q_state self) (q_state self') [t] [t]"
      using queue_progress_trans [OF out(1)] q1 by fastforce
    moreover have "\<not> q_closed (q_state self)" using open1 q1 by simp
    ultimately show ?thesis using res(1) Some by (simp add: queue_progress_def rejected_def)
  qed
qed

text \<open>The scheduling order as comparison of keys.\<close>

lemma request_cmp_Greater: "request_cmp a b = Greater \<longleftrightarrow> sched_key b < sched_key a"
  by (auto simp: request_cmp_key cmp_nat_def)

lemma max_by_best:
  "max_by xs = Some x \<Longrightarrow> x \<in> set xs \<and> (\<forall>y \<in> set xs. sched_key (snd y) \<le> sched_key (snd x))"
  "max_by xs = None \<longleftrightarrow> xs = []"
proof -
  have fold: "fold (\<lambda>y best. if request_cmp (snd best) (snd y) = Greater then best else y) ys z \<in> insert z (set ys)
      \<and> (\<forall>y \<in> insert z (set ys). sched_key (snd y)
          \<le> sched_key (snd (fold (\<lambda>y best. if request_cmp (snd best) (snd y) = Greater then best else y) ys z)))"
    for z :: "token \<times> queued_request" and ys
  proof (induction ys arbitrary: z)
    case (Cons y ys)
    show ?case using Cons [of z] Cons [of y]
      by (auto simp: request_cmp_Greater not_less intro: order_trans less_imp_le)
  qed simp
  show "max_by xs = Some x \<Longrightarrow> x \<in> set xs \<and> (\<forall>y \<in> set xs. sched_key (snd y) \<le> sched_key (snd x))"
    using fold [of "tl xs" "hd xs"] by (cases xs) auto
  show "max_by xs = None \<longleftrightarrow> xs = []" by (cases xs) auto
qed

text \<open>The requests that a round of the writer may take: those of the heap, and the delayed ones whose
  time has come.\<close>

definition eligible :: "instant \<Rightarrow> op_store \<Rightarrow> queue_state \<Rightarrow> queued_request set" where
  "eligible now ops st = set (items (heap st))
     \<union> {r. \<exists>t. (t, r) \<in> set (delayed st) \<and> is_none_or (wake_at ops r) (\<lambda>d. d \<le> now)}"

lemma heap_peek_max:
  assumes "heap_inv h"
  shows "heap_peek h = Some x \<Longrightarrow> x \<in> set (items h) \<and> (\<forall>y \<in> set (items h). sched_key y \<le> sched_key x)"
    and "heap_peek h = None \<longleftrightarrow> items h = []"
proof -
  have ord: "heap_order (items h)" using assms by (simp add: heap_inv_def)
  show "heap_peek h = Some x \<Longrightarrow> x \<in> set (items h) \<and> (\<forall>y \<in> set (items h). sched_key y \<le> sched_key x)"
    using heap_root_max [OF ord] by (auto simp: heap_peek_def get_def in_set_conv_nth split: if_splits)
  show "heap_peek h = None \<longleftrightarrow> items h = []" by (auto simp: heap_peek_def get_def)
qed

lemma pop_ready_ok:
  assumes inv: "queue_inv st"
  shows "pop_ready now ops st = (st', Some r) \<Longrightarrow> queue_progress st st' [] [dispatch_cancel r] \<and> prepared st' = prepared st
      \<and> r \<in> eligible now ops st \<and> (\<forall>x \<in> eligible now ops st. sched_key x \<le> sched_key r)"
    and "pop_ready now ops st = (st', None) \<Longrightarrow> st' = st \<and> eligible now ops st = {}"
proof -
  define ready where "ready = filter (\<lambda>(_, r). is_none_or (wake_at ops r) (\<lambda>d. d \<le> now)) (delayed st)"
  have hi: "heap_inv (heap st)" using inv by (simp add: queue_inv_def)
  have el: "eligible now ops st = set (items (heap st)) \<union> snd ` set ready"
    by (force simp: eligible_def ready_def)
  have dist: "distinct (map fst (delayed st))" using inv by (simp add: queue_inv_def tokens_def)
  define chosen where "chosen = Option.bind (max_by ready) (\<lambda>(t, r).
      if is_none_or (heap_peek (heap st)) (\<lambda>top. request_cmp r top = Greater) then Some t else None)"
  have def: "pop_ready now ops st = (case chosen of
           Some t \<Rightarrow> (st\<lparr>delayed := AList.delete t (delayed st)\<rparr>, map_of (delayed st) t)
         | None \<Rightarrow> (let (h, r) = heap_pop (heap st) in (st\<lparr>heap := h\<rparr>, r)))"
    by (simp add: pop_ready_def ready_def chosen_def)
  have del: "\<exists>x. (t, x) \<in> set ready \<and> map_of (delayed st) t = Some x \<and> (\<forall>y \<in> eligible now ops st. sched_key y \<le> sched_key x)"
    if c: "chosen = Some t" for t
  proof -
    obtain x where m: "max_by ready = Some (t, x)" and top: "is_none_or (heap_peek (heap st)) (\<lambda>top. request_cmp x top = Greater)"
      using c by (auto simp: chosen_def bind_eq_Some_conv split: if_splits)
    note best = max_by_best(1) [OF m]
    have "map_of (delayed st) t = Some x" using best dist by (auto simp: ready_def)
    moreover have "sched_key y \<le> sched_key x" if "y \<in> set (items (heap st))" for y
    proof (cases "heap_peek (heap st)")
      case None
      then show ?thesis using heap_peek_max(2) [OF hi] that by simp
    next
      case (Some z)
      then have "sched_key z < sched_key x" using top by (simp add: is_none_or_def request_cmp_Greater)
      then show ?thesis using heap_peek_max(1) [OF hi Some] that by fastforce
    qed
    ultimately show ?thesis using best el by auto
  qed
  show "queue_progress st st' [] [dispatch_cancel r] \<and> prepared st' = prepared st
      \<and> r \<in> eligible now ops st \<and> (\<forall>x \<in> eligible now ops st. sched_key x \<le> sched_key r)"
    if p: "pop_ready now ops st = (st', Some r)"
  proof (cases chosen)
    case (Some t)
    obtain x where x: "(t, x) \<in> set ready" "map_of (delayed st) t = Some x" "\<forall>y \<in> eligible now ops st. sched_key y \<le> sched_key x"
      using del [OF Some] by blast
    then show ?thesis using p Some leave_delayed [OF inv x(2)] el unfolding def by force
  next
    case None
    obtain h where hp: "heap_pop (heap st) = (h, Some r)" and s: "st' = st\<lparr>heap := h\<rparr>"
      using p None unfolding def by (auto split: prod.split_asm)
    note pt = heap_pop_tokens(1) [OF hi hp]
    have "sched_key (snd y) \<le> sched_key r" if y: "y \<in> set ready" for y
    proof -
      obtain t x where m: "max_by ready = Some (t, x)" using y max_by_best(2) [of ready] by (cases "max_by ready") auto
      then obtain z where z: "heap_peek (heap st) = Some z" "\<not> sched_key z < sched_key x"
        using None by (auto simp: chosen_def is_none_or_def request_cmp_Greater split: if_splits option.splits)
      have "sched_key (snd y) \<le> sched_key x" using max_by_best(1) [OF m] y by auto
      also have "\<dots> \<le> sched_key z" using z(2) by simp
      also have "\<dots> \<le> sched_key r" using pt heap_peek_max(1) [OF hi z(1)] by blast
      finally show ?thesis .
    qed
    then show ?thesis using pt s leave_heap [OF inv, of h "dispatch_cancel r"] el by auto
  qed
  show "st' = st \<and> eligible now ops st = {}" if p: "pop_ready now ops st = (st', None)"
  proof (cases chosen)
    case (Some t)
    then show ?thesis using p del [OF Some] unfolding def by auto
  next
    case None
    have hp: "heap_pop (heap st) = (heap st', None)" and s: "st' = st\<lparr>heap := heap st'\<rparr>"
      using p None unfolding def by (auto split: prod.split_asm)
    note pt = heap_pop_tokens(2) [OF hi hp]
    then have "heap_peek (heap st) = None" using heap_peek_max(2) [OF hi] by simp
    then have "max_by ready = None" using None by (cases "max_by ready") (auto simp: chosen_def is_none_or_def)
    then show ?thesis using pt s el max_by_best(2) by auto
  qed
qed

end
