(* ===== verification/Queue_History.thy ===== *)
theory Queue_History
  imports Queue_Laws
begin

text \<open>Draining, and the histories of a write queue: any sequence of its calls, between which the other
  components change the operations and the request tables at will.\<close>

section \<open>Draining\<close>

lemma prepare_retirement_keeps:
  assumes "prepare_retirement env e r ops tabs = (r', ops', tabs')"
  shows "dispatch_cancel r' = dispatch_cancel r" "permits_of r' = permits_of r" "completed r' = completed r"
    "retirement r' \<noteq> None \<or> completed r'"
  using assms by (auto simp: prepare_retirement_def case_prod_beta split: if_split_asm)

lemma retire_all_keeps:
  "retire_all env e rs ops tabs = (rs', ops', tabs') \<Longrightarrow> map dispatch_cancel rs' = map dispatch_cancel rs
     \<and> map permits_of rs' = map permits_of rs \<and> map completed rs' = map completed rs
     \<and> (\<forall>r \<in> set rs'. retirement r \<noteq> None \<or> completed r)"
proof (induction rs arbitrary: ops tabs rs')
  case (Cons r rs)
  obtain r1 o1 t1 where p: "prepare_retirement (env (dispatch_phase r)) e r ops tabs = (r1, o1, t1)" by (metis prod_cases3)
  obtain rs1 where "retire_all env e rs o1 t1 = (rs1, ops', tabs')" and rs': "rs' = r1 # rs1"
    using Cons.prems p by (auto split: prod.split_asm)
  then show ?case using Cons.IH prepare_retirement_keeps [OF p] by auto
qed simp

lemma dispatch_retirement_keeps:
  "dispatch_cancel (fst (dispatch_retirement r)) = dispatch_cancel r"
  "retirement r \<noteq> None \<or> completed r \<Longrightarrow> completed (fst (dispatch_retirement r))"
  "released (snd (dispatch_retirement r)) = (if retirement r = None then [] else permits_of r)"
  by (auto simp: dispatch_retirement_def release_permits_def permits_of_def Let_def split: option.split)

lemma dispatch_all_tokens:
  "map dispatch_cancel (fst (dispatch_all rs)) = map dispatch_cancel rs"
  by (simp add: dispatch_all_def dispatch_retirement_keeps)

lemma heap_drain_tokens: "heap_drain h = (h', rs) \<Longrightarrow> rs = items h \<and> heap_inv h' \<and> items h' = []"
  by (auto simp: heap_drain_def heap_inv_def index_ok_def heap_order_def)

lemma keyed_tokens: "keyed xs \<Longrightarrow> map (dispatch_cancel \<circ> snd) xs = map fst xs"
  by (auto simp: keyed_def)

lemma drain_progress:
  assumes inv: "queue_inv (q_state self)" and call: "drain_with_error env e ops tabs self = (ops', tabs', self', effects, rs)"
  shows "queue_progress (q_state self) (q_state self') [] (map dispatch_cancel rs)"
    and "tokens (q_state self') = []" and "map dispatch_cancel rs = tokens (q_state self)"
proof -
  obtain h xs where d: "heap_drain (heap (q_state self)) = (h, xs)" by fastforce
  note hd = heap_drain_tokens [OF d]
  obtain ys where r: "retire_all env e (xs @ map snd (prepared (q_state self)) @ map snd (delayed (q_state self))) ops tabs = (ys, ops', tabs')"
    and out: "rs = fst (dispatch_all ys)" and s: "self' = self\<lparr>q_state := (q_state self)\<lparr>heap := h, prepared := [], delayed := []\<rparr>\<rparr>"
    using call d by (auto simp: drain_with_error_def Let_def split: prod.split_asm)
  have "map dispatch_cancel rs = map dispatch_cancel ys" unfolding out by (rule dispatch_all_tokens)
  also have "\<dots> = map dispatch_cancel (xs @ map snd (prepared (q_state self)) @ map snd (delayed (q_state self)))"
    using retire_all_keeps [OF r] by blast
  also have "\<dots> = tokens (q_state self)"
    using hd inv by (simp add: tokens_def queue_inv_def keyed_tokens [unfolded comp_def] comp_def)
  finally show toks: "map dispatch_cancel rs = tokens (q_state self)" .
  show none: "tokens (q_state self') = []" using s hd by (simp add: tokens_def)
  show "queue_progress (q_state self) (q_state self') [] (map dispatch_cancel rs)"
    by (rule queue_progressI [OF inv]) (use s hd toks none in \<open>simp_all add: keyed_def\<close>)
qed

lemma requeue_waiting_tokens:
  assumes "heap_inv h" and "requeue_waiting alloc ops rs (h, out) = (h', out')"
  shows "heap_inv h' \<and> mset (heap_tokens h') + mset (map dispatch_cancel out')
    = mset (heap_tokens h) + mset (map dispatch_cancel out) + mset (map dispatch_cancel rs)"
  using assms
proof (induction rs arbitrary: h out)
  case (Cons r rs)
  show ?case
  proof (cases "waits ops r")
    case True
    obtain h1 res where p: "heap_push (items_ok (alloc (dispatch_cancel r))) (positions_ok (alloc (dispatch_cancel r))) h
                     (r\<lparr>admission_cancel := None\<rparr>) = (h1, res)" by fastforce
    show ?thesis
    proof (cases res)
      case (Inl x)
      then have "h1 = h" "x = r\<lparr>admission_cancel := None\<rparr>" using heap_push_refused p by blast+
      then show ?thesis using Cons.IH [of h "out @ [x]"] Cons.prems True p Inl by (simp add: ac_simps)
    next
      case (Inr u)
      note pt = heap_push_tokens [OF Cons.prems(1) p [unfolded Inr]]
      show ?thesis using Cons.IH [of h1 out] Cons.prems(2) True p Inr pt by (simp add: ac_simps)
    qed
  qed (use Cons in \<open>auto simp: ac_simps\<close>)
qed simp

lemma retain_waiting_tokens:
  assumes "keyed rs" "keyed kept" and "retain_waiting alloc ops rs (kept, out) = (kept', out')"
  shows "keyed kept' \<and> mset (map fst kept') + mset (map dispatch_cancel out')
    = mset (map fst kept) + mset (map dispatch_cancel out) + mset (map fst rs)"
  using assms
proof (induction rs arbitrary: kept out)
  case (Cons p rs)
  obtain t r where p: "p = (t, r)" by fastforce
  have "keyed rs" "dispatch_cancel r = t" using Cons.prems(1) p by (auto simp: keyed_def)
  moreover have "keyed (kept @ [(t, r\<lparr>admission_cancel := None\<rparr>)])" using Cons.prems(2) calculation by (auto simp: keyed_def)
  ultimately show ?case using Cons.IH [of "kept @ [(t, r\<lparr>admission_cancel := None\<rparr>)]" out] Cons.IH [of kept "out @ [r]"] Cons.prems p
    by (auto simp: ac_simps split: if_splits)
qed simp

lemma three_drains:
  fixes H :: "'a multiset"
  assumes "H' + X = H" and "K + Y = X + P" and "L + Z = Y + D"
  shows "H + (P + D) = H' + (K + (L + Z))"
proof -
  have "H + (P + D) = H' + ((X + P) + D)" unfolding assms(1) [symmetric] by (simp only: add.assoc)
  also have "\<dots> = H' + (K + (Y + D))" unfolding assms(2) [symmetric] by (simp only: add.assoc)
  finally show ?thesis unfolding assms(3) [symmetric] .
qed

lemma drain_rejected_progress:
  assumes inv: "queue_inv (q_state self)"
    and call: "drain_rejected_on_disconnect_with_error alloc env e ops tabs self = (ops', tabs', self', effects, rs)"
  shows "queue_progress (q_state self) (q_state self') [] (map dispatch_cancel rs)"
proof -
  define st where "st = q_state self"
  have hi: "heap_inv (heap st)" and ks: "keyed (prepared st)" "keyed (delayed st)" using inv by (simp_all add: st_def queue_inv_def)
  obtain h0 xs where d: "heap_drain (heap st) = (h0, xs)" by fastforce
  note hd = heap_drain_tokens [OF d]
  obtain h rej1 where q1: "requeue_waiting alloc ops xs (h0, []) = (h, rej1)" by fastforce
  obtain kept rej2 where q2: "retain_waiting alloc ops (prepared st) ([], rej1) = (kept, rej2)" by fastforce
  obtain late rej3 where q3: "retain_waiting alloc ops (delayed st) ([], rej2) = (late, rej3)" by fastforce
  obtain ys where r: "retire_all env e rej3 ops tabs = (ys, ops', tabs')" and out: "rs = fst (dispatch_all ys)"
    and s: "self' = self\<lparr>q_state := st\<lparr>heap := h, prepared := kept, delayed := late\<rparr>\<rparr>"
    using call d q1 q2 q3 by (auto simp: drain_rejected_on_disconnect_with_error_def Let_def st_def [symmetric] split: prod.split_asm)
  have k0: "keyed []" by (simp add: keyed_def)
  have t1: "heap_inv h" "mset (heap_tokens h) + mset (map dispatch_cancel rej1) = mset (heap_tokens (heap st))"
    using requeue_waiting_tokens [OF _ q1] hd by auto
  have t2: "keyed kept" "mset (map fst kept) + mset (map dispatch_cancel rej2) = mset (map dispatch_cancel rej1) + mset (map fst (prepared st))"
    using retain_waiting_tokens [OF ks(1) k0 q2] by auto
  have t3: "keyed late" "mset (map fst late) + mset (map dispatch_cancel rej3) = mset (map dispatch_cancel rej2) + mset (map fst (delayed st))"
    using retain_waiting_tokens [OF ks(2) k0 q3] by auto
  have "map dispatch_cancel rs = map dispatch_cancel rej3" using retire_all_keeps [OF r] dispatch_all_tokens [of ys] out by simp
  then have "mset (tokens st) = mset (tokens (q_state self')) + mset (map dispatch_cancel rs)"
    using three_drains [OF t1(2) t2(2) t3(2)] s by (simp add: tokens_def add.assoc)
  then show ?thesis
    by (intro queue_progressI [OF inv]) (use s t1 t2 t3 in \<open>simp_all add: st_def\<close>)
qed

section \<open>Histories\<close>

datatype queue_call =
    Call_Push clock op_env queue_alloc queued_request bool
  | Call_Commit instant op_env op_env queue_alloc token
  | Call_Cancel op_env token net_error
  | Call_Next instant
  | Call_Drain "op_id \<Rightarrow> op_env" net_error
  | Call_Drain_Rejected "token \<Rightarrow> queue_alloc" "op_id \<Rightarrow> op_env" net_error
  | Call_Close
  | Call_Elsewhere op_store tables

text \<open>The queue in its surroundings, with the tokens of the requests it accepted and of the ones it handed out,
  completed or retired.\<close>

record queue_world =
  qw_ops :: op_store
  qw_tabs :: tables
  qw_queue :: priority_write_queue
  qw_entered :: "token list"
  qw_left :: "token list"

fun queue_step :: "queue_call \<Rightarrow> queue_world \<Rightarrow> queue_world" where
  "queue_step (Call_Push now env alloc r is_prepared) w =
     (let (ops, q, _, res) = push now env alloc r is_prepared (qw_ops w) (qw_queue w)
      in w\<lparr>qw_ops := ops, qw_queue := q, qw_entered := qw_entered w @ accepted (dispatch_cancel r) res\<rparr>)"
| "queue_step (Call_Commit now env env2 alloc t) w =
     (let (ops, tabs, q, _, res) = commit_prepared now env env2 alloc t (qw_ops w) (qw_tabs w) (qw_queue w)
      in w\<lparr>qw_ops := ops, qw_tabs := tabs, qw_queue := q,
           qw_left := qw_left w @ (if q_poisoned q then [] else rejected t (q_state (qw_queue w)) res)\<rparr>)"
| "queue_step (Call_Cancel env t e) w =
     (let (ops, tabs, q, _, found) = cancel_queued_with_error env t e (qw_ops w) (qw_tabs w) (qw_queue w)
      in w\<lparr>qw_ops := ops, qw_tabs := tabs, qw_queue := q, qw_left := qw_left w @ (if found then [t] else [])\<rparr>)"
| "queue_step (Call_Next now) w =
     (case queue_next now (qw_ops w) (qw_queue w) of
        (q, Next_Request r) \<Rightarrow> w\<lparr>qw_queue := q, qw_left := qw_left w @ [dispatch_cancel r]\<rparr>
      | (q, _) \<Rightarrow> w\<lparr>qw_queue := q\<rparr>)"
| "queue_step (Call_Drain env e) w =
     (let (ops, tabs, q, _, rs) = drain_with_error env e (qw_ops w) (qw_tabs w) (qw_queue w)
      in w\<lparr>qw_ops := ops, qw_tabs := tabs, qw_queue := q, qw_left := qw_left w @ map dispatch_cancel rs\<rparr>)"
| "queue_step (Call_Drain_Rejected alloc env e) w =
     (let (ops, tabs, q, _, rs) =
            drain_rejected_on_disconnect_with_error alloc env e (qw_ops w) (qw_tabs w) (qw_queue w)
      in w\<lparr>qw_ops := ops, qw_tabs := tabs, qw_queue := q, qw_left := qw_left w @ map dispatch_cancel rs\<rparr>)"
| "queue_step Call_Close w = w\<lparr>qw_queue := fst (queue_close (qw_queue w))\<rparr>"
| "queue_step (Call_Elsewhere ops tabs) w = w\<lparr>qw_ops := ops, qw_tabs := tabs\<rparr>"

definition queue_moves :: "queue_world \<Rightarrow> queue_world \<Rightarrow> bool" where
  "queue_moves w w' \<longleftrightarrow> (\<exists>xs ls. qw_entered w' = qw_entered w @ xs \<and> qw_left w' = qw_left w @ ls
      \<and> queue_progress (q_state (qw_queue w)) (q_state (qw_queue w')) xs ls)"

lemma queue_movesI:
  "queue_progress (q_state (qw_queue w)) (q_state (qw_queue w')) xs ls \<Longrightarrow> qw_entered w' = qw_entered w @ xs
     \<Longrightarrow> qw_left w' = qw_left w @ ls \<Longrightarrow> queue_moves w w'"
  by (auto simp: queue_moves_def)

lemma commit_poisoned:
  "commit_prepared now env env2 alloc t ops tabs self = (ops', tabs', self', effects, res) \<Longrightarrow> q_poisoned self' = q_poisoned self"
  "commit_prepared now env env2 alloc t ops tabs self = (ops', tabs', self', effects, res) \<Longrightarrow> q_poisoned self \<Longrightarrow> self' = self"
  unfolding commit_prepared_def Let_def by (auto split: if_split_asm option.split_asm sum.split_asm prod.split_asm)

lemma cancel_progress:
  assumes "queue_inv (q_state self)" and "cancel_queued_with_error env t e ops tabs self = (ops', tabs', self', effects, found)"
  shows "queue_progress (q_state self) (q_state self') [] (if found then [t] else [])"
  using assms take_queued_progress [OF assms(1), of t] queue_progress_refl [OF assms(1)]
  by (auto simp: cancel_queued_with_error_def split: option.split_asm prod.split_asm)

lemma next_progress:
  assumes "queue_inv (q_state self)" and "queue_next now ops self = (self', res)"
  shows "queue_progress (q_state self) (q_state self') [] (case res of Next_Request r \<Rightarrow> [dispatch_cancel r] | _ \<Rightarrow> [])"
  using assms pop_ready_ok [OF assms(1), of now ops] queue_progress_refl [OF assms(1)]
  by (auto simp: queue_next_def split: option.split_asm prod.split_asm)

lemma queue_close_progress: "queue_inv (q_state self) \<Longrightarrow> queue_progress (q_state self) (q_state (fst (queue_close self))) [] []"
  by (auto simp: queue_close_def queue_progress_def queue_inv_def tokens_def)

lemma queue_step_moves:
  assumes inv: "queue_inv (q_state (qw_queue w))"
  shows "queue_moves w (queue_step c w)"
proof (cases c)
  case (Call_Push now env alloc r is_prepared)
  then show ?thesis using push_progress(1) [OF inv, of now env alloc r is_prepared "qw_ops w"]
    by (auto intro!: queue_movesI split: prod.split)
next
  case (Call_Commit now env env2 alloc t)
  obtain ops tabs q eff res where call: "commit_prepared now env env2 alloc t (qw_ops w) (qw_tabs w) (qw_queue w) = (ops, tabs, q, eff, res)"
    by (metis prod_cases5)
  show ?thesis
  proof (cases "q_poisoned (qw_queue w)")
    case True
    then show ?thesis using Call_Commit call commit_poisoned [OF call] queue_progress_refl [OF inv]
      by (auto intro!: queue_movesI)
  next
    case False
    then show ?thesis using Call_Commit call commit_poisoned(1) [OF call] commit_progress [OF inv False call]
      by (auto intro!: queue_movesI)
  qed
next
  case (Call_Cancel env t e)
  then show ?thesis using cancel_progress [OF inv, of env t e "qw_ops w" "qw_tabs w"]
    by (auto intro!: queue_movesI split: prod.split)
next
  case (Call_Next now)
  then show ?thesis using next_progress [OF inv, of now "qw_ops w"]
    by (auto intro!: queue_movesI split: prod.split next_step.split)
next
  case (Call_Drain env e)
  then show ?thesis using drain_progress(1) [OF inv, of env e "qw_ops w" "qw_tabs w"]
    by (auto intro!: queue_movesI split: prod.split)
next
  case (Call_Drain_Rejected alloc env e)
  then show ?thesis using drain_rejected_progress [OF inv, of alloc env e "qw_ops w" "qw_tabs w"]
    by (auto intro!: queue_movesI split: prod.split)
next
  case Call_Close
  then show ?thesis using queue_close_progress [OF inv] by (auto intro!: queue_movesI)
next
  case (Call_Elsewhere ops tabs)
  then show ?thesis using queue_progress_refl [OF inv] by (auto intro!: queue_movesI)
qed

definition queue_world_inv :: "queue_world \<Rightarrow> bool" where
  "queue_world_inv w \<longleftrightarrow> queue_inv (q_state (qw_queue w))
     \<and> mset (qw_entered w) = mset (tokens (q_state (qw_queue w))) + mset (qw_left w)"

text \<open>What was accepted before the queue was closed, once it is.\<close>

definition closed_history :: "queue_world \<Rightarrow> token list option" where
  "closed_history w = (if q_closed (q_state (qw_queue w)) then Some (qw_entered w) else None)"

lemma queue_world_inv_step:
  assumes "queue_world_inv w"
  shows "queue_world_inv (queue_step c w)" and "closed_history w = Some xs \<Longrightarrow> closed_history (queue_step c w) = Some xs"
proof -
  have inv: "queue_inv (q_state (qw_queue w))" using assms by (simp add: queue_world_inv_def)
  obtain xs ls where m: "qw_entered (queue_step c w) = qw_entered w @ xs" "qw_left (queue_step c w) = qw_left w @ ls"
    "queue_progress (q_state (qw_queue w)) (q_state (qw_queue (queue_step c w))) xs ls"
    using queue_step_moves [OF inv, of c] unfolding queue_moves_def by blast
  have "mset (qw_entered w) + mset xs = (mset (tokens (q_state (qw_queue w))) + mset xs) + mset (qw_left w)"
    using assms by (simp add: queue_world_inv_def ac_simps)
  also have "\<dots> = mset (tokens (q_state (qw_queue (queue_step c w)))) + mset ls + mset (qw_left w)"
    using m(3) by (simp add: queue_progress_def)
  finally show "queue_world_inv (queue_step c w)" using m by (simp add: queue_world_inv_def queue_progress_def ac_simps)
  show "closed_history w = Some zs \<Longrightarrow> closed_history (queue_step c w) = Some zs" for zs
    using m by (auto simp: closed_history_def queue_progress_def split: if_split_asm)
qed

interpretation wq: latch queue_step queue_world_inv closed_history
  by unfold_locales (auto intro: queue_world_inv_step)

definition queue_run :: "queue_call list \<Rightarrow> op_store \<Rightarrow> tables \<Rightarrow> priority_write_queue \<Rightarrow> queue_world" where
  "queue_run calls ops tabs q = fold queue_step calls \<lparr>qw_ops = ops, qw_tabs = tabs, qw_queue = q, qw_entered = [], qw_left = []\<rparr>"

lemma queue_new_inv:
  assumes "queue_new max_permits max_tasks max_bytes1 = Inr q"
  shows "queue_world_inv \<lparr>qw_ops = ops, qw_tabs = tabs, qw_queue = q, qw_entered = [], qw_left = []\<rparr>"
  using assms heap_inv_new by (auto simp: queue_new_def try_bind_def queue_world_inv_def queue_inv_def tokens_def keyed_def heap_new_def
      split: sum.split_asm)

lemma queue_run_inv:
  "queue_new max_permits max_tasks max_bytes1 = Inr q \<Longrightarrow> queue_world_inv (queue_run calls ops tabs q)"
  unfolding queue_run_def by (rule wq.inv_run [OF queue_new_inv])

text \<open>The requests of a queue, and what a wait of the writer promises.\<close>

definition held :: "queue_state \<Rightarrow> queued_request list" where
  "held st = items (heap st) @ map snd (prepared st) @ map snd (delayed st)"

lemma wait_is_bounded:
  assumes "queue_next now ops self = (self', Next_Wait due)" and "queue_inv (q_state self)" and "r \<in> snd ` set (delayed (q_state self))"
  shows "\<exists>d. due = Some d \<and> now < d \<and> (\<exists>w. wake_at ops r = Some w \<and> d \<le> w) \<and> eligible d ops (q_state self) \<noteq> {}"
proof -
  define wakes where "wakes = List.map_filter (\<lambda>(_, r). wake_at ops r) (delayed (q_state self))"
  have none: "eligible now ops (q_state self) = {}" and due: "due = list_min wakes"
    using assms(1) pop_ready_ok(2) [OF assms(2), of now ops] by (auto simp: queue_next_def wakes_def split: option.split_asm prod.split_asm if_split_asm)
  have late: "\<exists>w. wake_at ops x = Some w \<and> now < w" if "(t, x) \<in> set (delayed (q_state self))" for t x
    using none that by (cases "wake_at ops x") (auto simp: eligible_def is_none_or_def)
  obtain t w where w: "(t, r) \<in> set (delayed (q_state self))" "wake_at ops r = Some w" using assms(3) late by force
  have mem: "x \<in> set wakes \<longleftrightarrow> (\<exists>t r. (t, r) \<in> set (delayed (q_state self)) \<and> wake_at ops r = Some x)" for x
    by (force simp: wakes_def map_filter_def)
  obtain d where d: "list_min wakes = Some d" "d \<le> w" using list_min_lower [of w wakes] mem w by blast
  have "d \<in> set wakes" using list_min_member d(1) by blast
  then obtain t' r' where r': "(t', r') \<in> set (delayed (q_state self))" "wake_at ops r' = Some d" using mem by blast
  then have "r' \<in> eligible d ops (q_state self)" by (auto simp: eligible_def is_none_or_def)
  then show ?thesis using d due w late [OF r'(1)] r'(2) by auto
qed

lemma next_result:
  assumes "queue_next now ops self = (self', res)" and "queue_inv (q_state self)"
  shows "case res of
      Next_Request r \<Rightarrow> r \<in> eligible now ops (q_state self) \<and> (\<forall>x \<in> eligible now ops (q_state self). sched_key x \<le> sched_key r)
        \<and> prepared (q_state self') = prepared (q_state self)
    | Next_End \<Rightarrow> q_closed (q_state self) \<and> eligible now ops (q_state self) = {} \<and> self' = self
    | Next_Wait due \<Rightarrow> \<not> q_closed (q_state self) \<and> eligible now ops (q_state self) = {} \<and> self' = self"
  using assms(1) pop_ready_ok [OF assms(2), of now ops]
  by (auto simp: queue_next_def split: option.split_asm prod.split_asm if_split_asm)

text \<open>The permits that ending a request returns.\<close>

definition owes :: "queued_request \<Rightarrow> permit list" where
  "owes r = (if retirement r = None \<and> completed r then [] else permits_of r)"

lemma prepare_retirement_owes:
  assumes "prepare_retirement env e r ops tabs = (r', ops', tabs')"
  shows "owes r' = owes r \<and> released (snd (dispatch_retirement r')) = owes r'"
  using assms by (auto simp: prepare_retirement_def owes_def dispatch_retirement_keeps case_prod_beta split: if_split_asm)

lemma drain_released:
  assumes "drain_with_error env e ops tabs self = (ops', tabs', self', effects, rs)"
  shows "released effects = concat (map owes (held (q_state self)))"
    and "\<forall>r \<in> set rs. completed r"
proof -
  obtain ys where r: "retire_all env e (held (q_state self)) ops tabs = (ys, ops', tabs')"
    and out: "rs = fst (dispatch_all ys)" "effects = snd (dispatch_all ys)"
    using assms by (auto simp: drain_with_error_def held_def heap_drain_def Let_def split: prod.split_asm)
  have conc: "released (concat xss) = concat (map released xss)" for xss by (induction xss) auto
  have "retire_all env e xs ops tabs = (ys, ops', tabs') \<Longrightarrow> map owes ys = map owes xs
      \<and> (\<forall>y \<in> set ys. released (snd (dispatch_retirement y)) = owes y)" for xs ys ops tabs ops' tabs'
  proof (induction xs arbitrary: ys ops tabs)
    case (Cons r rs)
    obtain r1 o1 t1 where p: "prepare_retirement (env (dispatch_phase r)) e r ops tabs = (r1, o1, t1)" by (metis prod_cases3)
    obtain rs1 where "retire_all env e rs o1 t1 = (rs1, ops', tabs')" and "ys = r1 # rs1"
      using Cons.prems p by (auto split: prod.split_asm)
    then show ?case using Cons.IH prepare_retirement_owes [OF p] by auto
  qed simp
  note o = this [OF r]
  have "released effects = concat (map (\<lambda>y. released (snd (dispatch_retirement y))) ys)"
    by (simp add: out dispatch_all_def conc comp_def)
  also have "\<dots> = concat (map owes ys)" using o by (metis (no_types, lifting) map_eq_conv)
  finally show "released effects = concat (map owes (held (q_state self)))" using o by simp
  show "\<forall>r \<in> set rs. completed r"
    using retire_all_keeps [OF r] by (auto simp: out dispatch_all_def dispatch_retirement_keeps)
qed

section \<open>Properties\<close>

definition example_queue :: priority_write_queue where
  "example_queue = \<lparr>q_state = \<lparr>heap = heap_new, prepared = [], delayed = [], q_closed = False\<rparr>,
     q_poisoned = False, q_max_bytes = 64\<rparr>"

definition example_request :: "token \<Rightarrow> instant option \<Rightarrow> queued_request" where
  "example_request t ready =
     \<lparr>qr_registration = None, qr_message = 0, qr_config = send_options_default, attempt = 0, ready_at = ready,
      dispatch_cancel = t, dispatch_phase = 0, admission_cancel = None, sequence = 7, slot_permit = Some 30,
      byte_permit = Some 31, completed = False, retirement = None\<rparr>"

definition example_push :: queue_call where
  "example_push = Call_Push (\<lambda>_. 10) example_env \<lparr>items_ok = True, positions_ok = True, map_ok = True\<rparr>
     (example_request 8 (Some 50)) False"

lemma example_queue_new: "queue_new 100 4 64 = Inr example_queue"
  by (simp add: queue_new_def queue_limit_validate_def queue_limit_validate_fields_def permits_def positive_def
      U32_MAX_def try_bind_def example_queue_def)

lemma example_history:
  "queue_run [example_push] (\<lambda>_. example_op) Map.empty example_queue =
     \<lparr>qw_ops = \<lambda>_. example_op, qw_tabs = Map.empty,
      qw_queue = upd_queue (\<lambda>s. s\<lparr>delayed := [(8, example_request 8 (Some 50))]\<rparr>) example_queue,
      qw_entered = [8], qw_left = []\<rparr>"
  by (simp add: queue_run_def example_push_def push_def example_queue_def example_request_def lock_domain_def
      example_op_defs can_admit_def is_finished_def queued_def heap_contains_def heap_new_def
      is_some_def is_some_and_def op_deadline_def accepted_def upd_queue_def)

text \<open>C15. Whatever calls of whatever threads a queue serves, every request it accepted is still in it, or was
  taken, cancelled, rejected or drained, exactly once: the accepted tokens are those it holds and those that left,
  and no token is held twice.\<close>

theorem queue_accounts_for_every_request:
  assumes "queue_new max_permits max_tasks max_bytes1 = Inr q"
  shows "let w = queue_run calls ops tabs q
    in mset (qw_entered w) = mset (tokens (q_state (qw_queue w))) + mset (qw_left w)
     \<and> distinct (tokens (q_state (qw_queue w)))"
  using queue_run_inv [OF assms, of calls ops tabs] by (simp add: queue_world_inv_def queue_inv_def Let_def)

theorem queue_accounts_for_every_request_witness:
  "queue_new 100 4 64 = Inr example_queue
   \<and> qw_entered (queue_run [example_push] (\<lambda>_. example_op) Map.empty example_queue) = [8]
   \<and> tokens (q_state (qw_queue (queue_run [example_push] (\<lambda>_. example_op) Map.empty example_queue))) = [8]"
  using queue_accounts_for_every_request [OF example_queue_new, of "[example_push]" "\<lambda>_. example_op" Map.empty]
    example_queue_new by (simp add: example_history)

text \<open>C16. In every state a queue can reach, a round of the writer takes a request only if it is in the heap or
  its wake time has come, and then the one of highest priority, the oldest among equals, and never touches the
  prepared requests; it ends only when the queue is closed and nothing is eligible; and it waits only when nothing
  is eligible, with a timer that no delayed request outlives and at whose instant a request is eligible.\<close>

theorem writer_takes_the_most_urgent:
  assumes "queue_new max_permits max_tasks max_bytes1 = Inr q"
    and "w = queue_run calls ops tabs q" and "st = q_state (qw_queue w)"
  shows "case queue_next now (qw_ops w) (qw_queue w) of
      (q', Next_Request r) \<Rightarrow> r \<in> eligible now (qw_ops w) st
        \<and> (\<forall>x \<in> eligible now (qw_ops w) st. sched_key x \<le> sched_key r) \<and> prepared (q_state q') = prepared st
    | (q', Next_End) \<Rightarrow> q_closed st \<and> eligible now (qw_ops w) st = {} \<and> q' = qw_queue w
    | (q', Next_Wait due) \<Rightarrow> \<not> q_closed st \<and> eligible now (qw_ops w) st = {} \<and> q' = qw_queue w
        \<and> (\<forall>r \<in> snd ` set (delayed st). \<exists>d. due = Some d \<and> now < d \<and> eligible d (qw_ops w) st \<noteq> {}
             \<and> (\<exists>wake. wake_at (qw_ops w) r = Some wake \<and> d \<le> wake))"
proof -
  have inv: "queue_inv (q_state (qw_queue w))"
    using queue_run_inv [OF assms(1), of calls ops tabs] assms(2) by (simp add: queue_world_inv_def)
  obtain q' res where call: "queue_next now (qw_ops w) (qw_queue w) = (q', res)" by fastforce
  show ?thesis using next_result [OF call inv] wait_is_bounded [OF _ inv] call assms(3)
    by (cases res) fastforce+
qed

theorem writer_takes_the_most_urgent_witness:
  "queue_next 10 (\<lambda>_. example_op) (qw_queue (queue_run [example_push] (\<lambda>_. example_op) Map.empty example_queue))
     = (qw_queue (queue_run [example_push] (\<lambda>_. example_op) Map.empty example_queue), Next_Wait (Some 50))
   \<and> \<not> q_closed (q_state (qw_queue (queue_run [example_push] (\<lambda>_. example_op) Map.empty example_queue)))"
proof -
  have call: "queue_next 10 (\<lambda>_. example_op) (qw_queue (queue_run [example_push] (\<lambda>_. example_op) Map.empty example_queue))
     = (qw_queue (queue_run [example_push] (\<lambda>_. example_op) Map.empty example_queue), Next_Wait (Some 50))"
    unfolding example_history
    by (simp add: queue_next_def pop_ready_def wake_at_def example_request_def example_op_defs op_deadline_def
        is_none_or_def upd_queue_def example_queue_def heap_pop_def heap_new_def get_def list_min_def map_filter_def)
  show ?thesis
    using writer_takes_the_most_urgent [OF example_queue_new, where now = 10 and calls = "[example_push]"
        and ops = "\<lambda>_. example_op" and tabs = Map.empty, OF refl refl] call
    by (simp add: example_history)
qed

text \<open>C17. Closing is final: once a queue is closed it stays closed and accepts no request, whatever is called
  afterwards, so what it still holds only drains.\<close>

theorem closed_queue_accepts_nothing:
  assumes "queue_new max_permits max_tasks max_bytes1 = Inr q"
    and "q_closed (q_state (qw_queue (queue_run calls ops tabs q)))"
  shows "q_closed (q_state (qw_queue (queue_run (calls @ more_calls) ops tabs q)))
    \<and> qw_entered (queue_run (calls @ more_calls) ops tabs q) = qw_entered (queue_run calls ops tabs q)"
proof -
  have "closed_history (queue_run calls ops tabs q) = Some (qw_entered (queue_run calls ops tabs q))"
    using assms(2) by (simp add: closed_history_def)
  from wq.decided_run [OF queue_run_inv [OF assms(1)] this, of more_calls]
  show ?thesis by (simp add: queue_run_def closed_history_def split: if_split_asm)
qed

theorem closed_queue_accepts_nothing_witness:
  "qw_entered (queue_run ([Call_Close] @ [example_push]) (\<lambda>_. example_op) Map.empty example_queue) = []"
  using closed_queue_accepts_nothing [OF example_queue_new, where calls = "[Call_Close]" and more_calls = "[example_push]"
      and ops = "\<lambda>_. example_op" and tabs = Map.empty]
  by (simp add: queue_run_def queue_close_def upd_queue_def)

text \<open>C18. Draining a queue empties it: the call returns every request the queue holds, each completed, and
  returns exactly the permits that these requests hold, each once.\<close>

theorem drain_completes_everything:
  assumes "queue_new max_permits max_tasks max_bytes1 = Inr q"
    and "w = queue_run calls ops tabs q"
    and "drain_with_error env e (qw_ops w) (qw_tabs w) (qw_queue w) = (ops', tabs', q', effects, rs)"
  shows "tokens (q_state q') = [] \<and> map dispatch_cancel rs = tokens (q_state (qw_queue w)) \<and> (\<forall>r \<in> set rs. completed r)
    \<and> released effects = concat (map owes (held (q_state (qw_queue w))))"
proof -
  have "queue_inv (q_state (qw_queue w))"
    using queue_run_inv [OF assms(1), of calls ops tabs] assms(2) by (simp add: queue_world_inv_def)
  then show ?thesis using drain_progress(2,3) [OF _ assms(3)] drain_released [OF assms(3)] by simp
qed

theorem drain_completes_everything_witness:
  "\<exists>ops' tabs' q' effects rs.
     drain_with_error (\<lambda>_. example_env) (from_kind K_Closed) (\<lambda>_. example_op) Map.empty
       (qw_queue (queue_run [example_push] (\<lambda>_. example_op) Map.empty example_queue)) = (ops', tabs', q', effects, rs)
     \<and> map dispatch_cancel rs = [8] \<and> released effects = [30, 31]"
proof -
  obtain ops' tabs' q' effects rs where d: "drain_with_error (\<lambda>_. example_env) (from_kind K_Closed) (\<lambda>_. example_op) Map.empty
       (qw_queue (queue_run [example_push] (\<lambda>_. example_op) Map.empty example_queue)) = (ops', tabs', q', effects, rs)"
    by (metis prod_cases5)
  have "map dispatch_cancel rs = [8] \<and> released effects = [30, 31]"
    using drain_completes_everything [OF example_queue_new, where calls = "[example_push]" and ops = "\<lambda>_. example_op"
        and tabs = Map.empty, OF refl, of "\<lambda>_. example_env" "from_kind K_Closed"] d
    unfolding example_history
    by (simp add: tokens_def held_def owes_def permits_of_def example_request_def upd_queue_def
        example_queue_def heap_new_def)
  then show ?thesis unfolding d by simp
qed

end
