(* ===== verification/Ws_Config.thy ===== *)
theory Ws_Config
  imports Ws_Operation
begin

text \<open>
  The configuration of a WebSocket client: \<open>src/api/ws/config.rs\<close>, with the validation that precedes the
  creation of a client. The largest number of permits of the runtime's semaphore is the argument
  \<open>max_permits\<close>, and each deadline check reads the clock once. The platform is Linux: both keepalive
  durations are checked in seconds.
\<close>

section \<open>Queues and dispatch\<close>

record queue_limits =
  commands :: usize
  io_events :: usize
  normal :: queue_limit
  urgent :: queue_limit

definition queue_limits_default :: queue_limits where
  "queue_limits_default = \<lparr>commands = 128, io_events = 128,
     normal = \<lparr>max_items = 1024, max_bytes = 16 * 1024 * 1024\<rparr>, urgent = \<lparr>max_items = 64, max_bytes = 1024 * 1024\<rparr>\<rparr>"

definition queue_limits_validate :: "usize \<Rightarrow> queue_limits \<Rightarrow> (unit, net_error) result" where
  "queue_limits_validate max_permits self =
     try_bind (permits max_permits (commands self) ''queues.commands'') (\<lambda>_.
     try_bind (permits max_permits (io_events self) ''queues.io_events'') (\<lambda>_.
     try_bind (queue_limit_validate_fields max_permits (normal self) ''queues.normal.max_items'' ''queues.normal.max_bytes'') (\<lambda>_.
       queue_limit_validate_fields max_permits (urgent self) ''queues.urgent.max_items'' ''queues.urgent.max_bytes'')))"

record dispatch_limits =
  incoming :: queue_limit
  message_subscriptions :: usize
  message_deliveries :: usize
  message_callback_workers :: usize
  state_subscriptions :: usize
  state_callback_workers :: usize
  event_subscriptions :: usize
  event_callback_workers :: usize
  task_subscriptions :: usize
  task_callback_workers :: usize
  task_events :: queue_limit
  blocking_handshake_jobs :: usize

definition dispatch_limits_default :: dispatch_limits where
  "dispatch_limits_default = \<lparr>incoming = \<lparr>max_items = 256, max_bytes = 64 * 1024 * 1024\<rparr>,
     message_subscriptions = 64, message_deliveries = 1024, message_callback_workers = 1,
     state_subscriptions = 64, state_callback_workers = 2, event_subscriptions = 64, event_callback_workers = 2,
     task_subscriptions = 64, task_callback_workers = 2,
     task_events = \<lparr>max_items = 1024, max_bytes = 16 * 1024 * 1024\<rparr>, blocking_handshake_jobs = 8\<rparr>"

definition MAX_FIXED_CALLBACK_WORKERS :: usize where
  "MAX_FIXED_CALLBACK_WORKERS = 256"

text \<open>A loop \<open>for x in xs { check(x)?; }\<close>.\<close>

fun check_all :: "('a \<Rightarrow> (unit, net_error) result) \<Rightarrow> 'a list \<Rightarrow> (unit, net_error) result" where
  "check_all f [] = Inr ()"
| "check_all f (x # xs) = try_bind (f x) (\<lambda>_. check_all f xs)"

definition check_workers :: "usize \<times> string \<Rightarrow> (unit, net_error) result" where
  "check_workers = (\<lambda>(v, fld).
     if v = 0 \<or> MAX_FIXED_CALLBACK_WORKERS < v then Inl (config fld ''must be between 1 and 256'') else Inr ())"

definition dispatch_limits_validate :: "usize \<Rightarrow> dispatch_limits \<Rightarrow> (unit, net_error) result" where
  "dispatch_limits_validate max_permits self =
     try_bind (queue_limit_validate_fields max_permits (incoming self)
                 ''dispatch.incoming.max_items'' ''dispatch.incoming.max_bytes'') (\<lambda>_.
     try_bind (check_all (\<lambda>(v, fld). permits max_permits v fld)
       [(message_subscriptions self, ''dispatch.message_subscriptions''),
        (message_deliveries self, ''dispatch.message_deliveries''),
        (message_callback_workers self, ''dispatch.message_callback_workers''),
        (state_subscriptions self, ''dispatch.state_subscriptions''),
        (event_subscriptions self, ''dispatch.event_subscriptions''),
        (task_subscriptions self, ''dispatch.task_subscriptions''),
        (blocking_handshake_jobs self, ''dispatch.blocking_handshake_jobs'')]) (\<lambda>_.
     try_bind (check_all check_workers
       [(state_callback_workers self, ''dispatch.state_callback_workers''),
        (event_callback_workers self, ''dispatch.event_callback_workers''),
        (task_callback_workers self, ''dispatch.task_callback_workers'')]) (\<lambda>_.
       queue_limit_validate_fields max_permits (task_events self)
         ''dispatch.task_events.max_items'' ''dispatch.task_events.max_bytes'')))"

section \<open>Frames\<close>

record frame_config =
  data_frame_payload_size :: "usize option"
  control_write_timeout :: duration
  data_frame_write_timeout :: duration
  read_buffer_size :: usize
  write_buffer_size :: usize
  max_write_buffer_size :: usize
  max_message_size :: "usize option"
  max_frame_size :: "usize option"

definition MIN_DATA_FRAME_PAYLOAD_SIZE :: usize where
  "MIN_DATA_FRAME_PAYLOAD_SIZE = 1024"

definition DEFAULT_DATA_FRAME_PAYLOAD_SIZE :: usize where
  "DEFAULT_DATA_FRAME_PAYLOAD_SIZE = 32 * 1024"

definition MAX_CLIENT_FRAME_OVERHEAD :: usize where
  "MAX_CLIENT_FRAME_OVERHEAD = 14"

definition NANOS_PER_MILLI :: nat where
  "NANOS_PER_MILLI = 1000000"

definition frame_config_default :: frame_config where
  "frame_config_default = \<lparr>data_frame_payload_size = Some DEFAULT_DATA_FRAME_PAYLOAD_SIZE,
     control_write_timeout = 1500 * NANOS_PER_MILLI, data_frame_write_timeout = 1500 * NANOS_PER_MILLI,
     read_buffer_size = 128 * 1024, write_buffer_size = 128 * 1024, max_write_buffer_size = 4 * 1024 * 1024,
     max_message_size = Some (64 * 1024 * 1024), max_frame_size = Some (16 * 1024 * 1024)\<rparr>"

definition allocation_size :: "usize \<Rightarrow> string \<Rightarrow> bool \<Rightarrow> (unit, net_error) result" where
  "allocation_size v fld allow_zero =
     try_bind (if \<not> allow_zero then positive v fld else Inr ()) (\<lambda>_.
       if ISIZE_MAX < v then Inl (config fld ''must not exceed isize::MAX for a byte allocation'') else Inr ())"

definition validate_outgoing_payload :: "frame_config \<Rightarrow> usize \<Rightarrow> (unit, net_error) result" where
  "validate_outgoing_payload self payload =
     (case usize_checked_add payload MAX_CLIENT_FRAME_OVERHEAD of
        Some required \<Rightarrow>
          (if required \<le> max_write_buffer_size self then Inr ()
           else Inl (config ''frames.max_write_buffer_size'' ''must hold one outgoing frame payload and its 14-byte header''))
      | None \<Rightarrow>
          Inl (config ''frames.max_write_buffer_size'' ''must hold one outgoing frame payload and its 14-byte header''))"

definition frame_config_validate :: "clock \<Rightarrow> frame_config \<Rightarrow> (unit, net_error) result" where
  "frame_config_validate clk self =
     try_bind (deadline_check (clk 0) (control_write_timeout self) ''frames.control_write_timeout'' False) (\<lambda>_.
     try_bind (deadline_check (clk 1) (data_frame_write_timeout self) ''frames.data_frame_write_timeout'' False) (\<lambda>_.
     try_bind (allocation_size (read_buffer_size self) ''frames.read_buffer_size'' False) (\<lambda>_.
     try_bind (allocation_size (write_buffer_size self) ''frames.write_buffer_size'' True) (\<lambda>_.
     try_bind (allocation_size (max_write_buffer_size self) ''frames.max_write_buffer_size'' False) (\<lambda>_.
     try_bind (if max_write_buffer_size self \<le> write_buffer_size self
               then Inl (config ''frames.max_write_buffer_size'' ''must exceed frames.write_buffer_size'')
               else Inr ()) (\<lambda>_.
     try_bind (check_all (\<lambda>(limit, fld). case limit of None \<Rightarrow> Inr () | Some size1 \<Rightarrow> allocation_size size1 fld False)
       [(max_message_size self, ''frames.max_message_size''), (max_frame_size self, ''frames.max_frame_size'')]) (\<lambda>_.
       case data_frame_payload_size self of
         None \<Rightarrow> Inr ()
       | Some size1 \<Rightarrow>
           if size1 < MIN_DATA_FRAME_PAYLOAD_SIZE
              \<or> is_none_or (usize_checked_add size1 MAX_CLIENT_FRAME_OVERHEAD) (\<lambda>s. ISIZE_MAX < s)
           then Inl (config ''frames.data_frame_payload_size''
                  ''must be at least 1024 bytes and leave room for the frame header within isize::MAX'')
           else validate_outgoing_payload self size1)))))))"

section \<open>Sockets\<close>

record tcp_keepalive_config =
  keepalive_idle :: duration
  keepalive_interval :: duration

record tcp_config =
  nodelay :: bool
  send_buffer_size :: "usize option"
  keepalive :: "tcp_keepalive_config option"

definition I32_MAX :: nat where
  "I32_MAX = 2 ^ 31 - 1"

definition tcp_keepalive_config_default :: tcp_keepalive_config where
  "tcp_keepalive_config_default = \<lparr>keepalive_idle = 5 * NANOS_PER_SEC, keepalive_interval = 2 * NANOS_PER_SEC\<rparr>"

definition tcp_config_default :: tcp_config where
  "tcp_config_default = \<lparr>nodelay = True, send_buffer_size = None, keepalive = None\<rparr>"

definition native_keepalive_duration :: "duration \<Rightarrow> string \<Rightarrow> (unit, net_error) result" where
  "native_keepalive_duration v fld =
     (let secs = v div NANOS_PER_SEC
      in if secs = 0 \<or> I32_MAX < secs then Inl (config fld ''must be at least one second and fit i32 seconds'') else Inr ())"

definition tcp_keepalive_validate :: "tcp_keepalive_config \<Rightarrow> (unit, net_error) result" where
  "tcp_keepalive_validate self =
     try_bind (nonzero_duration (keepalive_idle self) ''tcp.keepalive.idle'') (\<lambda>_.
     try_bind (nonzero_duration (keepalive_interval self) ''tcp.keepalive.interval'') (\<lambda>_.
     try_bind (native_keepalive_duration (keepalive_idle self) ''tcp.keepalive.idle'') (\<lambda>_.
       native_keepalive_duration (keepalive_interval self) ''tcp.keepalive.interval'')))"

definition tcp_config_validate :: "tcp_config \<Rightarrow> (unit, net_error) result" where
  "tcp_config_validate self =
     try_bind (case send_buffer_size self of
                 None \<Rightarrow> Inr ()
               | Some size1 \<Rightarrow>
                   if size1 = 0 \<or> I32_MAX < size1
                   then Inl (config ''tcp.send_buffer_size'' ''must be between 1 and i32::MAX for the native socket option'')
                   else Inr ()) (\<lambda>_.
       case keepalive self of None \<Rightarrow> Inr () | Some k \<Rightarrow> tcp_keepalive_validate k)"

section \<open>Heartbeats\<close>

record heartbeat_retry_config =
  pong_recovery_attempts :: usize
  pong_retry_interval :: duration
  ping_write_retries :: usize
  ping_write_retry_interval :: duration

record heartbeat_config =
  hb_interval :: duration
  hb_pong_timeout :: duration
  hb_retry :: heartbeat_retry_config

definition MAX_HEARTBEAT_PONG_RECOVERY_ATTEMPTS :: usize where
  "MAX_HEARTBEAT_PONG_RECOVERY_ATTEMPTS = 10"

definition MAX_HEARTBEAT_PING_WRITE_RETRIES :: usize where
  "MAX_HEARTBEAT_PING_WRITE_RETRIES = 1024"

definition heartbeat_retry_config_default :: heartbeat_retry_config where
  "heartbeat_retry_config_default = \<lparr>pong_recovery_attempts = 0, pong_retry_interval = 1500 * NANOS_PER_MILLI,
     ping_write_retries = 0, ping_write_retry_interval = 1500 * NANOS_PER_MILLI\<rparr>"

definition heartbeat_config_default :: heartbeat_config where
  "heartbeat_config_default = \<lparr>hb_interval = 20 * NANOS_PER_SEC, hb_pong_timeout = 45 * NANOS_PER_SEC,
     hb_retry = heartbeat_retry_config_default\<rparr>"

definition validate_attempts :: "instant \<Rightarrow> usize \<Rightarrow> duration \<Rightarrow> string \<Rightarrow> string \<Rightarrow> usize \<Rightarrow> (unit, net_error) result" where
  "validate_attempts now n interval attempts_field interval_field maximum =
     (if n = 0 then Inr ()
      else if maximum < n then Inl (config attempts_field (''must not exceed '' @ show_nat maximum))
      else deadline_check now interval interval_field False)"

definition heartbeat_retry_validate :: "clock \<Rightarrow> heartbeat_retry_config \<Rightarrow> (unit, net_error) result" where
  "heartbeat_retry_validate clk self =
     try_bind (validate_attempts (clk 0) (pong_recovery_attempts self) (pong_retry_interval self)
                 ''heartbeat.retry.pong_recovery_attempts'' ''heartbeat.retry.pong_retry_interval''
                 MAX_HEARTBEAT_PONG_RECOVERY_ATTEMPTS) (\<lambda>_.
       validate_attempts (clk 1) (ping_write_retries self) (ping_write_retry_interval self)
         ''heartbeat.retry.ping_write_retries'' ''heartbeat.retry.ping_write_retry_interval''
         MAX_HEARTBEAT_PING_WRITE_RETRIES)"

definition heartbeat_config_validate :: "clock \<Rightarrow> heartbeat_config \<Rightarrow> (unit, net_error) result" where
  "heartbeat_config_validate clk self =
     try_bind (deadline_check (clk 0) (hb_interval self) ''heartbeat.interval'' False) (\<lambda>_.
     try_bind (deadline_check (clk 1) (hb_pong_timeout self) ''heartbeat.pong_timeout'' False) (\<lambda>_.
       heartbeat_retry_validate (\<lambda>n. clk (n + 2)) (hb_retry self)))"

section \<open>The client\<close>

record web_socket_client_config =
  default_send_retry_policy :: ws_send_retry_policy
  default_request_retry_policy :: ws_request_retry_policy
  queues :: queue_limits
  dispatch_conf :: dispatch_limits
  requests :: request_limits
  frames :: frame_config
  tcp :: tcp_config
  heartbeat :: "heartbeat_config option"
  close_timeout :: duration

definition web_socket_client_config_default :: web_socket_client_config where
  "web_socket_client_config_default = \<lparr>default_send_retry_policy = send_no_retry,
     default_request_retry_policy = request_no_retry, queues = queue_limits_default,
     dispatch_conf = dispatch_limits_default, requests = request_limits_default, frames = frame_config_default,
     tcp = tcp_config_default, heartbeat = Some heartbeat_config_default, close_timeout = 2 * NANOS_PER_SEC\<rparr>"

definition with_default_send_retry_policy ::
  "ws_send_retry_policy \<Rightarrow> web_socket_client_config \<Rightarrow> web_socket_client_config" where
  "with_default_send_retry_policy policy self = self\<lparr>default_send_retry_policy := policy\<rparr>"

definition with_default_request_retry_policy ::
  "ws_request_retry_policy \<Rightarrow> web_socket_client_config \<Rightarrow> web_socket_client_config" where
  "with_default_request_retry_policy policy self = self\<lparr>default_request_retry_policy := policy\<rparr>"

definition client_config_validate :: "usize \<Rightarrow> clock \<Rightarrow> web_socket_client_config \<Rightarrow> (unit, net_error) result" where
  "client_config_validate max_permits clk self =
     try_bind (queue_limits_validate max_permits (queues self)) (\<lambda>_.
     try_bind (dispatch_limits_validate max_permits (dispatch_conf self)) (\<lambda>_.
     try_bind (request_limits_validate max_permits (clk 0) (requests self)) (\<lambda>_.
     try_bind (frame_config_validate (\<lambda>n. clk (n + 1)) (frames self)) (\<lambda>_.
     try_bind (tcp_config_validate (tcp self)) (\<lambda>_.
     try_bind (case heartbeat self of None \<Rightarrow> Inr () | Some hb \<Rightarrow> heartbeat_config_validate (\<lambda>n. clk (n + 3)) hb) (\<lambda>_.
     try_bind (deadline_check (clk 7) (close_timeout self) ''close_timeout'' False) (\<lambda>_.
       if data_frame_payload_size (frames self) = None
       then validate_outgoing_payload (frames self)
              (max (max_bytes (normal (queues self))) (max_bytes (urgent (queues self))))
       else Inr ())))))))"

section \<open>What is accepted\<close>

lemma try_bind_unit: "try_bind r (\<lambda>_. s) = Inr u \<longleftrightarrow> (\<exists>x. r = Inr x) \<and> s = Inr u"
  by (cases r) (auto simp: try_bind_def)

lemma permits_Inr: "permits m v fld = Inr u \<longleftrightarrow> 0 < v \<and> v \<le> m"
  by (auto simp: permits_def positive_def try_bind_def)

lemma queue_limit_Inr:
  "queue_limit_validate_fields m q a b = Inr u
     \<longleftrightarrow> 0 < max_items q \<and> max_items q \<le> m \<and> 0 < max_bytes q \<and> max_bytes q \<le> m \<and> max_bytes q \<le> U32_MAX"
  by (auto simp: queue_limit_validate_fields_def try_bind_unit permits_Inr)

lemma validate_outgoing_Inr:
  "validate_outgoing_payload f n = Inr u \<longleftrightarrow> n + MAX_CLIENT_FRAME_OVERHEAD \<le> max_write_buffer_size f
     \<and> n + MAX_CLIENT_FRAME_OVERHEAD \<le> USIZE_MAX"
  by (auto simp: validate_outgoing_payload_def usize_checked_add_def)

text \<open>What the frames of an accepted configuration need: the payload of one outgoing data frame, a fragment or a
  whole message, with its header.\<close>

definition frame_payload_bound :: "web_socket_client_config \<Rightarrow> usize" where
  "frame_payload_bound self =
     (case data_frame_payload_size (frames self) of
        Some n \<Rightarrow> n
      | None \<Rightarrow> max (max_bytes (normal (queues self))) (max_bytes (urgent (queues self))))"

lemma accepted_config:
  assumes "client_config_validate m clk self = Inr u"
  shows "queue_limit_validate_fields m (normal (queues self)) ''queues.normal.max_items'' ''queues.normal.max_bytes'' = Inr ()"
    and "queue_limit_validate_fields m (urgent (queues self)) ''queues.urgent.max_items'' ''queues.urgent.max_bytes'' = Inr ()"
    and "request_limits_validate m (clk 0) (requests self) = Inr ()"
    and "frame_payload_bound self + MAX_CLIENT_FRAME_OVERHEAD \<le> max_write_buffer_size (frames self)"
    and "heartbeat self = Some hb \<Longrightarrow> heartbeat_config_validate (\<lambda>n. clk (n + 3)) hb = Inr ()"
proof -
  note v = assms [unfolded client_config_validate_def try_bind_unit]
  show "queue_limit_validate_fields m (normal (queues self)) ''queues.normal.max_items'' ''queues.normal.max_bytes'' = Inr ()"
    "queue_limit_validate_fields m (urgent (queues self)) ''queues.urgent.max_items'' ''queues.urgent.max_bytes'' = Inr ()"
    using v by (auto simp: queue_limits_validate_def try_bind_unit)
  show "request_limits_validate m (clk 0) (requests self) = Inr ()" using v by auto
  show "heartbeat self = Some hb \<Longrightarrow> heartbeat_config_validate (\<lambda>n. clk (n + 3)) hb = Inr ()" using v by auto
  show "frame_payload_bound self + MAX_CLIENT_FRAME_OVERHEAD \<le> max_write_buffer_size (frames self)"
  proof (cases "data_frame_payload_size (frames self)")
    case None
    then show ?thesis using v by (simp add: frame_payload_bound_def validate_outgoing_Inr)
  next
    case (Some n)
    have "\<exists>u. frame_config_validate (\<lambda>n. clk (n + 1)) (frames self) = Inr u" using v by blast
    then have "\<exists>u. validate_outgoing_payload (frames self) n = Inr u"
      using Some by (auto simp: frame_config_validate_def try_bind_unit split: if_split_asm)
    then show ?thesis using Some by (auto simp: frame_payload_bound_def validate_outgoing_Inr)
  qed
qed

lemmas config_defaults =
  web_socket_client_config_default_def queue_limits_default_def dispatch_limits_default_def request_limits_default_def
  frame_config_default_def tcp_config_default_def heartbeat_config_default_def heartbeat_retry_config_default_def
  DEFAULT_DATA_FRAME_PAYLOAD_SIZE_def NANOS_PER_MILLI_def NANOS_PER_SEC_def

lemma default_config_accepted:
  assumes "\<forall>n. clk n + 100 * NANOS_PER_SEC \<le> INSTANT_MAX" and "2 ^ 26 \<le> m"
  shows "client_config_validate m clk web_socket_client_config_default = Inr ()"
proof -
  have add: "instant_checked_add (clk n) d \<noteq> None" if "d \<le> 100 * NANOS_PER_SEC" for n d
    using assms(1)[rule_format, of n] that by (auto simp: instant_checked_add_def)
  have dl: "deadline_check (clk n) d fld z = Inr ()" if "0 < d" "d \<le> 100 * NANOS_PER_SEC" for n d fld z
    using add [OF that(2), of n] that(1) by (auto simp: deadline_check_def nonzero_duration_def try_bind_def)
  have m: "v \<le> m" if "v \<le> 67108864" for v using that assms(2) by simp
  have pos: "0 < m" using assms(2) by (simp add: order_less_le_trans [of 0 "2 ^ 26"])
  show ?thesis
    by (simp add: client_config_validate_def config_defaults queue_limits_validate_def dispatch_limits_validate_def
        request_limits_validate_def frame_config_validate_def tcp_config_validate_def heartbeat_config_validate_def
        heartbeat_retry_validate_def validate_attempts_def allocation_size_def positive_def permits_def
        queue_limit_validate_fields_def try_bind_def check_workers_def MAX_FIXED_CALLBACK_WORKERS_def
        U32_MAX_def ISIZE_MAX_def USIZE_MAX_def MIN_DATA_FRAME_PAYLOAD_SIZE_def MAX_CLIENT_FRAME_OVERHEAD_def
        validate_outgoing_payload_def usize_checked_add_def is_none_or_def dl [unfolded NANOS_PER_SEC_def] m pos leD)
qed

end
