(* ===== verification/Heartbeat.thy ===== *)
theory Heartbeat
  imports Ws_Config Machine
begin

text \<open>
  The Ping/Pong heartbeat of one physical connection: \<open>src/module/ws_client/heartbeat_state.rs\<close>, the
  correlation state that the reader and the writer share, and \<open>src/module/ws_client/heartbeat_schedule.rs\<close>,
  the writer's timer. A poisoned lock is recovered, so it does not show in the state. The runtime's interval
  is a parameter: its constructor, and the value it has after a tick.
\<close>

section \<open>Payloads\<close>

definition to_be_bytes :: "u64 \<Rightarrow> u8 list" where
  "to_be_bytes w = map (\<lambda>i. ucast (drop_bit (8 * (7 - i)) w)) [0..<8]"

definition heartbeat_payload :: "u64 \<Rightarrow> u64 \<Rightarrow> u8 list" where
  "heartbeat_payload generation1 seq = to_be_bytes generation1 @ to_be_bytes seq"

section \<open>The state\<close>

datatype probe_phase = Sending | AwaitingPong instant

record outstanding_probe =
  pr_payload :: "u8 list"
  pr_pong_timeout :: duration
  pr_phase :: probe_phase

record heartbeat_state =
  generation :: u64
  next_sequence :: u64
  outstanding :: "outstanding_probe option"

datatype heartbeat_tick = SendProbe "u8 list" | Tick_Waiting | Tick_TimedOut

definition heartbeat_new :: "u64 \<Rightarrow> heartbeat_state" where
  "heartbeat_new g = \<lparr>generation = g, next_sequence = 1, outstanding = None\<rparr>"

text \<open>\<open>wrapping_add(1).max(1)\<close>.\<close>

definition bump_sequence :: "u64 \<Rightarrow> u64" where
  "bump_sequence s = max (s + 1) 1"

definition start_probe :: "duration \<Rightarrow> heartbeat_state \<Rightarrow> heartbeat_state \<times> u8 list" where
  "start_probe pong_timeout self =
     (let payload = heartbeat_payload (generation self) (next_sequence self)
      in (self\<lparr>next_sequence := bump_sequence (next_sequence self),
               outstanding := Some \<lparr>pr_payload = payload, pr_pong_timeout = pong_timeout, pr_phase = Sending\<rparr>\<rparr>,
          payload))"

definition on_tick :: "instant \<Rightarrow> duration \<Rightarrow> heartbeat_state \<Rightarrow> heartbeat_state \<times> heartbeat_tick" where
  "on_tick now pong_timeout self =
     (case outstanding self of
        Some probe \<Rightarrow>
          (case pr_phase probe of
             Sending \<Rightarrow> (self, Tick_Waiting)
           | AwaitingPong sent_at \<Rightarrow>
               if pr_pong_timeout probe \<le> saturating_duration_since now sent_at then (self, Tick_TimedOut)
               else (self, Tick_Waiting))
      | None \<Rightarrow> (let (self, payload) = start_probe pong_timeout self in (self, SendProbe payload)))"

definition start_recovery_probe :: "instant \<Rightarrow> duration \<Rightarrow> heartbeat_state \<Rightarrow> heartbeat_state \<times> u8 list option" where
  "start_recovery_probe now pong_timeout self =
     (let can_start =
            (case outstanding self of
               None \<Rightarrow> True
             | Some probe \<Rightarrow>
                 (case pr_phase probe of
                    Sending \<Rightarrow> False
                  | AwaitingPong sent_at \<Rightarrow>
                      is_some_and (instant_checked_add sent_at (pr_pong_timeout probe)) (\<lambda>d. d \<le> now)))
      in if \<not> can_start then (self, None)
         else (let (self, payload) = start_probe pong_timeout self in (self, Some payload)))"

definition has_outstanding_probe :: "heartbeat_state \<Rightarrow> bool" where
  "has_outstanding_probe self = is_some (outstanding self)"

definition mark_sent :: "u8 list \<Rightarrow> instant \<Rightarrow> heartbeat_state \<Rightarrow> heartbeat_state \<times> bool" where
  "mark_sent payload sent_at self =
     (case outstanding self of
        None \<Rightarrow> (self, False)
      | Some probe \<Rightarrow>
          if pr_payload probe \<noteq> payload \<or> pr_phase probe \<noteq> Sending then (self, False)
          else (self\<lparr>outstanding := Some (probe\<lparr>pr_phase := AwaitingPong sent_at\<rparr>)\<rparr>, True))"

definition acknowledge_pong :: "instant \<Rightarrow> u8 list \<Rightarrow> heartbeat_state \<Rightarrow> heartbeat_state \<times> bool" where
  "acknowledge_pong now payload self =
     (let matches = is_some_and (outstanding self) (\<lambda>probe.
            pr_payload probe = payload
            \<and> (case pr_phase probe of
                 Sending \<Rightarrow> True
               | AwaitingPong sent_at \<Rightarrow>
                   is_some_and (instant_checked_add sent_at (pr_pong_timeout probe)) (\<lambda>d. now < d)))
      in (if matches then self\<lparr>outstanding := None\<rparr> else self, matches))"

definition abandon_probe :: "u8 list \<Rightarrow> heartbeat_state \<Rightarrow> heartbeat_state" where
  "abandon_probe payload self =
     (if is_some_and (outstanding self) (\<lambda>probe. pr_payload probe = payload) then self\<lparr>outstanding := None\<rparr> else self)"

definition pong_deadline_locked :: "heartbeat_state \<Rightarrow> instant option" where
  "pong_deadline_locked inner =
     Option.bind (outstanding inner) (\<lambda>probe.
       case pr_phase probe of
         Sending \<Rightarrow> None
       | AwaitingPong sent_at \<Rightarrow>
           (case instant_checked_add sent_at (pr_pong_timeout probe) of
              Some d \<Rightarrow> Some d
            | None \<Rightarrow> Some sent_at))"

definition pong_deadline :: "heartbeat_state \<Rightarrow> instant option" where
  "pong_deadline self = pong_deadline_locked self"

definition is_timed_out :: "instant \<Rightarrow> heartbeat_state \<Rightarrow> bool" where
  "is_timed_out now self = is_some_and (pong_deadline_locked self) (\<lambda>d. d \<le> now)"

section \<open>The schedule\<close>

record 'i heartbeat_schedule =
  enabled :: "('i \<times> duration) option"

definition schedule_new ::
  "(instant \<Rightarrow> duration \<Rightarrow> 'i) \<Rightarrow> clock \<Rightarrow> instant \<Rightarrow> heartbeat_config option
     \<Rightarrow> ('i heartbeat_schedule, net_error) result" where
  "schedule_new interval_at clk now conf =
     (case conf of
        None \<Rightarrow> Inr \<lparr>enabled = None\<rparr>
      | Some c \<Rightarrow>
          try_bind (heartbeat_config_validate clk c) (\<lambda>_.
          try_bind (ok_or (instant_checked_add now (hb_interval c))
                      (config ''heartbeat.interval'' ''cannot represent the first heartbeat deadline'')) (\<lambda>start.
            Inr \<lparr>enabled = Some (interval_at start (hb_interval c), hb_pong_timeout c)\<rparr>)))"

text \<open>\<open>None\<close>: a disabled schedule stays pending.\<close>

definition schedule_tick :: "('i \<Rightarrow> 'i) \<Rightarrow> 'i heartbeat_schedule \<Rightarrow> ('i heartbeat_schedule \<times> duration) option" where
  "schedule_tick interval_tick self =
     (case enabled self of
        Some (i, timeout) \<Rightarrow> Some (self\<lparr>enabled := Some (interval_tick i, timeout)\<rparr>, timeout)
      | None \<Rightarrow> None)"

section \<open>Bytes\<close>

text \<open>\<open>u64::from_be_bytes\<close> of the standard library, the inverse of \<open>to_be_bytes\<close>: payloads of different probes
  differ because their bytes determine the two numbers.\<close>

definition from_be_bytes :: "u8 list \<Rightarrow> u64" where
  "from_be_bytes bs = fold (\<lambda>b acc. or (push_bit 8 acc) (ucast b)) bs 0"

lemma to_be_bytes_length [simp]: "length (to_be_bytes w) = 8"
  by (simp add: to_be_bytes_def)

lemma be_step: "or (push_bit 8 (drop_bit (k + 8) w)) (ucast (ucast (drop_bit k w) :: u8)) = drop_bit k (w :: u64)"
proof (rule bit_eqI)
  fix n
  have "k + 8 + (n - 8) = k + n" if "8 \<le> n" using that by simp
  then show "bit (or (push_bit 8 (drop_bit (k + 8) w)) (ucast (ucast (drop_bit k w) :: u8))) n = bit (drop_bit k w) n"
    by (cases "8 \<le> n") (auto simp: bit_or_iff bit_push_bit_iff bit_ucast_iff bit_drop_bit_eq dest: bit_imp_le_length)
qed

lemma be_first: "ucast (ucast (drop_bit 56 w) :: u8) = drop_bit 56 (w :: u64)"
proof -
  have "drop_bit 64 w = 0" by (rule bit_eqI) (auto simp: bit_drop_bit_eq dest: bit_imp_le_length)
  then show ?thesis using be_step [of 56 w] by simp
qed

lemma be_bytes_inverse: "from_be_bytes (to_be_bytes w) = w"
proof -
  have "to_be_bytes w = [ucast (drop_bit 56 w), ucast (drop_bit 48 w), ucast (drop_bit 40 w), ucast (drop_bit 32 w),
      ucast (drop_bit 24 w), ucast (drop_bit 16 w), ucast (drop_bit 8 w), ucast (drop_bit 0 w)]"
    by (simp add: to_be_bytes_def upt_conv_Cons)
  then show ?thesis
    using be_step [of 48 w] be_step [of 40 w] be_step [of 32 w] be_step [of 24 w] be_step [of 16 w] be_step [of 8 w]
      be_step [of 0 w] be_first [of w]
    by (simp add: from_be_bytes_def)
qed

lemma payload_inject: "heartbeat_payload g s = heartbeat_payload g' s' \<longleftrightarrow> g = g' \<and> s = s'"
  using be_bytes_inverse by (auto simp: heartbeat_payload_def) metis+

section \<open>Histories\<close>

datatype heartbeat_call =
    Beat_Tick instant duration
  | Beat_Recover instant duration
  | Beat_Sent "u8 list" instant
  | Beat_Pong instant "u8 list"
  | Beat_Abandon "u8 list"

text \<open>The state with the payloads of the probes it started.\<close>

record beat_world =
  beat :: heartbeat_state
  issued :: "u8 list list"

fun beat_step :: "heartbeat_call \<Rightarrow> beat_world \<Rightarrow> beat_world" where
  "beat_step (Beat_Tick now d) w =
     (case on_tick now d (beat w) of
        (s, SendProbe p) \<Rightarrow> w\<lparr>beat := s, issued := issued w @ [p]\<rparr>
      | (s, _) \<Rightarrow> w\<lparr>beat := s\<rparr>)"
| "beat_step (Beat_Recover now d) w =
     (case start_recovery_probe now d (beat w) of
        (s, Some p) \<Rightarrow> w\<lparr>beat := s, issued := issued w @ [p]\<rparr>
      | (s, None) \<Rightarrow> w\<lparr>beat := s\<rparr>)"
| "beat_step (Beat_Sent p sent_at) w = w\<lparr>beat := fst (mark_sent p sent_at (beat w))\<rparr>"
| "beat_step (Beat_Pong now p) w = w\<lparr>beat := fst (acknowledge_pong now p (beat w))\<rparr>"
| "beat_step (Beat_Abandon p) w = w\<lparr>beat := abandon_probe p (beat w)\<rparr>"

definition beat_inv :: "u64 \<Rightarrow> beat_world \<Rightarrow> bool" where
  "beat_inv g w \<longleftrightarrow> generation (beat w) = g
     \<and> issued w = map (\<lambda>i. heartbeat_payload g ((bump_sequence ^^ i) 1)) [0..<length (issued w)]
     \<and> next_sequence (beat w) = (bump_sequence ^^ length (issued w)) 1
     \<and> (\<forall>p. outstanding (beat w) = Some p \<longrightarrow> issued w \<noteq> [] \<and> pr_payload p = last (issued w))"

lemma beat_inv_issue:
  assumes "beat_inv g w" and "start_probe d (beat w) = (s, p)"
  shows "beat_inv g (w\<lparr>beat := s, issued := issued w @ [p]\<rparr>)"
  using assms by (auto simp: beat_inv_def start_probe_def Let_def)

lemma beat_inv_keep:
  assumes "beat_inv g w" and "generation s = generation (beat w)" "next_sequence s = next_sequence (beat w)"
    and "\<And>p. outstanding s = Some p \<Longrightarrow> \<exists>q. outstanding (beat w) = Some q \<and> pr_payload p = pr_payload q"
  shows "beat_inv g (w\<lparr>beat := s\<rparr>)"
  using assms by (fastforce simp: beat_inv_def)

lemma beat_inv_step:
  assumes inv: "beat_inv g w"
  shows "beat_inv g (beat_step c w)"
proof (cases c)
  case (Beat_Tick now d)
  obtain s p where sp: "start_probe d (beat w) = (s, p)" by fastforce
  show ?thesis using Beat_Tick sp beat_inv_issue [OF inv sp] inv
    by (auto simp: on_tick_def split: option.split probe_phase.split)
next
  case (Beat_Recover now d)
  obtain s p where sp: "start_probe d (beat w) = (s, p)" by fastforce
  show ?thesis using Beat_Recover sp beat_inv_issue [OF inv sp] inv
    by (auto simp: start_recovery_probe_def Let_def)
next
  case (Beat_Sent p sent_at)
  then show ?thesis by (auto simp: mark_sent_def split: option.split intro: inv intro!: beat_inv_keep [OF inv])
next
  case (Beat_Pong now p)
  then show ?thesis by (auto simp: acknowledge_pong_def Let_def intro: inv intro!: beat_inv_keep [OF inv])
next
  case (Beat_Abandon p)
  then show ?thesis by (auto simp: abandon_probe_def intro: inv intro!: beat_inv_keep [OF inv])
qed

interpretation hb: machine beat_step "beat_inv g" for g
  by unfold_locales (rule beat_inv_step)

definition beat_run :: "u64 \<Rightarrow> heartbeat_call list \<Rightarrow> beat_world" where
  "beat_run g cs = fold beat_step cs \<lparr>beat = heartbeat_new g, issued = []\<rparr>"

lemma beat_run_inv: "beat_inv g (beat_run g cs)"
  unfolding beat_run_def by (rule hb.inv_run) (simp add: beat_inv_def heartbeat_new_def)

text \<open>The sequence numbers of the first \<open>2 ^ 64 - 1\<close> probes are \<open>1, 2, \<dots>\<close>.\<close>

lemma bump_sequence_nat:
  "n < 2 ^ 64 - 1 \<Longrightarrow> unat ((bump_sequence ^^ n) 1) = n + 1"
proof (induction n)
  case (Suc n)
  define s where "s = (bump_sequence ^^ n) 1"
  have s: "unat s = n + 1" using Suc by (simp add: s_def)
  then have "unat (s + 1) = n + 2" using Suc.prems by (simp add: unat_word_ariths)
  then have "1 \<le> s + 1" by (simp add: word_le_nat_alt)
  then have "bump_sequence s = s + 1" by (simp add: bump_sequence_def max_def)
  then show ?case using \<open>unat (s + 1) = n + 2\<close> by (simp add: s_def)
qed simp

lemma issued_distinct:
  assumes "beat_inv g w" and "length (issued w) < 2 ^ 64"
  shows "distinct (issued w)"
proof -
  have "inj_on (\<lambda>i. heartbeat_payload g ((bump_sequence ^^ i) 1)) (set [0..<length (issued w)])"
  proof (rule inj_onI)
    fix i j
    assume ij: "i \<in> set [0..<length (issued w)]" "j \<in> set [0..<length (issued w)]"
      and eq: "heartbeat_payload g ((bump_sequence ^^ i) 1) = heartbeat_payload g ((bump_sequence ^^ j) 1)"
    have "i < 2 ^ 64 - 1" "j < 2 ^ 64 - 1" using ij assms(2) by auto
    then have "i + 1 = j + 1" using eq bump_sequence_nat unfolding payload_inject by metis
    then show "i = j" by simp
  qed
  then have "distinct (map (\<lambda>i. heartbeat_payload g ((bump_sequence ^^ i) 1)) [0..<length (issued w)])"
    by (simp add: distinct_map)
  then show ?thesis using assms(1) by (simp add: beat_inv_def)
qed

lemma other_payload_inert:
  assumes "\<And>p. outstanding s = Some p \<Longrightarrow> pr_payload p \<noteq> payload"
  shows "acknowledge_pong now payload s = (s, False)" "mark_sent payload t s = (s, False)" "abandon_probe payload s = s"
  using assms by (auto simp: acknowledge_pong_def mark_sent_def abandon_probe_def is_some_and_def split: option.split)

section \<open>Properties\<close>

text \<open>C21. The four places that compare a probe with its deadline agree, although they compute it differently: at
  every instant, for a probe whose deadline the clock can represent, the tick reports a timeout exactly when the
  deadline check does, exactly when a recovery probe may replace it, and exactly when its own Pong is refused. While
  the probe is being written none of them holds.\<close>

theorem deadline_checks_agree:
  assumes "outstanding s = Some probe" and "0 < pr_pong_timeout probe"
    and "\<And>sent_at. pr_phase probe = AwaitingPong sent_at \<Longrightarrow> sent_at + pr_pong_timeout probe \<le> INSTANT_MAX"
  shows "is_timed_out now s = (case pr_phase probe of
           Sending \<Rightarrow> False | AwaitingPong sent_at \<Rightarrow> sent_at + pr_pong_timeout probe \<le> now)
    \<and> (snd (on_tick now d s) = Tick_TimedOut) = is_timed_out now s
    \<and> (snd (start_recovery_probe now d s) \<noteq> None) = is_timed_out now s
    \<and> (\<not> snd (acknowledge_pong now (pr_payload probe) s)) = is_timed_out now s"
proof (cases "pr_phase probe")
  case Sending
  then show ?thesis using assms(1)
    by (simp add: on_tick_def start_recovery_probe_def acknowledge_pong_def is_timed_out_def pong_deadline_locked_def is_some_and_def Let_def)
next
  case (AwaitingPong sent_at)
  have add: "instant_checked_add sent_at (pr_pong_timeout probe) = Some (sent_at + pr_pong_timeout probe)"
    using assms(3) [OF AwaitingPong] by (simp add: instant_checked_add_def)
  have sat: "pr_pong_timeout probe \<le> saturating_duration_since now sent_at \<longleftrightarrow> sent_at + pr_pong_timeout probe \<le> now"
    using assms(2) by (simp add: saturating_duration_since_ge)
  have "is_timed_out now s = (sent_at + pr_pong_timeout probe \<le> now)"
    using assms(1) AwaitingPong add by (simp add: is_timed_out_def pong_deadline_locked_def is_some_and_def)
  moreover have "(snd (on_tick now d s) = Tick_TimedOut) = (sent_at + pr_pong_timeout probe \<le> now)"
    using assms(1) AwaitingPong sat by (simp add: on_tick_def)
  moreover have "(snd (start_recovery_probe now d s) \<noteq> None) = (sent_at + pr_pong_timeout probe \<le> now)"
    using assms(1) AwaitingPong add by (simp add: start_recovery_probe_def is_some_and_def case_prod_beta)
  moreover have "(\<not> snd (acknowledge_pong now (pr_payload probe) s)) = (sent_at + pr_pong_timeout probe \<le> now)"
    using assms(1) AwaitingPong add by (simp add: acknowledge_pong_def is_some_and_def not_less Let_def)
  ultimately show ?thesis using AwaitingPong by simp
qed

definition example_probe :: outstanding_probe where
  "example_probe = \<lparr>pr_payload = [5], pr_pong_timeout = 20, pr_phase = AwaitingPong 30\<rparr>"

theorem deadline_checks_agree_witness:
  "is_timed_out 50 \<lparr>generation = 3, next_sequence = 2, outstanding = Some example_probe\<rparr>
   \<and> \<not> is_timed_out 49 \<lparr>generation = 3, next_sequence = 2, outstanding = Some example_probe\<rparr>
   \<and> snd (acknowledge_pong 49 [5] \<lparr>generation = 3, next_sequence = 2, outstanding = Some example_probe\<rparr>)"
  using deadline_checks_agree [where s = "\<lparr>generation = 3, next_sequence = 2, outstanding = Some example_probe\<rparr>"
      and probe = example_probe and now = 50 and d = 20]
    deadline_checks_agree [where s = "\<lparr>generation = 3, next_sequence = 2, outstanding = Some example_probe\<rparr>"
      and probe = example_probe and now = 49 and d = 20]
  by (auto simp: example_probe_def INSTANT_MAX_def NANOS_PER_SEC_def)

text \<open>C20. In every history of ticks, recoveries, writes, Pongs and failures of one connection that starts fewer
  than \<open>2 ^ 64\<close> probes, no payload is used twice, and a payload other than the one of the latest probe, be it an earlier
  one or one of another generation, can neither acknowledge, nor mark as sent, nor abandon a probe.\<close>

theorem stale_payload_is_inert:
  assumes "length (issued (beat_run g cs)) < 2 ^ 64"
    and "payload \<in> set (butlast (issued (beat_run g cs))) \<or> (\<exists>g' seq. g' \<noteq> g \<and> payload = heartbeat_payload g' seq)"
  shows "distinct (issued (beat_run g cs))
    \<and> acknowledge_pong now payload (beat (beat_run g cs)) = (beat (beat_run g cs), False)
    \<and> mark_sent payload sent_at (beat (beat_run g cs)) = (beat (beat_run g cs), False)
    \<and> abandon_probe payload (beat (beat_run g cs)) = beat (beat_run g cs)"
proof -
  define w where "w = beat_run g cs"
  have inv: "beat_inv g w" unfolding w_def by (rule beat_run_inv)
  have dist: "distinct (issued w)" using issued_distinct [OF inv] assms(1) w_def by simp
  have "payload \<noteq> last (issued w)" if "issued w \<noteq> []"
  proof -
    have "distinct (butlast (issued w) @ [last (issued w)])" using dist that by simp
    moreover have "last (issued w) \<in> set (map (\<lambda>i. heartbeat_payload g ((bump_sequence ^^ i) 1)) [0..<length (issued w)])"
      using inv that last_in_set [of "issued w"] unfolding beat_inv_def by metis
    then have "\<exists>s. last (issued w) = heartbeat_payload g s" by auto
    ultimately show ?thesis using assms(2) by (auto simp: w_def payload_inject)
  qed
  then have "pr_payload p \<noteq> payload" if "outstanding (beat w) = Some p" for p
    using inv that by (auto simp: beat_inv_def)
  then show ?thesis using other_payload_inert [of "beat w" payload] dist by (simp add: w_def)
qed

theorem stale_payload_is_inert_witness:
  "issued (beat_run 3 [Beat_Tick 10 20]) = [heartbeat_payload 3 1]
   \<and> acknowledge_pong 11 (heartbeat_payload 2 1) (beat (beat_run 3 [Beat_Tick 10 20])) = (beat (beat_run 3 [Beat_Tick 10 20]), False)"
proof -
  have i: "issued (beat_run 3 [Beat_Tick 10 20]) = [heartbeat_payload 3 1]"
    by (simp add: beat_run_def on_tick_def heartbeat_new_def start_probe_def Let_def)
  have bound: "length (issued (beat_run 3 [Beat_Tick 10 20])) < 2 ^ 64" by (simp add: i)
  have "\<exists>g' seq. g' \<noteq> 3 \<and> heartbeat_payload 2 1 = heartbeat_payload g' seq"
    by (rule exI [of _ 2], rule exI [of _ 1]) simp
  then show ?thesis using stale_payload_is_inert [OF bound, of "heartbeat_payload 2 1" 11] i by blast
qed

end
