(* ===== verification/Http_Timeouts.thy ===== *)
theory Http_Timeouts
  imports Ws_Config "HOL-Library.Multiset"
begin

text \<open>
  The time budgets of HTTP operations: the settings of \<open>src/api/http/http_timeouts.rs\<close>, inherited field by
  field, and the absolute budgets of \<open>src/module/http/http_timeout.rs\<close>, of which only the earliest counts. The
  lemmas show that a budget is the earliest of all that were added, whatever the order.
\<close>

section \<open>Settings\<close>

datatype timeout_setting = Setting_Inherit | Setting_Disabled | Setting_After duration

definition setting_resolve :: "timeout_setting \<Rightarrow> timeout_setting \<Rightarrow> duration option \<Rightarrow> duration option" where
  "setting_resolve self client fallback =
     (case self of
        Setting_After d \<Rightarrow> Some d
      | Setting_Disabled \<Rightarrow> None
      | Setting_Inherit \<Rightarrow>
          (case client of
             Setting_After d \<Rightarrow> Some d
           | Setting_Disabled \<Rightarrow> None
           | Setting_Inherit \<Rightarrow> fallback))"

definition setting_explicit :: "duration option \<Rightarrow> timeout_setting" where
  "setting_explicit d = (case d of Some d \<Rightarrow> Setting_After d | None \<Rightarrow> Setting_Disabled)"

record http_timeouts =
  ts_admission :: timeout_setting
  ts_headers :: timeout_setting
  ts_idle_read :: timeout_setting
  ts_attempt :: timeout_setting
  ts_total :: timeout_setting

definition http_timeouts_new :: http_timeouts where
  "http_timeouts_new = \<lparr>ts_admission = Setting_Inherit, ts_headers = Setting_Inherit, ts_idle_read = Setting_Inherit,
     ts_attempt = Setting_Inherit, ts_total = Setting_Inherit\<rparr>"

definition with_admission_timeout :: "duration \<Rightarrow> http_timeouts \<Rightarrow> http_timeouts" where
  "with_admission_timeout d self = self\<lparr>ts_admission := Setting_After d\<rparr>"

definition with_headers_timeout :: "duration \<Rightarrow> http_timeouts \<Rightarrow> http_timeouts" where
  "with_headers_timeout d self = self\<lparr>ts_headers := Setting_After d\<rparr>"

definition with_idle_read_timeout :: "duration \<Rightarrow> http_timeouts \<Rightarrow> http_timeouts" where
  "with_idle_read_timeout d self = self\<lparr>ts_idle_read := Setting_After d\<rparr>"

definition with_attempt_timeout :: "duration \<Rightarrow> http_timeouts \<Rightarrow> http_timeouts" where
  "with_attempt_timeout d self = self\<lparr>ts_attempt := Setting_After d\<rparr>"

definition with_total_timeout :: "duration \<Rightarrow> http_timeouts \<Rightarrow> http_timeouts" where
  "with_total_timeout d self = self\<lparr>ts_total := Setting_After d\<rparr>"

definition without_admission_timeout :: "http_timeouts \<Rightarrow> http_timeouts" where
  "without_admission_timeout self = self\<lparr>ts_admission := Setting_Disabled\<rparr>"

definition without_headers_timeout :: "http_timeouts \<Rightarrow> http_timeouts" where
  "without_headers_timeout self = self\<lparr>ts_headers := Setting_Disabled\<rparr>"

definition without_idle_read_timeout :: "http_timeouts \<Rightarrow> http_timeouts" where
  "without_idle_read_timeout self = self\<lparr>ts_idle_read := Setting_Disabled\<rparr>"

definition without_attempt_timeout :: "http_timeouts \<Rightarrow> http_timeouts" where
  "without_attempt_timeout self = self\<lparr>ts_attempt := Setting_Disabled\<rparr>"

definition without_total_timeout :: "http_timeouts \<Rightarrow> http_timeouts" where
  "without_total_timeout self = self\<lparr>ts_total := Setting_Disabled\<rparr>"

text \<open>\<open>validate_duration\<close> of the HTTP module, with the clock's reading.\<close>

definition http_validate_duration :: "instant \<Rightarrow> duration \<Rightarrow> string \<Rightarrow> bool \<Rightarrow> (unit, net_error) result" where
  "http_validate_duration now d fld is_input =
     (let reason = (if d = 0 then Some ''timeout must be nonzero''
                    else if instant_checked_add now d = None then Some ''timeout exceeds the monotonic clock range''
                    else None)
      in case reason of
           Some r \<Rightarrow> if is_input then Inl (input fld r) else Inl (config fld r)
         | None \<Rightarrow> Inr ())"

definition validate_with :: "clock \<Rightarrow> bool \<Rightarrow> http_timeouts \<Rightarrow> (unit, net_error) result" where
  "validate_with clk is_input self =
     check_all (\<lambda>(now, fld, setting).
         case setting of Setting_After d \<Rightarrow> http_validate_duration now d fld is_input | _ \<Rightarrow> Inr ())
       [(clk 0, ''http.timeouts.admission'', ts_admission self),
        (clk 1, ''http.timeouts.headers'', ts_headers self),
        (clk 2, ''http.timeouts.idle_read'', ts_idle_read self),
        (clk 3, ''http.timeouts.attempt'', ts_attempt self),
        (clk 4, ''http.timeouts.total'', ts_total self)]"

definition timeouts_validate :: "clock \<Rightarrow> http_timeouts \<Rightarrow> (unit, net_error) result" where
  "timeouts_validate clk self = validate_with clk False self"

definition validate_request :: "clock \<Rightarrow> http_timeouts \<Rightarrow> (unit, net_error) result" where
  "validate_request clk self = validate_with clk True self"

record resolved_timeouts =
  rt_admission :: "duration option"
  rt_headers :: "duration option"
  rt_idle_read :: "duration option"
  rt_attempt :: "duration option"
  rt_total :: "duration option"

definition as_overrides :: "resolved_timeouts \<Rightarrow> http_timeouts" where
  "as_overrides self = \<lparr>ts_admission = setting_explicit (rt_admission self), ts_headers = setting_explicit (rt_headers self),
     ts_idle_read = setting_explicit (rt_idle_read self), ts_attempt = setting_explicit (rt_attempt self),
     ts_total = setting_explicit (rt_total self)\<rparr>"

definition DEFAULT_HTTP_ADMISSION_TIMEOUT :: duration where
  "DEFAULT_HTTP_ADMISSION_TIMEOUT = 30 * NANOS_PER_SEC"

definition timeouts_resolve ::
  "clock \<Rightarrow> http_timeouts \<Rightarrow> http_timeouts \<Rightarrow> duration \<Rightarrow> (resolved_timeouts, net_error) result" where
  "timeouts_resolve clk self req legacy_timeout =
     try_bind (timeouts_validate clk self) (\<lambda>_.
     try_bind (validate_request (\<lambda>n. clk (n + 5)) req) (\<lambda>_.
     try_bind (http_validate_duration (clk 10) legacy_timeout ''http.timeout'' False) (\<lambda>_.
       let resolved = \<lparr>rt_admission = setting_resolve (ts_admission req) (ts_admission self) (Some DEFAULT_HTTP_ADMISSION_TIMEOUT),
             rt_headers = setting_resolve (ts_headers req) (ts_headers self) None,
             rt_idle_read = setting_resolve (ts_idle_read req) (ts_idle_read self) None,
             rt_attempt = setting_resolve (ts_attempt req) (ts_attempt self) (Some legacy_timeout),
             rt_total = setting_resolve (ts_total req) (ts_total self) None\<rparr>
       in try_bind (timeouts_validate (\<lambda>n. clk (n + 11)) (as_overrides resolved)) (\<lambda>_. Inr resolved))))"

section \<open>Budgets\<close>

record http_budget =
  hb_earliest :: "(instant \<times> http_timeout_phase) option"

definition http_budget_default :: http_budget where
  "http_budget_default = \<lparr>hb_earliest = None\<rparr>"

fun phase_priority :: "http_timeout_phase \<Rightarrow> nat" where
  "phase_priority Ht_Total = 0"
| "phase_priority Ht_Admission = 1"
| "phase_priority Ht_Attempt = 2"
| "phase_priority Ht_Connect = 3"
| "phase_priority Ht_Headers = 4"
| "phase_priority Ht_IdleRead = 5"

fun phase_field :: "http_timeout_phase \<Rightarrow> string" where
  "phase_field Ht_Total = ''http.timeouts.total''"
| "phase_field Ht_Admission = ''http.timeouts.admission''"
| "phase_field Ht_Attempt = ''http.timeouts.attempt''"
| "phase_field Ht_Connect = ''http.connect_timeout''"
| "phase_field Ht_Headers = ''http.timeouts.headers''"
| "phase_field Ht_IdleRead = ''http.timeouts.idle_read''"

text \<open>The comparison \<open>(a, priority(p)) <= (b, priority(q))\<close> of the source.\<close>

definition due_le :: "instant \<times> http_timeout_phase \<Rightarrow> instant \<times> http_timeout_phase \<Rightarrow> bool" where
  "due_le x y \<longleftrightarrow> fst x < fst y \<or> (fst x = fst y \<and> phase_priority (snd x) \<le> phase_priority (snd y))"

definition with_phase ::
  "instant \<Rightarrow> duration option \<Rightarrow> http_timeout_phase \<Rightarrow> http_budget \<Rightarrow> (http_budget, net_error) result" where
  "with_phase start d p self =
     (case d of
        None \<Rightarrow> Inr self
      | Some d \<Rightarrow>
          if d = 0 then Inl (config (phase_field p) ''timeout must be nonzero'')
          else (case instant_checked_add start d of
                  None \<Rightarrow> Inl (config (phase_field p) ''timeout exceeds the monotonic clock range'')
                | Some due \<Rightarrow>
                    (case hb_earliest self of
                       Some current \<Rightarrow>
                         if due_le current (due, p) then Inr self else Inr \<lparr>hb_earliest = Some (due, p)\<rparr>
                     | None \<Rightarrow> Inr \<lparr>hb_earliest = Some (due, p)\<rparr>)))"

definition budget_total :: "instant \<Rightarrow> duration option \<Rightarrow> (http_budget, net_error) result" where
  "budget_total start d = with_phase start d Ht_Total http_budget_default"

definition http_budget_deadline :: "http_budget \<Rightarrow> instant option" where
  "http_budget_deadline self = map_option fst (hb_earliest self)"

definition candidate_wins :: "instant \<Rightarrow> http_timeout_phase \<Rightarrow> http_budget \<Rightarrow> bool" where
  "candidate_wins due p self = is_none_or (hb_earliest self) (\<lambda>current. due_le (due, p) current)"

definition expired :: "instant \<Rightarrow> error_stage \<Rightarrow> http_budget \<Rightarrow> net_error option" where
  "expired now st self =
     Option.bind (hb_earliest self) (\<lambda>(due, p).
       if now < due then None
       else let k = (if p = Ht_Total then K_DeadlineExceeded else K_TimedOut);
                st = (case p of
                        Ht_Admission \<Rightarrow> St_Admission
                      | Ht_Headers \<Rightarrow> St_Response
                      | Ht_IdleRead \<Rightarrow> St_Receive
                      | _ \<Rightarrow> st)
            in Some (with_timeout_phase (with_stage (with_source k (Src_BudgetExpired due p)) st) p))"

text \<open>The typed source of an expired budget, anywhere in a chain. The loop of the source follows \<open>source()\<close>
  without a bound; the chains of the model are finite.\<close>

fun expired_in :: "error_source \<Rightarrow> (instant \<times> http_timeout_phase) option" where
  "expired_in (Src_BudgetExpired due p) = Some (due, p)"
| "expired_in (Src_NetError (NetError k c ce (Some s) r h)) = expired_in s"
| "expired_in (Src_ClassifiedHttpFailure r s) = expired_in s"
| "expired_in (Src_Io k (Some s)) = expired_in s"
| "expired_in (Src_Other i (Some s)) = expired_in s"
| "expired_in _ = None"

definition timeout_deadline :: "net_error \<Rightarrow> (instant \<times> http_timeout_phase) option" where
  "timeout_deadline e = Option.bind (net_source e) expired_in"

section \<open>Any order of budgets\<close>

fun add_phases :: "(instant \<times> duration option \<times> http_timeout_phase) list \<Rightarrow> http_budget \<Rightarrow> (http_budget, net_error) result" where
  "add_phases [] b = Inr b"
| "add_phases ((start, d, p) # ps) b = try_bind (with_phase start d p b) (add_phases ps)"

definition dues :: "(instant \<times> duration option \<times> http_timeout_phase) list \<Rightarrow> (instant \<times> http_timeout_phase) set" where
  "dues ps = {(start + d, p) | start d p. (start, Some d, p) \<in> set ps}"

definition phase_ok :: "instant \<times> duration option \<times> http_timeout_phase \<Rightarrow> bool" where
  "phase_ok = (\<lambda>(start, d, p). case d of None \<Rightarrow> True | Some d \<Rightarrow> 0 < d \<and> start + d \<le> INSTANT_MAX)"

lemma phase_priority_inject: "phase_priority p = phase_priority q \<longleftrightarrow> p = q"
  by (cases p; cases q) simp_all

lemma due_le_antisym: "due_le x y \<Longrightarrow> due_le y x \<Longrightarrow> x = y"
  by (cases x; cases y) (auto simp: due_le_def phase_priority_inject)

lemma due_le_total: "due_le x y \<or> due_le y x"
  by (auto simp: due_le_def)

lemma due_le_trans: "due_le x y \<Longrightarrow> due_le y z \<Longrightarrow> due_le x z"
  by (auto simp: due_le_def)

definition budget_of :: "(instant \<times> http_timeout_phase) set \<Rightarrow> http_budget \<Rightarrow> bool" where
  "budget_of D b \<longleftrightarrow> (case hb_earliest b of None \<Rightarrow> D = {} | Some x \<Rightarrow> x \<in> D \<and> (\<forall>y \<in> D. due_le x y))"

lemma budget_of_unique:
  assumes "budget_of D b" "budget_of D c"
  shows "b = c"
proof -
  have "hb_earliest b = hb_earliest c"
    using assms due_le_antisym by (auto simp: budget_of_def split: option.splits)
  then show ?thesis by simp
qed

lemma with_phase_budget:
  assumes "budget_of D b"
  shows "phase_ok (start, d, p) \<Longrightarrow> \<exists>b'. with_phase start d p b = Inr b' \<and> budget_of (D \<union> dues [(start, d, p)]) b'"
    and "with_phase start d p b = Inr b' \<Longrightarrow> phase_ok (start, d, p)"
proof -
  have D1: "dues [(start, Some e, p)] = {(start + e, p)}" "dues [(start, None, p)] = {}" for e by (auto simp: dues_def)
  show "\<exists>b'. with_phase start d p b = Inr b' \<and> budget_of (D \<union> dues [(start, d, p)]) b'" if "phase_ok (start, d, p)"
  proof (cases d)
    case None
    then show ?thesis using assms by (simp add: with_phase_def D1)
  next
    case (Some e)
    define due where "due = (start + e, p)"
    have new: "0 < e" "instant_checked_add start e = Some (start + e)"
      using that Some by (auto simp: phase_ok_def instant_checked_add_def)
    show ?thesis
    proof (cases "\<exists>x. hb_earliest b = Some x \<and> due_le x due")
      case True
      then have "with_phase start d p b = Inr b" using Some new by (auto simp: with_phase_def due_def)
      moreover have "budget_of (insert due D) b" using True assms by (auto simp: budget_of_def)
      ultimately show ?thesis using Some D1 by (simp add: due_def)
    next
      case False
      then have "with_phase start d p b = Inr \<lparr>hb_earliest = Some due\<rparr>"
        using Some new by (auto simp: with_phase_def due_def split: option.split)
      moreover have "due_le due y" if yD: "y \<in> D" for y
      proof -
        obtain x where x: "hb_earliest b = Some x" "due_le x y" using yD assms by (auto simp: budget_of_def split: option.split_asm)
        then have "due_le due x" using False due_le_total by blast
        then show ?thesis using x(2) due_le_trans by blast
      qed
      then have "budget_of (insert due D) \<lparr>hb_earliest = Some due\<rparr>"
        using due_le_total [of due due] by (auto simp: budget_of_def)
      ultimately show ?thesis using Some D1 by (simp add: due_def)
    qed
  qed
  show "with_phase start d p b = Inr b' \<Longrightarrow> phase_ok (start, d, p)"
    by (auto simp: with_phase_def phase_ok_def instant_checked_add_def split: option.splits if_splits)
qed

lemma dues_Cons: "dues (x # ps) = dues [x] \<union> dues ps"
  by (auto simp: dues_def)

lemma add_phases_budget:
  assumes "budget_of D b"
  shows "list_all phase_ok ps \<Longrightarrow> \<exists>b'. add_phases ps b = Inr b' \<and> budget_of (D \<union> dues ps) b'"
    and "add_phases ps b = Inr b' \<Longrightarrow> list_all phase_ok ps"
proof -
  show "list_all phase_ok ps \<Longrightarrow> \<exists>b'. add_phases ps b = Inr b' \<and> budget_of (D \<union> dues ps) b'"
    using assms
  proof (induction ps arbitrary: D b)
    case Nil
    then show ?case by (simp add: dues_def)
  next
    case (Cons x ps)
    obtain start d p where x: "x = (start, d, p)" by (metis prod_cases3)
    obtain b1 where b1: "with_phase start d p b = Inr b1" "budget_of (D \<union> dues [x]) b1"
      using with_phase_budget(1) [OF Cons.prems(2), of start d p] Cons.prems(1) x by auto
    have "list_all phase_ok ps" using Cons.prems(1) by simp
    then obtain b2 where "add_phases ps b1 = Inr b2" "budget_of ((D \<union> dues [x]) \<union> dues ps) b2"
      using Cons.IH [OF _ b1(2)] by blast
    then show ?case using x b1(1) dues_Cons [of x ps] by (auto simp: try_bind_def Un_assoc)
  qed
  show "add_phases ps b = Inr b' \<Longrightarrow> list_all phase_ok ps"
    using assms
  proof (induction ps arbitrary: D b)
    case (Cons x ps)
    obtain start d p where x: "x = (start, d, p)" by (metis prod_cases3)
    obtain b1 where b1: "with_phase start d p b = Inr b1" "add_phases ps b1 = Inr b'"
      using Cons.prems(1) x by (auto simp: try_bind_def split: sum.split_asm)
    have ok: "phase_ok x" using with_phase_budget(2) [OF Cons.prems(2) b1(1)] x by simp
    then have "budget_of (D \<union> dues [x]) b1" using with_phase_budget(1) [OF Cons.prems(2), of start d p] b1(1) x by auto
    then show ?case using Cons.IH b1(2) ok by simp
  qed simp
qed

lemma expired_iff:
  assumes "budget_of D b"
  shows "expired now st b = None \<longleftrightarrow> (\<forall>x \<in> D. now < fst x)"
proof (cases "hb_earliest b")
  case None
  then show ?thesis using assms by (simp add: budget_of_def expired_def)
next
  case (Some x)
  obtain due p where x: "x = (due, p)" by fastforce
  have "expired now st b = None \<longleftrightarrow> now < due" using Some x by (simp add: expired_def Let_def)
  moreover have "(due, p) \<in> D" "\<forall>y \<in> D. due \<le> fst y"
    using assms Some x by (auto simp: budget_of_def due_le_def)
  ultimately show ?thesis by (metis fst_conv le_less_trans less_le_trans)
qed

text \<open>What a resolution yields is frozen: as overrides of any client it resolves to itself.\<close>

lemma resolved_is_frozen:
  assumes "timeouts_resolve clk client (as_overrides r) legacy = Inr r'"
  shows "r' = r"
proof -
  have ex: "setting_resolve (setting_explicit d) c f = d" for d c f
    by (cases d) (simp_all add: setting_resolve_def setting_explicit_def)
  show ?thesis using assms by (auto simp: timeouts_resolve_def try_bind_def as_overrides_def ex Let_def split: sum.split_asm)
qed

section \<open>Properties\<close>

text \<open>C26. The budget of an operation is the earliest of all the budgets that were added to it, whatever the order:
  if adding a list of them succeeds, so does adding any permutation of it, with the same result; and the budget has
  expired exactly when one of the added deadlines has been reached.\<close>

theorem budget_ignores_insertion_order:
  assumes "add_phases ps http_budget_default = Inr b" and "mset qs = mset ps"
  shows "add_phases qs http_budget_default = Inr b
    \<and> (expired now st b \<noteq> None) = (\<exists>start d p. (start, Some d, p) \<in> set ps \<and> start + d \<le> now)"
proof -
  have none: "budget_of {} http_budget_default" by (simp add: budget_of_def http_budget_default_def)
  have ok: "list_all phase_ok ps" by (rule add_phases_budget(2) [OF none assms(1)])
  have set: "set qs = set ps" using assms(2) mset_eq_setD by blast
  then have same: "dues qs = dues ps" by (simp add: dues_def)
  have b: "budget_of (dues ps) b" using add_phases_budget(1) [OF none ok] assms(1) by simp
  moreover obtain c where "add_phases qs http_budget_default = Inr c" "budget_of (dues ps) c"
    using add_phases_budget(1) [OF none, of qs] ok set same by (auto simp: list_all_iff)
  ultimately show ?thesis
    using budget_of_unique [of "dues ps" b c] expired_iff [OF b, of now st] by (fastforce simp: dues_def not_less)
qed

theorem budget_ignores_insertion_order_witness:
  "\<exists>b. add_phases [(0, Some 20, Ht_Total), (5, Some 15, Ht_Attempt)] http_budget_default = Inr b
     \<and> add_phases [(5, Some 15, Ht_Attempt), (0, Some 20, Ht_Total)] http_budget_default = Inr b
     \<and> expired 20 St_Write b \<noteq> None \<and> hb_earliest b = Some (20, Ht_Total)"
proof -
  have run: "add_phases [(0, Some 20, Ht_Total), (5, Some 15, Ht_Attempt)] http_budget_default
      = Inr \<lparr>hb_earliest = Some (20, Ht_Total)\<rparr>"
    by (simp add: with_phase_def try_bind_def http_budget_default_def instant_checked_add_def INSTANT_MAX_def NANOS_PER_SEC_def
        due_le_def)
  have "mset [(5, Some 15, Ht_Attempt), (0, Some 20, Ht_Total)] = mset [(0, Some 20, Ht_Total), (5, Some (15::nat), Ht_Attempt)]"
    by (simp add: add_mset_commute)
  note ok = budget_ignores_insertion_order [OF run this, of 20 St_Write]
  have "\<exists>start d p. (start, Some d, p) \<in> set [(0, Some 20, Ht_Total), (5, Some (15::nat), Ht_Attempt)] \<and> start + d \<le> (20::nat)"
    by (rule exI [of _ 0], rule exI [of _ 20]) simp
  then have "expired 20 St_Write \<lparr>hb_earliest = Some (20, Ht_Total)\<rparr> \<noteq> None" using ok by blast
  then show ?thesis using ok run by (intro exI [of _ "\<lparr>hb_earliest = Some (20, Ht_Total)\<rparr>"]) (simp only: http_budget.simps)
qed

end
