(* ===== verification/Rust_Str.thy ===== *)
theory Rust_Str
  imports Prelude
begin

text \<open>
  The operations on \<open>&str\<close> that the HTTP modules use. A string is the list of its UTF-8 bytes; \<open>chars_of\<close> splits
  it into its characters, each the list of its bytes, and \<open>trim\<close> and the character classes work on those. The
  separators the source searches for are ASCII, so the searches may work on bytes.
\<close>

section \<open>Characters\<close>

definition utf8_width :: "char \<Rightarrow> nat" where
  "utf8_width a = (let b = of_char a :: nat in if b < 0x80 then 1 else if b < 0xE0 then 2 else if b < 0xF0 then 3 else 4)"

function chars_of :: "string \<Rightarrow> string list" where
  "chars_of [] = []"
| "chars_of (a # s) = (a # take (utf8_width a - 1) s) # chars_of (drop (utf8_width a - 1) s)"
  by pat_completeness auto
termination
  by (relation "measure length") auto

fun code_point :: "string \<Rightarrow> nat" where
  "code_point [a] = of_char a"
| "code_point [a, b] = (of_char a mod 0x20) * 0x40 + of_char b mod 0x40"
| "code_point [a, b, c] = ((of_char a mod 0x10) * 0x40 + of_char b mod 0x40) * 0x40 + of_char c mod 0x40"
| "code_point [a, b, c, d] =
     (((of_char a mod 0x08) * 0x40 + of_char b mod 0x40) * 0x40 + of_char c mod 0x40) * 0x40 + of_char d mod 0x40"
| "code_point _ = 0"

text \<open>\<open>char::is_whitespace\<close> (the property White_Space) and \<open>char::is_control\<close> (the category Cc).\<close>

definition is_whitespace :: "nat \<Rightarrow> bool" where
  "is_whitespace u \<longleftrightarrow> (9 \<le> u \<and> u \<le> 13) \<or> (0x2000 \<le> u \<and> u \<le> 0x200A)
     \<or> u \<in> {0x20, 0x85, 0xA0, 0x1680, 0x2028, 0x2029, 0x202F, 0x205F, 0x3000}"

definition is_control :: "nat \<Rightarrow> bool" where
  "is_control u \<longleftrightarrow> u < 0x20 \<or> (0x7F \<le> u \<and> u \<le> 0x9F)"

definition any_control :: "string \<Rightarrow> bool" where
  "any_control s \<longleftrightarrow> list_ex (\<lambda>c. is_control (code_point c)) (chars_of s)"

definition str_trim_end :: "string \<Rightarrow> string" where
  "str_trim_end s = concat (rev (dropWhile (\<lambda>c. is_whitespace (code_point c)) (rev (chars_of s))))"

definition str_trim :: "string \<Rightarrow> string" where
  "str_trim s = str_trim_end (concat (dropWhile (\<lambda>c. is_whitespace (code_point c)) (chars_of s)))"

text \<open>\<open>std::str::from_utf8\<close>: the well-formed byte sequences.\<close>

definition continuation :: "char \<Rightarrow> bool" where
  "continuation c \<longleftrightarrow> 0x80 \<le> (of_char c :: nat) \<and> (of_char c :: nat) \<le> 0xBF"

definition utf8_second :: "nat \<Rightarrow> nat \<Rightarrow> bool" where
  "utf8_second a b \<longleftrightarrow>
     (if a = 0xE0 then 0xA0 \<le> b \<and> b \<le> 0xBF
      else if a = 0xED then 0x80 \<le> b \<and> b \<le> 0x9F
      else if a = 0xF0 then 0x90 \<le> b \<and> b \<le> 0xBF
      else if a = 0xF4 then 0x80 \<le> b \<and> b \<le> 0x8F
      else 0x80 \<le> b \<and> b \<le> 0xBF)"

fun utf8_valid :: "string \<Rightarrow> bool" where
  "utf8_valid [] = True"
| "utf8_valid (a # s) =
     (let n = of_char a :: nat
      in if n < 0x80 then utf8_valid s
         else if 0xC2 \<le> n \<and> n \<le> 0xDF
         then (case s of b # t \<Rightarrow> continuation b \<and> utf8_valid t | _ \<Rightarrow> False)
         else if 0xE0 \<le> n \<and> n \<le> 0xEF
         then (case s of b # c # t \<Rightarrow> utf8_second n (of_char b) \<and> continuation c \<and> utf8_valid t | _ \<Rightarrow> False)
         else if 0xF0 \<le> n \<and> n \<le> 0xF4
         then (case s of b # c # d # t \<Rightarrow>
                 utf8_second n (of_char b) \<and> continuation c \<and> continuation d \<and> utf8_valid t | _ \<Rightarrow> False)
         else False)"

section \<open>Searching and splitting\<close>

definition contains_any :: "char list \<Rightarrow> string \<Rightarrow> bool" where
  "contains_any cs s \<longleftrightarrow> list_ex (\<lambda>c. c \<in> set cs) s"

fun starts_with :: "string \<Rightarrow> string \<Rightarrow> bool" where
  "starts_with [] s = True"
| "starts_with (p # ps) [] = False"
| "starts_with (p # ps) (c # s) = (p = c \<and> starts_with ps s)"

fun split_once :: "string \<Rightarrow> string \<Rightarrow> (string \<times> string) option" where
  "split_once pat s =
     (if starts_with pat s then Some ([], drop (length pat) s)
      else case s of
             [] \<Rightarrow> None
           | c # s \<Rightarrow> map_option (\<lambda>(a, b). (c # a, b)) (split_once pat s))"

declare split_once.simps [simp del]

fun find_char :: "char \<Rightarrow> string \<Rightarrow> usize option" where
  "find_char c [] = None"
| "find_char c (x # s) = (if x = c then Some 0 else map_option Suc (find_char c s))"

text \<open>\<open>str::split\<close> at one character: there is always one piece more than separators.\<close>

fun split_char :: "char \<Rightarrow> string \<Rightarrow> string list" where
  "split_char c [] = [[]]"
| "split_char c (x # s) =
     (if x = c then [] # split_char c s
      else case split_char c s of [] \<Rightarrow> [[x]] | p # ps \<Rightarrow> (x # p) # ps)"

definition is_ascii_whitespace :: "char \<Rightarrow> bool" where
  "is_ascii_whitespace c \<longleftrightarrow> (of_char c :: nat) \<in> {9, 10, 12, 13, 32}"

text \<open>\<open>str::split_ascii_whitespace\<close>: the nonempty pieces between ASCII white space.\<close>

fun split_ws :: "string \<Rightarrow> string list" where
  "split_ws [] = [[]]"
| "split_ws (x # s) =
     (if is_ascii_whitespace x then [] # split_ws s
      else case split_ws s of [] \<Rightarrow> [[x]] | p # ps \<Rightarrow> (x # p) # ps)"

definition split_ascii_whitespace :: "string \<Rightarrow> string list" where
  "split_ascii_whitespace s = filter (\<lambda>p. p \<noteq> []) (split_ws s)"

definition strip_suffix_char :: "char \<Rightarrow> string \<Rightarrow> string option" where
  "strip_suffix_char c s = (if s \<noteq> [] \<and> last s = c then Some (butlast s) else None)"

text \<open>The lower-case letter of an upper-case one has the bit of value 32 set as well.\<close>

definition ascii_lower :: "char \<Rightarrow> char" where
  "ascii_lower c =
     (if 65 \<le> (of_char c :: nat) \<and> (of_char c :: nat) \<le> 90
      then (case c of Char b0 b1 b2 b3 b4 b5 b6 b7 \<Rightarrow> Char b0 b1 b2 b3 b4 True b6 b7) else c)"

definition eq_ignore_ascii_case :: "string \<Rightarrow> string \<Rightarrow> bool" where
  "eq_ignore_ascii_case a b \<longleftrightarrow> map ascii_lower a = map ascii_lower b"

section \<open>Numbers\<close>

definition is_ascii_digit :: "char \<Rightarrow> bool" where
  "is_ascii_digit c \<longleftrightarrow> 48 \<le> (of_char c :: nat) \<and> (of_char c :: nat) \<le> 57"

definition digit_value :: "char \<Rightarrow> nat" where
  "digit_value c = of_char c - 48"

definition digits_value :: "string \<Rightarrow> nat" where
  "digits_value s = foldl (\<lambda>n c. 10 * n + digit_value c) 0 s"

text \<open>\<open>str::parse\<close> of an unsigned integer with the given largest value: an optional plus sign, then digits only.\<close>

definition parse_unsigned :: "nat \<Rightarrow> string \<Rightarrow> nat option" where
  "parse_unsigned largest s =
     (let digits = (case s of c # rest \<Rightarrow> if c = CHR ''+'' then rest else s | [] \<Rightarrow> [])
      in if digits \<noteq> [] \<and> list_all is_ascii_digit digits \<and> digits_value digits \<le> largest
         then Some (digits_value digits) else None)"

text \<open>\<open>format!("{:0w$}")\<close>: decimal, padded with zeros on the left.\<close>

definition pad_zero :: "nat \<Rightarrow> nat \<Rightarrow> string" where
  "pad_zero w n = replicate (w - length (show_nat n)) (CHR ''0'') @ show_nat n"

section \<open>Rules\<close>

lemma concat_chars_of [simp]: "concat (chars_of s) = s"
  by (induction s rule: chars_of.induct) auto

lemma length_trim_end: "length (str_trim_end s) \<le> length s"
proof -
  have "length (concat (rev (dropWhile P (rev xs)))) \<le> length (concat xs)" for P and xs :: "string list"
  proof -
    have "concat xs = concat (rev (dropWhile P (rev xs))) @ concat (rev (takeWhile P (rev xs)))"
      by (metis concat_append rev_append rev_rev_ident takeWhile_dropWhile_id)
    then show ?thesis by (metis length_append le_add1)
  qed
  from this [of _ "chars_of s"] show ?thesis by (simp add: str_trim_end_def)
qed

lemma length_trim: "length (str_trim s) \<le> length s"
proof -
  have "length (concat (dropWhile P xs)) \<le> length (concat xs)" for P and xs :: "string list"
    by (induction xs) auto
  from this [of _ "chars_of s"] show ?thesis
    unfolding str_trim_def by (metis (no_types, lifting) concat_chars_of le_trans length_trim_end)
qed

lemma starts_with_iff: "starts_with p s \<longleftrightarrow> (\<exists>t. s = p @ t)"
  by (induction p s rule: starts_with.induct) auto

lemma split_once_Some: "split_once pat s = Some (a, b) \<Longrightarrow> s = a @ pat @ b"
proof (induction s arbitrary: a)
  case Nil
  then show ?case by (auto simp: split_once.simps [of pat "[]"] starts_with_iff split: if_split_asm)
next
  case (Cons c s)
  then show ?case by (auto simp: split_once.simps [of pat "c # s"] starts_with_iff split: if_split_asm)
qed

lemma find_char_None: "find_char c s = None \<longleftrightarrow> c \<notin> set s"
  by (induction s) auto

lemma digits_value_snoc: "digits_value (s @ [c]) = 10 * digits_value s + digit_value c"
  by (simp add: digits_value_def)

lemma digit_char: "d < 10 \<Longrightarrow> is_ascii_digit (digit d) \<and> digit_value (digit d) = d"
  by (simp add: digit_def is_ascii_digit_def digit_value_def)

text \<open>Printing a number and parsing it is the identity.\<close>

lemma show_nat_digits: "list_all is_ascii_digit (show_nat n) \<and> digits_value (show_nat n) = n \<and> show_nat n \<noteq> []"
proof (induction n rule: show_nat.induct)
  case (1 n)
  show ?case
  proof (cases "n < 10")
    case True
    then show ?thesis using digit_char [of n] by (simp add: show_nat.simps [of n] digits_value_def)
  next
    case False
    then show ?thesis
      using 1 digit_char [of "n mod 10"] by (simp add: show_nat.simps [of n] digits_value_snoc)
  qed
qed

lemma parse_show: "n \<le> largest \<Longrightarrow> parse_unsigned largest (show_nat n) = Some n"
proof -
  assume le: "n \<le> largest"
  obtain c rest where s: "show_nat n = c # rest" using show_nat_digits [of n] by (cases "show_nat n") auto
  then have "c \<noteq> CHR ''+''" using show_nat_digits [of n] by (auto simp: is_ascii_digit_def)
  then show ?thesis using le s show_nat_digits [of n] by (simp add: parse_unsigned_def)
qed

lemma digits_value_bound: "list_all is_ascii_digit s \<Longrightarrow> digits_value s < 10 ^ length s"
proof (induction s rule: rev_induct)
  case (snoc c s)
  then have "digit_value c < 10" "digits_value s < 10 ^ length s" by (auto simp: is_ascii_digit_def digit_value_def)
  then show ?case by (simp add: digits_value_snoc)
qed (simp add: digits_value_def)

text \<open>ASCII strings: every byte is a character.\<close>

definition is_ascii :: "string \<Rightarrow> bool" where
  "is_ascii s \<longleftrightarrow> list_all (\<lambda>c. (of_char c :: nat) < 128) s"

lemma chars_of_ascii: "is_ascii s \<Longrightarrow> chars_of s = map (\<lambda>c. [c]) s"
  by (induction s rule: chars_of.induct) (auto simp: is_ascii_def utf8_width_def)

lemma trim_end_ascii:
  assumes "is_ascii s" "s \<noteq> []" "\<not> is_whitespace (of_char (last s))"
  shows "str_trim_end s = s"
  using assms by (cases s rule: rev_cases) (auto simp: str_trim_end_def chars_of_ascii)

lemma trim_ascii:
  assumes "is_ascii s" "s \<noteq> []" "\<not> is_whitespace (of_char (hd s))" "\<not> is_whitespace (of_char (last s))"
  shows "str_trim s = s"
proof -
  have "dropWhile (\<lambda>c. is_whitespace (code_point c)) (chars_of s) = chars_of s"
    unfolding chars_of_ascii [OF assms(1)] using assms(2,3) by (cases s) auto
  then show ?thesis using assms by (simp add: str_trim_def trim_end_ascii)
qed

lemma ascii_digits: "list_all is_ascii_digit s \<Longrightarrow> is_ascii s"
  by (auto simp: is_ascii_def is_ascii_digit_def list_all_iff)

lemma digit_not_whitespace: "is_ascii_digit c \<Longrightarrow> \<not> is_whitespace (of_char c)"
  by (auto simp: is_ascii_digit_def is_whitespace_def)

lemma trim_digits: "list_all is_ascii_digit s \<Longrightarrow> s \<noteq> [] \<Longrightarrow> str_trim s = s"
  by (auto simp: trim_ascii ascii_digits digit_not_whitespace list_all_iff)

lemma split_once_char_None: "c \<notin> set s \<Longrightarrow> split_once [c] s = None"
  by (induction s) (auto simp: split_once.simps [of "[c]"])

lemma split_once_char: "c \<notin> set a \<Longrightarrow> split_once [c] (a @ c # b) = Some (a, b)"
  by (induction a) (auto simp: split_once.simps [of "[c]"])

end
