(* ===== verification/Http_Policy.thy ===== *)
theory Http_Policy
  imports Http_Timeouts Rust_Str
begin

text \<open>
  The policies of the HTTP client: which redirects it may follow (\<open>src/api/http/redirect.rs\<close>) and which attempts
  it may repeat (\<open>src/api/http/retry.rs\<close>, with the reasons of \<open>src/module/http/http_failure.rs\<close>).

  URLs and header maps are types of the libraries \<open>url\<close> and \<open>http\<close>. The model does not look inside them: a record of
  operations, \<open>url_lib\<close> and \<open>header_lib\<close>, is an argument of every definition that uses one, and what a statement
  needs of them is a named hypothesis. A method and a status code are its text and its number. \<open>inspect_causes\<close>
  downcasts to errors of \<open>hyper\<close>, \<open>reqwest\<close> and \<open>rustls\<close>; what it finds is an argument too.
\<close>

section \<open>The libraries\<close>

record ('u, 'o) url_lib =
  url_parse :: "string \<Rightarrow> 'u option"
  url_join :: "'u \<Rightarrow> string \<Rightarrow> 'u option"
  url_without_fragment :: "'u \<Rightarrow> 'u"
  url_scheme :: "'u \<Rightarrow> string"
  url_host_str :: "'u \<Rightarrow> string option"
  url_port :: "'u \<Rightarrow> u16 option"
  url_username :: "'u \<Rightarrow> string"
  url_password :: "'u \<Rightarrow> string option"
  url_path :: "'u \<Rightarrow> string"
  url_query :: "'u \<Rightarrow> string option"
  url_fragment :: "'u \<Rightarrow> string option"
  url_text :: "'u \<Rightarrow> string"
  url_origin :: "'u \<Rightarrow> 'o"

record 'h header_lib =
  hm_get :: "'h \<Rightarrow> string \<Rightarrow> header_value option"
  hm_get_all :: "'h \<Rightarrow> string \<Rightarrow> header_value list"
  hm_keys :: "'h \<Rightarrow> string list"
  hm_iter :: "'h \<Rightarrow> (string \<times> header_value) list"
  hm_remove :: "'h \<Rightarrow> string \<Rightarrow> 'h"
  hm_append :: "'h \<Rightarrow> string \<Rightarrow> header_value \<Rightarrow> 'h"
  hm_new :: 'h

section \<open>Redirect policies\<close>

definition DEFAULT_MAX_REDIRECTS :: usize where
  "DEFAULT_MAX_REDIRECTS = 10"

definition MAX_REDIRECTS :: usize where
  "MAX_REDIRECTS = 128"

definition MAX_ALLOWED_ORIGINS :: usize where
  "MAX_ALLOWED_ORIGINS = 128"

definition MAX_ORIGIN_BYTES :: usize where
  "MAX_ORIGIN_BYTES = 2048"

datatype http_transport_security = PreventDowngrade | HttpsOnly

record 'u redirect_policy =
  rp_enabled :: bool
  allowed_origins :: "'u list"
  max_redirects :: usize

definition redirect_none :: "'u redirect_policy" where
  "redirect_none = \<lparr>rp_enabled = False, allowed_origins = [], max_redirects = DEFAULT_MAX_REDIRECTS\<rparr>"

definition same_origin :: "'u redirect_policy" where
  "same_origin = \<lparr>rp_enabled = True, allowed_origins = [], max_redirects = DEFAULT_MAX_REDIRECTS\<rparr>"

definition invalid_policy :: "string \<Rightarrow> net_error" where
  "invalid_policy fld = with_stage (config fld ''invalid HTTP redirect policy'') St_Configuration"

definition parse_origin :: "('u, 'o) url_lib \<Rightarrow> string \<Rightarrow> ('u, net_error) result" where
  "parse_origin U value =
     (let invalid = invalid_policy ''http.redirect.allowed_origins''
      in if MAX_ORIGIN_BYTES < length value \<or> str_trim value \<noteq> value \<or> any_control value
            \<or> contains_any [CHR 0x5C, CHR ''@'', CHR ''?'', CHR ''#''] value
         then Inl invalid
         else case split_once ''://'' value of
                None \<Rightarrow> Inl invalid
              | Some (_, authority_and_path) \<Rightarrow>
                  if is_some_and (find_char (CHR ''/'') authority_and_path) (\<lambda>i. drop i authority_and_path \<noteq> ''/'')
                  then Inl invalid
                  else case url_parse U value of
                         None \<Rightarrow> Inl invalid
                       | Some parsed \<Rightarrow>
                           if url_scheme U parsed \<notin> {''http'', ''https''} \<or> url_host_str U parsed = None
                              \<or> url_username U parsed \<noteq> [] \<or> url_password U parsed \<noteq> None \<or> url_path U parsed \<noteq> ''/''
                              \<or> url_query U parsed \<noteq> None \<or> url_fragment U parsed \<noteq> None
                           then Inl invalid
                           else Inr parsed)"

fun allow_origins_loop ::
  "('u, 'o) url_lib \<Rightarrow> string list \<Rightarrow> 'u redirect_policy \<Rightarrow> ('u redirect_policy, net_error) result" where
  "allow_origins_loop U [] policy = Inr policy"
| "allow_origins_loop U (value # rest) policy =
     (case parse_origin U value of
        Inl e \<Rightarrow> Inl e
      | Inr parsed \<Rightarrow>
          if list_ex (\<lambda>allowed. url_origin U allowed = url_origin U parsed) (allowed_origins policy)
          then allow_origins_loop U rest policy
          else if MAX_ALLOWED_ORIGINS \<le> length (allowed_origins policy)
          then Inl (invalid_policy ''http.redirect.allowed_origins'')
          else allow_origins_loop U rest (policy\<lparr>allowed_origins := allowed_origins policy @ [parsed]\<rparr>))"

definition allow_origins :: "('u, 'o) url_lib \<Rightarrow> string list \<Rightarrow> ('u redirect_policy, net_error) result" where
  "allow_origins U origins = allow_origins_loop U origins same_origin"

definition with_max_redirects :: "usize \<Rightarrow> 'u redirect_policy \<Rightarrow> ('u redirect_policy, net_error) result" where
  "with_max_redirects n self =
     (if \<not> (1 \<le> n \<and> n \<le> MAX_REDIRECTS) then Inl (invalid_policy ''http.redirect.max_redirects'')
      else Inr (self\<lparr>max_redirects := n\<rparr>))"

definition check_redirect ::
  "('u, 'o) url_lib \<Rightarrow> 'u redirect_policy \<Rightarrow> 'u \<Rightarrow> 'u \<Rightarrow> 'u \<Rightarrow> usize \<Rightarrow> http_transport_security
     \<Rightarrow> (unit, http_redirect_error) result" where
  "check_redirect U self original_url current_url next_url followed security =
     (if url_scheme U next_url \<notin> {''http'', ''https''} \<or> url_host_str U next_url = None
         \<or> url_username U next_url \<noteq> [] \<or> url_password U next_url \<noteq> None
      then Inl InvalidLocation
      else if url_scheme U next_url \<noteq> ''https'' \<and> (security = HttpsOnly \<or> url_scheme U current_url = ''https'')
      then Inl InsecureTarget
      else if url_origin U next_url \<noteq> url_origin U original_url
         \<and> \<not> list_ex (\<lambda>allowed. url_origin U allowed = url_origin U next_url) (allowed_origins self)
      then Inl OriginNotAllowed
      else if max_redirects self \<le> followed then Inl TooManyRedirects
      else Inr ())"

section \<open>Retry policies\<close>

datatype retry_after_mode = After_Ignore | After_Respect

definition retry_after_select :: "retry_after_mode \<Rightarrow> duration option \<Rightarrow> duration \<Rightarrow> duration" where
  "retry_after_select self server_delay backoff_delay =
     (case (self, server_delay) of
        (After_Respect, Some d) \<Rightarrow> max d backoff_delay
      | _ \<Rightarrow> backoff_delay)"

datatype request_safety = Safe_Never | Safe_Automatic | Safe_IdempotentByContract | Safe_IdempotencyKey string

type_synonym status_code = u16
type_synonym http_method = string

record http_retry_on =
  ro_statuses :: "status_code list"
  ro_transport :: "transport_error_kind list"
  ro_body_read :: bool
  ro_timeout_phases :: "http_timeout_phase list"

definition default_retryable_statuses :: "status_code list" where
  "default_retryable_statuses = [408, 425, 429, 500, 502, 503, 504]"

definition default_retryable_transport_reasons :: "transport_error_kind list" where
  "default_retryable_transport_reasons = [Tr_Dns, Tr_Connect, Tr_TimeoutBeforeSend, Tr_ReadReset, Tr_BodyRead]"

definition retry_on_standard :: http_retry_on where
  "retry_on_standard = \<lparr>ro_statuses = default_retryable_statuses, ro_transport = default_retryable_transport_reasons,
     ro_body_read = True, ro_timeout_phases = []\<rparr>"

definition retry_on_none :: http_retry_on where
  "retry_on_none = \<lparr>ro_statuses = [], ro_transport = [], ro_body_read = False, ro_timeout_phases = []\<rparr>"

definition with_timeout_phases :: "http_timeout_phase list \<Rightarrow> http_retry_on \<Rightarrow> http_retry_on" where
  "with_timeout_phases phases self =
     self\<lparr>ro_timeout_phases := filter (\<lambda>p. p \<notin> {Ht_Admission, Ht_Total}) phases\<rparr>"

definition retry_on_allows :: "http_retry_on \<Rightarrow> http_retry_reason \<Rightarrow> bool" where
  "retry_on_allows self reason =
     (case reason of
        Reason_HttpStatus status \<Rightarrow> status \<in> set (ro_statuses self)
      | Reason_Transport k \<Rightarrow> k \<in> set (ro_transport self)
      | Reason_BodyRead \<Rightarrow> ro_body_read self
      | Reason_Application \<Rightarrow> False
      | Reason_RetryAfter \<Rightarrow> False)"

text \<open>A classifier is a function of the caller; \<open>None\<close> is its panic. \<open>'p\<close> is the type of responses.\<close>

record 'p http_retry_context =
  rc_outcome :: "('p, net_error) result"
  rc_attempt :: u32
  rc_elapsed :: duration
  rc_remaining :: "duration option"

record 'p http_retry_policy =
  hp_schedule :: retry_schedule
  hp_retry_on :: http_retry_on
  hp_retry_after :: retry_after_mode
  hp_safety :: request_safety
  hp_observer :: "nat option"
  hp_classifier :: "('p http_retry_context \<Rightarrow> retry_decision option) option"

definition http_no_retry :: "'p http_retry_policy" where
  "http_no_retry = \<lparr>hp_schedule = no_retry, hp_retry_on = retry_on_none, hp_retry_after = After_Ignore,
     hp_safety = Safe_Automatic, hp_observer = None, hp_classifier = None\<rparr>"

definition http_policy_build :: "'p http_retry_policy \<Rightarrow> ('p http_retry_policy, retry_config_error) result" where
  "http_policy_build self =
     (if hp_safety self = Safe_IdempotencyKey []
      then Inl (config_error ''http.retry.safety'' ''idempotency key must not be empty'')
      else Inr self)"

definition http_classify :: "'p http_retry_policy \<Rightarrow> 'p http_retry_context \<Rightarrow> (retry_decision, net_error) result" where
  "http_classify self c =
     (case hp_classifier self of
        None \<Rightarrow> Inr Decision_Default
      | Some f \<Rightarrow>
          (case f c of
             Some decision \<Rightarrow> Inr decision
           | None \<Rightarrow> Inl (with_stage (from_kind K_ProviderFailed) St_Provider)))"

definition is_idempotent :: "http_method \<Rightarrow> bool" where
  "is_idempotent m \<longleftrightarrow> m \<in> {''GET'', ''HEAD'', ''OPTIONS'', ''PUT'', ''DELETE''}"

definition allows_method :: "'p http_retry_policy \<Rightarrow> http_method \<Rightarrow> bool \<Rightarrow> bool" where
  "allows_method self m replayable_body \<longleftrightarrow> replayable_body
     \<and> (case hp_safety self of
          Safe_Never \<Rightarrow> False
        | Safe_Automatic \<Rightarrow> is_idempotent m
        | Safe_IdempotentByContract \<Rightarrow> True
        | Safe_IdempotencyKey _ \<Rightarrow> True)"

definition should_retry_status :: "'p http_retry_policy \<Rightarrow> status_code \<Rightarrow> bool" where
  "should_retry_status self status \<longleftrightarrow> status \<in> set (ro_statuses (hp_retry_on self))"

section \<open>Reasons of failures\<close>

datatype cause_boundary = Boundary_Unknown | Boundary_Dns | Boundary_ProxyAuth

record http_causes =
  hc_boundary :: cause_boundary
  hc_tls :: bool
  hc_protocol :: bool
  hc_connect_timeout :: "instant option"

definition trusted_retry_reason :: "(net_error \<Rightarrow> http_causes) \<Rightarrow> net_error \<Rightarrow> http_retry_reason option" where
  "trusted_retry_reason inspect_causes e =
     (if (\<exists>r. net_source e = Some (Src_HttpRedirectError r)) then Some Reason_Application
      else if kind e \<notin> {K_Io, K_Protocol, K_Tls, K_Dns, K_TimedOut, K_HttpStatus} then None
      else
        let timed = (if kind e = K_TimedOut then
              (case ec_http_timeout_phase (err_context e) of
                 Some Ht_IdleRead \<Rightarrow> Some Reason_BodyRead
               | Some Ht_Attempt \<Rightarrow>
                   if stage (err_context e) = Some St_Receive then Some Reason_BodyRead
                   else Some (Reason_Transport Tr_ReadReset)
               | Some Ht_Admission \<Rightarrow> Some Reason_Application
               | Some Ht_Total \<Rightarrow> Some Reason_Application
               | Some Ht_Headers \<Rightarrow> Some (Reason_Transport Tr_ReadReset)
               | Some Ht_Connect \<Rightarrow> Some (Reason_Transport Tr_Connect)
               | None \<Rightarrow> None) else None)
        in case timed of
             Some r \<Rightarrow> Some r
           | None \<Rightarrow>
               (case net_source e of
                  Some (Src_ClassifiedHttpFailure r _) \<Rightarrow> Some r
                | _ \<Rightarrow>
                    if kind e \<notin> {K_Io, K_Protocol, K_Tls, K_Dns} then None
                    else
                      let causes = inspect_causes e
                      in case hc_boundary causes of
                           Boundary_Dns \<Rightarrow> Some (Reason_Transport Tr_Dns)
                         | Boundary_ProxyAuth \<Rightarrow> Some (Reason_HttpStatus 407)
                         | Boundary_Unknown \<Rightarrow>
                             if hc_tls causes then Some (Reason_Transport Tr_Tls)
                             else if hc_protocol causes then Some (Reason_Transport Tr_Protocol)
                             else None))"

definition fallback_retry_reason :: "net_error \<Rightarrow> http_retry_reason option" where
  "fallback_retry_reason e =
     (case kind e of
        K_Dns \<Rightarrow> Some (Reason_Transport Tr_Dns)
      | K_Tls \<Rightarrow> Some (Reason_Transport Tr_Tls)
      | K_DeliveryUnknown \<Rightarrow> Some (Reason_Transport Tr_DeliveryUnknown)
      | K_TimedOut \<Rightarrow> Some (Reason_Transport Tr_DeliveryUnknown)
      | K_Io \<Rightarrow>
          Some (Reason_Transport
            (case stage (err_context e) of
               Some St_Dns \<Rightarrow> Tr_Dns
             | Some St_Tcp \<Rightarrow> Tr_Connect
             | Some St_Proxy \<Rightarrow> Tr_Connect
             | Some St_Write \<Rightarrow> Tr_Write
             | Some St_Receive \<Rightarrow> Tr_BodyRead
             | Some St_Response \<Rightarrow> Tr_BodyRead
             | _ \<Rightarrow> Tr_ReadReset))
      | K_Protocol \<Rightarrow> Some (Reason_Transport Tr_Protocol)
      | _ \<Rightarrow> None)"

definition retry_reason_for_error :: "(net_error \<Rightarrow> http_causes) \<Rightarrow> net_error \<Rightarrow> http_retry_reason" where
  "retry_reason_for_error inspect_causes e =
     map_or Reason_Application (\<lambda>r. r) (or_option (trusted_retry_reason inspect_causes e) (fallback_retry_reason e))"

definition should_retry_error :: "(net_error \<Rightarrow> http_causes) \<Rightarrow> 'p http_retry_policy \<Rightarrow> net_error \<Rightarrow> bool" where
  "should_retry_error inspect_causes self e =
     (case ec_http_timeout_phase (err_context e) of
        Some p \<Rightarrow>
          if p \<in> {Ht_Admission, Ht_Total} then False
          else p \<in> set (ro_timeout_phases (hp_retry_on self))
      | None \<Rightarrow>
          is_some_and (or_option (trusted_retry_reason inspect_causes e) (fallback_retry_reason e)) (\<lambda>reason.
            retry_on_allows (hp_retry_on self) reason
            \<or> (reason = Reason_BodyRead \<and> Tr_BodyRead \<in> set (ro_transport (hp_retry_on self)))))"

section \<open>Request options\<close>

record 'p http_request_options =
  replayable_body :: bool
  option_request_id :: "http_request_id option"
  ho_retry_setting :: "'p http_retry_policy retry_setting"
  ho_timeouts :: http_timeouts

definition http_request_options_default :: "'p http_request_options" where
  "http_request_options_default = \<lparr>replayable_body = True, option_request_id = None, ho_retry_setting = Inherit,
     ho_timeouts = http_timeouts_new\<rparr>"

definition options_with_timeouts ::
  "clock \<Rightarrow> http_timeouts \<Rightarrow> 'p http_request_options \<Rightarrow> ('p http_request_options, net_error) result" where
  "options_with_timeouts clk timeouts self =
     try_bind (validate_request clk timeouts) (\<lambda>_. Inr (self\<lparr>ho_timeouts := timeouts\<rparr>))"

section \<open>What the policies guarantee\<close>

lemma check_redirect_Inr:
  assumes "check_redirect U self original_url current_url next_url followed security = Inr ()"
  shows "url_scheme U next_url \<in> {''http'', ''https''}" "url_host_str U next_url \<noteq> None"
    "url_username U next_url = []" "url_password U next_url = None"
    "url_scheme U current_url = ''https'' \<Longrightarrow> url_scheme U next_url = ''https''"
    "security = HttpsOnly \<Longrightarrow> url_scheme U next_url = ''https''"
    "url_origin U next_url \<in> insert (url_origin U original_url) (url_origin U ` set (allowed_origins self))"
    "followed < max_redirects self"
  using assms by (auto simp: check_redirect_def list_ex_iff intro: rev_image_eqI split: if_split_asm)

text \<open>An accepted list of origins has at most 128 distinct ones, each from the list.\<close>

lemma allow_origins_loop_inv:
  assumes "allow_origins_loop U vs policy = Inr policy'"
    and "length (allowed_origins policy) \<le> MAX_ALLOWED_ORIGINS" and "distinct (map (url_origin U) (allowed_origins policy))"
  shows "length (allowed_origins policy') \<le> MAX_ALLOWED_ORIGINS" "distinct (map (url_origin U) (allowed_origins policy'))"
    "rp_enabled policy' = rp_enabled policy" "max_redirects policy' = max_redirects policy"
    "set (allowed_origins policy') \<subseteq> set (allowed_origins policy) \<union> {u. \<exists>v \<in> set vs. parse_origin U v = Inr u}"
  using assms
  by (induction U vs policy rule: allow_origins_loop.induct)
    (fastforce simp: list_ex_iff image_iff split: sum.split_asm if_split_asm)+

end
