(* ===== verification/Http_Config.thy ===== *)
theory Http_Config
  imports Http_Policy
begin

text \<open>
  The configuration of an HTTP client: \<open>src/api/http/http_config.rs\<close> and \<open>src/module/tls.rs\<close>. Every builder
  validates what it stores, and \<open>validate\<close> checks the public fields again before they are used.

  Certificates, keys and trust stores are types of \<open>rustls\<close>: a \<open>tls_lib\<close> holds the operations the source calls.
  The compiled TLS configuration itself is built by that library and is not modelled beyond its inputs.
\<close>

section \<open>TLS\<close>

datatype http_root_certificate_mode = Roots_Append | Roots_Replace

record ('c, 'k, 's) tls_lib =
  certificate_from_pem :: "string \<Rightarrow> 'c option"
  key_from_pem :: "string \<Rightarrow> 'k option"
  roots_empty :: 's
  roots_builtin :: 's
  roots_add :: "'s \<Rightarrow> 'c \<Rightarrow> 's option"
  roots_is_empty :: "'s \<Rightarrow> bool"

record ('c, 'k) http_tls_config =
  tls_provider :: "nat option"
  root_certificates :: "string list"
  root_mode :: http_root_certificate_mode
  client_identity :: "('c list \<times> 'k) option"

definition http_tls_default :: "('c, 'k) http_tls_config" where
  "http_tls_default = \<lparr>tls_provider = None, root_certificates = [], root_mode = Roots_Append, client_identity = None\<rparr>"

definition MAX_TLS_PEM_BYTES :: usize where
  "MAX_TLS_PEM_BYTES = 1024 * 1024"

definition MAX_TLS_CERTIFICATES :: usize where
  "MAX_TLS_CERTIFICATES = 128"

definition invalid_config :: "string \<Rightarrow> net_error" where
  "invalid_config fld = with_stage (config fld ''invalid HTTP client configuration'') St_Configuration"

definition pem_begin :: "string \<Rightarrow> string" where
  "pem_begin label = ''-----BEGIN '' @ label @ ''-----''"

definition pem_end :: "string \<Rightarrow> string" where
  "pem_end label = ''-----END '' @ label @ ''-----''"

text \<open>The loop over the blocks; \<open>alloc n\<close> says whether the vector of \<open>n\<close> blocks can grow.\<close>

function pem_loop :: "(nat \<Rightarrow> bool) \<Rightarrow> string \<Rightarrow> string \<Rightarrow> string \<Rightarrow> string list \<Rightarrow> (string list, net_error) result" where
  "pem_loop alloc label fld remaining blocks =
     (if remaining = [] then Inr blocks
      else if MAX_TLS_CERTIFICATES \<le> length blocks \<or> \<not> starts_with (pem_begin label) remaining then Inl (invalid_config fld)
      else case split_once (pem_end label) remaining of
             None \<Rightarrow> Inl (invalid_config fld)
           | Some (before, after) \<Rightarrow>
               let block = before @ pem_end label
               in if length block < length (pem_begin label)
                     \<or> split_once ''-----BEGIN '' (drop (length (pem_begin label)) block) \<noteq> None
                  then Inl (invalid_config fld)
                  else if \<not> alloc (length blocks) then Inl (invalid_config fld)
                  else pem_loop alloc label fld (str_trim after) (blocks @ [block]))"
  by pat_completeness auto
termination
proof (relation "measure (\<lambda>(_, _, _, remaining, _). length remaining)", simp, goal_cases)
  case (1 alloc label fld remaining blocks x before after block)
  then have "remaining = before @ pem_end label @ after" by (auto dest: split_once_Some)
  then have "length after < length remaining" by (simp add: pem_end_def)
  then show ?case using length_trim [of after] by simp
qed

declare pem_loop.simps [simp del]

definition strict_pem_blocks :: "(nat \<Rightarrow> bool) \<Rightarrow> string \<Rightarrow> string \<Rightarrow> string \<Rightarrow> (string list, net_error) result" where
  "strict_pem_blocks alloc bytes label fld =
     (if bytes = [] \<or> MAX_TLS_PEM_BYTES < length bytes then Inl (invalid_config fld)
      else if \<not> utf8_valid bytes then Inl (invalid_config fld)
      else try_bind (pem_loop alloc label fld (str_trim bytes) []) (\<lambda>blocks.
        if blocks = [] then Inl (invalid_config fld) else Inr blocks))"

fun add_roots :: "('c, 'k, 's) tls_lib \<Rightarrow> string \<Rightarrow> 's \<Rightarrow> 'c list \<Rightarrow> ('s, net_error) result" where
  "add_roots L fld roots [] = Inr roots"
| "add_roots L fld roots (c # cs) =
     (case roots_add L roots c of None \<Rightarrow> Inl (invalid_config fld) | Some roots \<Rightarrow> add_roots L fld roots cs)"

fun decode_blocks :: "(string \<Rightarrow> 'c option) \<Rightarrow> string \<Rightarrow> string list \<Rightarrow> ('c list, net_error) result" where
  "decode_blocks decode fld [] = Inr []"
| "decode_blocks decode fld (b # bs) =
     (case decode b of
        None \<Rightarrow> Inl (invalid_config fld)
      | Some c \<Rightarrow> try_bind (decode_blocks decode fld bs) (\<lambda>cs. Inr (c # cs)))"

definition parse_certificates ::
  "(nat \<Rightarrow> bool) \<Rightarrow> bool \<Rightarrow> ('c, 'k, 's) tls_lib \<Rightarrow> string \<Rightarrow> string \<Rightarrow> ('c list, net_error) result" where
  "parse_certificates alloc reserved L bytes fld =
     try_bind (strict_pem_blocks alloc bytes ''CERTIFICATE'' fld) (\<lambda>blocks.
       if MAX_TLS_CERTIFICATES < length blocks then Inl (invalid_config fld)
       else if \<not> reserved then Inl (invalid_config fld)
       else decode_blocks (certificate_from_pem L) fld blocks)"

text \<open>The source decodes and adds the blocks one by one; the first failure is the same error either way.\<close>

fun validate_roots :: "('c, 'k, 's) tls_lib \<Rightarrow> string \<Rightarrow> 's \<Rightarrow> string list \<Rightarrow> ('s, net_error) result" where
  "validate_roots L fld roots [] = Inr roots"
| "validate_roots L fld roots (b # bs) =
     (case certificate_from_pem L b of
        None \<Rightarrow> Inl (invalid_config fld)
      | Some c \<Rightarrow>
          (case roots_add L roots c of
             None \<Rightarrow> Inl (invalid_config fld)
           | Some roots \<Rightarrow> validate_roots L fld roots bs))"

definition validate_root_certificates ::
  "(nat \<Rightarrow> bool) \<Rightarrow> ('c, 'k, 's) tls_lib \<Rightarrow> string \<Rightarrow> (unit, net_error) result" where
  "validate_root_certificates alloc L bytes =
     (let fld = ''tls.root_certificates''
      in if bytes = [] \<or> MAX_TLS_PEM_BYTES < length bytes then Inl (invalid_config fld)
         else try_bind (strict_pem_blocks alloc bytes ''CERTIFICATE'' fld) (\<lambda>blocks.
           if MAX_TLS_CERTIFICATES < length blocks then Inl (invalid_config fld)
           else try_bind (validate_roots L fld (roots_empty L) blocks) (\<lambda>roots.
             if roots_is_empty L roots then Inl (invalid_config fld) else Inr ())))"

definition with_root_certificates ::
  "(nat \<Rightarrow> bool) \<Rightarrow> ('c, 'k, 's) tls_lib \<Rightarrow> string \<Rightarrow> bool \<Rightarrow> ('c, 'k) http_tls_config
     \<Rightarrow> (('c, 'k) http_tls_config, net_error) result" where
  "with_root_certificates alloc L bytes replace_builtin_roots self =
     try_bind (validate_root_certificates alloc L bytes) (\<lambda>_.
       Inr (self\<lparr>root_certificates := [bytes],
                 root_mode := if replace_builtin_roots then Roots_Replace else Roots_Append\<rparr>))"

definition with_additional_root_certificate ::
  "(nat \<Rightarrow> bool) \<Rightarrow> ('c, 'k, 's) tls_lib \<Rightarrow> string \<Rightarrow> ('c, 'k) http_tls_config
     \<Rightarrow> (('c, 'k) http_tls_config, net_error) result" where
  "with_additional_root_certificate alloc L bytes self =
     (if MAX_TLS_CERTIFICATES \<le> length (root_certificates self) then Inl (invalid_config ''tls.root_certificates'')
      else try_bind (validate_root_certificates alloc L bytes) (\<lambda>_.
        Inr (self\<lparr>root_certificates := root_certificates self @ [bytes]\<rparr>)))"

definition with_client_identity_pem ::
  "(nat \<Rightarrow> bool) \<Rightarrow> bool \<Rightarrow> ('c, 'k, 's) tls_lib \<Rightarrow> string \<Rightarrow> string \<Rightarrow> ('c, 'k) http_tls_config
     \<Rightarrow> (('c, 'k) http_tls_config, net_error) result" where
  "with_client_identity_pem alloc reserved L certificates private_key self =
     (if certificates = [] \<or> private_key = [] \<or> MAX_TLS_PEM_BYTES < length certificates
         \<or> MAX_TLS_PEM_BYTES < length private_key
      then Inl (invalid_config ''tls.client_identity'')
      else try_bind (parse_certificates alloc reserved L certificates ''tls.client_identity.certificates'') (\<lambda>chain.
        try_bind (strict_pem_blocks alloc private_key ''PRIVATE KEY'' ''tls.client_identity.private_key'') (\<lambda>keys.
          case keys of
            [key] \<Rightarrow>
              (case key_from_pem L key of
                 None \<Rightarrow> Inl (invalid_config ''tls.client_identity.private_key'')
               | Some key \<Rightarrow> Inr (self\<lparr>client_identity := Some (chain, key)\<rparr>))
          | _ \<Rightarrow> Inl (invalid_config ''tls.client_identity.private_key''))))"

fun compile_bundles ::
  "(nat \<Rightarrow> bool) \<Rightarrow> bool \<Rightarrow> ('c, 'k, 's) tls_lib \<Rightarrow> 's \<Rightarrow> string list \<Rightarrow> ('s, net_error) result" where
  "compile_bundles alloc reserved L roots [] = Inr roots"
| "compile_bundles alloc reserved L roots (p # ps) =
     try_bind (parse_certificates alloc reserved L p ''tls.root_certificates'') (\<lambda>cs.
       try_bind (add_roots L ''tls.root_certificates'' roots cs) (\<lambda>roots. compile_bundles alloc reserved L roots ps))"

definition root_store :: "('c, 'k, 's) tls_lib \<Rightarrow> bool \<Rightarrow> 's" where
  "root_store L include_builtin = (if include_builtin then roots_builtin L else roots_empty L)"

definition compile_roots ::
  "(nat \<Rightarrow> bool) \<Rightarrow> bool \<Rightarrow> ('c, 'k, 's) tls_lib \<Rightarrow> ('c, 'k) http_tls_config \<Rightarrow> ('s, net_error) result" where
  "compile_roots alloc reserved L self =
     try_bind (compile_bundles alloc reserved L (root_store L (root_mode self = Roots_Append)) (root_certificates self)) (\<lambda>roots.
       if roots_is_empty L roots then Inl (invalid_config ''tls.root_certificates'') else Inr roots)"

definition select_provider :: "nat option \<Rightarrow> nat option \<Rightarrow> (nat, net_error) result" where
  "select_provider process_default explicit =
     (case or_option explicit process_default of
        Some p \<Rightarrow> Inr p
      | None \<Rightarrow>
          Inl (config ''tls.provider'' ''configure a rustls CryptoProvider or install an application process default''))"

section \<open>Proxy\<close>

record http_proxy_config =
  proxy_url :: string
  proxy_username :: "string option"
  proxy_password :: "string option"

definition proxy_http :: "('u, 'o) url_lib \<Rightarrow> string \<Rightarrow> (http_proxy_config, net_error) result" where
  "proxy_http U url =
     (case url_parse U url of
        None \<Rightarrow> Inl (invalid_config ''proxy.url'')
      | Some parsed \<Rightarrow>
          if url_scheme U parsed \<noteq> ''http'' \<or> url_host_str U parsed = None \<or> url_port U parsed = None
             \<or> url_username U parsed \<noteq> [] \<or> url_password U parsed \<noteq> None \<or> url_path U parsed \<noteq> ''/''
             \<or> url_query U parsed \<noteq> None \<or> url_fragment U parsed \<noteq> None
          then Inl (invalid_config ''proxy.url'')
          else Inr \<lparr>proxy_url = url_text U parsed, proxy_username = None, proxy_password = None\<rparr>)"

definition with_basic_auth :: "string \<Rightarrow> string \<Rightarrow> http_proxy_config \<Rightarrow> (http_proxy_config, net_error) result" where
  "with_basic_auth username password self =
     (if username = [] \<or> 1024 < length username \<or> 4096 < length password then Inl (invalid_config ''proxy.credentials'')
      else Inr (self\<lparr>proxy_username := Some username, proxy_password := Some password\<rparr>))"

definition proxy_credentials :: "http_proxy_config \<Rightarrow> (string \<times> string) option" where
  "proxy_credentials self =
     (case (proxy_username self, proxy_password self) of (Some u, Some p) \<Rightarrow> Some (u, p) | _ \<Rightarrow> None)"

section \<open>The client's configuration\<close>

datatype http_admission_policy = Admission_Wait | Admission_FailFast

record ('u, 'h, 'c, 'k, 'p) http_client_config =
  base_url :: 'u
  common_headers :: 'h
  cfg_timeout :: duration
  cfg_connect_timeout :: "duration option"
  cfg_timeouts :: http_timeouts
  cfg_admission_policy :: http_admission_policy
  cfg_redirect_policy :: "'u redirect_policy"
  transport_security :: http_transport_security
  cfg_tcp_keepalive :: "duration option"
  max_response_bytes :: usize
  request_queue_capacity :: usize
  response_queue_capacity :: usize
  callback_queue_capacity :: usize
  default_retry_policy :: "'p http_retry_policy"
  cfg_tls :: "('c, 'k) http_tls_config"
  cfg_proxy :: "http_proxy_config option"
  environment_proxy :: bool

definition http_config_new ::
  "('u, 'o) url_lib \<Rightarrow> 'h header_lib \<Rightarrow> string \<Rightarrow> (('u, 'h, 'c, 'k, 'p) http_client_config, net_error) result" where
  "http_config_new U H value =
     (case url_parse U value of
        None \<Rightarrow> Inl (invalid_config ''base_url'')
      | Some parsed \<Rightarrow>
          if url_scheme U parsed \<noteq> ''http'' \<and> url_scheme U parsed \<noteq> ''https'' then Inl (invalid_config ''base_url'')
          else if url_host_str U parsed = None \<or> url_username U parsed \<noteq> [] \<or> url_password U parsed \<noteq> None
             \<or> url_fragment U parsed \<noteq> None
          then Inl (invalid_config ''base_url'')
          else Inr \<lparr>base_url = parsed, common_headers = hm_new H, cfg_timeout = 30 * NANOS_PER_SEC,
            cfg_connect_timeout = None, cfg_timeouts = http_timeouts_new, cfg_admission_policy = Admission_Wait,
            cfg_redirect_policy = same_origin, transport_security = PreventDowngrade,
            cfg_tcp_keepalive = Some (15 * NANOS_PER_SEC), max_response_bytes = 1024 * 1024 * 1024,
            request_queue_capacity = 128, response_queue_capacity = 128, callback_queue_capacity = 128,
            default_retry_policy = http_no_retry, cfg_tls = http_tls_default, cfg_proxy = None,
            environment_proxy = False\<rparr>)"

definition is_hop_by_hop :: "string \<Rightarrow> bool" where
  "is_hop_by_hop name \<longleftrightarrow> map ascii_lower name \<in> {''connection'', ''keep-alive'', ''proxy-connection'', ''proxy-authenticate'',
     ''proxy-authorization'', ''te'', ''trailer'', ''transfer-encoding'', ''upgrade'', ''host'', ''content-length''}"

definition validate_headers :: "'h header_lib \<Rightarrow> 'h \<Rightarrow> (unit, net_error) result" where
  "validate_headers H headers =
     (if list_ex is_hop_by_hop (hm_keys H headers) then Inl (invalid_config ''headers'') else Inr ())"

definition validate_queue_capacity :: "nat \<Rightarrow> usize \<Rightarrow> string \<Rightarrow> (unit, net_error) result" where
  "validate_queue_capacity max_permits capacity fld =
     (if capacity = 0 \<or> max_permits < capacity then Inl (invalid_config fld) else Inr ())"

definition with_transport_security ::
  "('u, 'o) url_lib \<Rightarrow> http_transport_security \<Rightarrow> ('u, 'h, 'c, 'k, 'p) http_client_config
     \<Rightarrow> (('u, 'h, 'c, 'k, 'p) http_client_config, net_error) result" where
  "with_transport_security U security self =
     (if security = HttpsOnly \<and> url_scheme U (base_url self) \<noteq> ''https''
      then Inl (invalid_config ''http.transport_security'')
      else Inr (self\<lparr>transport_security := security\<rparr>))"

definition with_common_headers ::
  "'h header_lib \<Rightarrow> 'h \<Rightarrow> ('u, 'h, 'c, 'k, 'p) http_client_config
     \<Rightarrow> (('u, 'h, 'c, 'k, 'p) http_client_config, net_error) result" where
  "with_common_headers H headers self =
     try_bind (validate_headers H headers) (\<lambda>_. Inr (self\<lparr>common_headers := headers\<rparr>))"

definition with_timeout ::
  "instant \<Rightarrow> duration \<Rightarrow> ('u, 'h, 'c, 'k, 'p) http_client_config
     \<Rightarrow> (('u, 'h, 'c, 'k, 'p) http_client_config, net_error) result" where
  "with_timeout now d self =
     try_bind (http_validate_duration now d ''http.timeout'' False) (\<lambda>_. Inr (self\<lparr>cfg_timeout := d\<rparr>))"

definition with_connect_timeout ::
  "instant \<Rightarrow> duration \<Rightarrow> ('u, 'h, 'c, 'k, 'p) http_client_config
     \<Rightarrow> (('u, 'h, 'c, 'k, 'p) http_client_config, net_error) result" where
  "with_connect_timeout now d self =
     try_bind (http_validate_duration now d ''http.connect_timeout'' False) (\<lambda>_. Inr (self\<lparr>cfg_connect_timeout := Some d\<rparr>))"

definition config_with_timeouts ::
  "clock \<Rightarrow> http_timeouts \<Rightarrow> ('u, 'h, 'c, 'k, 'p) http_client_config
     \<Rightarrow> (('u, 'h, 'c, 'k, 'p) http_client_config, net_error) result" where
  "config_with_timeouts clk timeouts self =
     try_bind (timeouts_validate clk timeouts) (\<lambda>_. Inr (self\<lparr>cfg_timeouts := timeouts\<rparr>))"

definition with_tcp_keepalive ::
  "duration \<Rightarrow> ('u, 'h, 'c, 'k, 'p) http_client_config \<Rightarrow> ('u, 'h, 'c, 'k, 'p) http_client_config" where
  "with_tcp_keepalive interval self = self\<lparr>cfg_tcp_keepalive := if interval = 0 then None else Some interval\<rparr>"

definition with_max_response_bytes ::
  "usize \<Rightarrow> ('u, 'h, 'c, 'k, 'p) http_client_config \<Rightarrow> (('u, 'h, 'c, 'k, 'p) http_client_config, net_error) result" where
  "with_max_response_bytes n self =
     (if n = 0 then Inl (invalid_config ''max_response_bytes'') else Inr (self\<lparr>max_response_bytes := n\<rparr>))"

definition with_request_queue_capacity ::
  "nat \<Rightarrow> usize \<Rightarrow> ('u, 'h, 'c, 'k, 'p) http_client_config \<Rightarrow> (('u, 'h, 'c, 'k, 'p) http_client_config, net_error) result" where
  "with_request_queue_capacity max_permits n self =
     try_bind (validate_queue_capacity max_permits n ''request_queue_capacity'') (\<lambda>_. Inr (self\<lparr>request_queue_capacity := n\<rparr>))"

definition with_response_queue_capacity ::
  "nat \<Rightarrow> usize \<Rightarrow> ('u, 'h, 'c, 'k, 'p) http_client_config \<Rightarrow> (('u, 'h, 'c, 'k, 'p) http_client_config, net_error) result" where
  "with_response_queue_capacity max_permits n self =
     try_bind (validate_queue_capacity max_permits n ''response_queue_capacity'') (\<lambda>_. Inr (self\<lparr>response_queue_capacity := n\<rparr>))"

definition with_callback_queue_capacity ::
  "nat \<Rightarrow> usize \<Rightarrow> ('u, 'h, 'c, 'k, 'p) http_client_config \<Rightarrow> (('u, 'h, 'c, 'k, 'p) http_client_config, net_error) result" where
  "with_callback_queue_capacity max_permits n self =
     try_bind (validate_queue_capacity max_permits n ''callback_queue_capacity'') (\<lambda>_. Inr (self\<lparr>callback_queue_capacity := n\<rparr>))"

definition http_config_validate ::
  "('u, 'o) url_lib \<Rightarrow> 'h header_lib \<Rightarrow> nat \<Rightarrow> clock \<Rightarrow> ('u, 'h, 'c, 'k, 'p) http_client_config \<Rightarrow> (unit, net_error) result" where
  "http_config_validate U H max_permits clk self =
     (let scheme = url_scheme U (base_url self)
      in if (scheme \<noteq> ''http'' \<and> scheme \<noteq> ''https'') \<or> url_host_str U (base_url self) = None
         then Inl (invalid_config ''base_url'')
         else if url_username U (base_url self) \<noteq> [] \<or> url_password U (base_url self) \<noteq> None
            \<or> url_fragment U (base_url self) \<noteq> None
         then Inl (invalid_config ''base_url'')
         else if transport_security self = HttpsOnly \<and> scheme \<noteq> ''https''
         then Inl (invalid_config ''http.transport_security'')
         else
           try_bind (http_validate_duration (clk 0) (cfg_timeout self) ''http.timeout'' False) (\<lambda>_.
           try_bind (case cfg_connect_timeout self of
               Some d \<Rightarrow> http_validate_duration (clk 1) d ''http.connect_timeout'' False | None \<Rightarrow> Inr ()) (\<lambda>_.
           try_bind (timeouts_validate (\<lambda>n. clk (n + 2)) (cfg_timeouts self)) (\<lambda>_.
             if cfg_tcp_keepalive self = Some 0 then Inl (invalid_config ''tcp_keepalive'')
             else if max_response_bytes self = 0 then Inl (invalid_config ''max_response_bytes'')
             else
               try_bind (validate_queue_capacity max_permits (request_queue_capacity self) ''request_queue_capacity'') (\<lambda>_.
               try_bind (validate_queue_capacity max_permits (response_queue_capacity self) ''response_queue_capacity'') (\<lambda>_.
               try_bind (validate_queue_capacity max_permits (callback_queue_capacity self) ''callback_queue_capacity'') (\<lambda>_.
                 validate_headers H (common_headers self))))))))"

text \<open>The request's names replace the client's, in the order of the keys and of the values of a key.\<close>

fun append_all :: "'h header_lib \<Rightarrow> string \<Rightarrow> header_value list \<Rightarrow> 'h \<Rightarrow> 'h" where
  "append_all H name [] merged = merged"
| "append_all H name (v # vs) merged = append_all H name vs (hm_append H merged name v)"

fun merge_names :: "'h header_lib \<Rightarrow> 'h \<Rightarrow> string list \<Rightarrow> 'h \<Rightarrow> 'h" where
  "merge_names H request_headers [] merged = merged"
| "merge_names H request_headers (name # names) merged =
     merge_names H request_headers names
       (append_all H name (hm_get_all H request_headers name) (hm_remove H merged name))"

definition merge_headers ::
  "('u, 'o) url_lib \<Rightarrow> 'h header_lib \<Rightarrow> nat \<Rightarrow> clock \<Rightarrow> ('u, 'h, 'c, 'k, 'p) http_client_config \<Rightarrow> 'h \<Rightarrow> ('h, net_error) result" where
  "merge_headers U H max_permits clk self request_headers =
     try_bind (http_config_validate U H max_permits clk self) (\<lambda>_.
     try_bind (validate_headers H request_headers) (\<lambda>_.
       Inr (merge_names H request_headers (hm_keys H request_headers) (common_headers self))))"

definition invalid_request_path :: net_error where
  "invalid_request_path = with_stage (input ''request.path'' ''must be a safe relative path'') St_RequestBuild"

definition resolve_request_path ::
  "('u, 'o) url_lib \<Rightarrow> ('u, 'h, 'c, 'k, 'p) http_client_config \<Rightarrow> string \<Rightarrow> ('u, net_error) result" where
  "resolve_request_path U self path =
     (let path = str_trim path
      in if path = [] \<or> starts_with ''//'' path \<or> starts_with [CHR 0x5C] path \<or> contains_any [CHR 0x5C] path
            \<or> contains_any ''#'' path \<or> any_control path
         then Inl invalid_request_path
         else if is_some_and (url_parse U path) (\<lambda>parsed. url_scheme U parsed \<noteq> [] \<or> url_host_str U parsed \<noteq> None)
         then Inl invalid_request_path
         else case url_join U (base_url self) path of
                None \<Rightarrow> Inl invalid_request_path
              | Some joined \<Rightarrow>
                  if url_scheme U joined \<noteq> url_scheme U (base_url self)
                     \<or> url_host_str U joined \<noteq> url_host_str U (base_url self)
                     \<or> url_port U joined \<noteq> url_port U (base_url self)
                     \<or> url_username U joined \<noteq> [] \<or> url_password U joined \<noteq> None \<or> url_fragment U joined \<noteq> None
                  then Inl invalid_request_path
                  else Inr joined)"

section \<open>Header maps\<close>

text \<open>What the \<open>http\<close> crate documents of a header map: \<open>remove\<close> takes every value of a name, \<open>append\<close> adds one
  after the others, \<open>keys\<close> has each name with a value once, \<open>iter\<close> has the values of a name in their order, and
  \<open>get\<close> returns the first.\<close>

definition header_laws :: "'h header_lib \<Rightarrow> bool" where
  "header_laws H \<longleftrightarrow>
     (\<forall>h n m. hm_get_all H (hm_remove H h n) m = (if m = n then [] else hm_get_all H h m))
     \<and> (\<forall>h n v m. hm_get_all H (hm_append H h n v) m = hm_get_all H h m @ (if m = n then [v] else []))
     \<and> (\<forall>h n. n \<in> set (hm_keys H h) \<longleftrightarrow> hm_get_all H h n \<noteq> [])
     \<and> (\<forall>h. distinct (hm_keys H h))
     \<and> (\<forall>h n. map snd (filter (\<lambda>(m, _). m = n) (hm_iter H h)) = hm_get_all H h n)
     \<and> (\<forall>h n. hm_get H h n = (case hm_get_all H h n of [] \<Rightarrow> None | v # _ \<Rightarrow> Some v))"

lemma header_lawsD:
  assumes "header_laws H"
  shows "hm_get_all H (hm_remove H h n) m = (if m = n then [] else hm_get_all H h m)"
    "hm_get_all H (hm_append H h n v) m = hm_get_all H h m @ (if m = n then [v] else [])"
    "n \<in> set (hm_keys H h) \<longleftrightarrow> hm_get_all H h n \<noteq> []" "distinct (hm_keys H h)"
    "(n, v) \<in> set (hm_iter H h) \<longleftrightarrow> v \<in> set (hm_get_all H h n)"
proof -
  show "hm_get_all H (hm_remove H h n) m = (if m = n then [] else hm_get_all H h m)"
    "hm_get_all H (hm_append H h n v) m = hm_get_all H h m @ (if m = n then [v] else [])"
    "n \<in> set (hm_keys H h) \<longleftrightarrow> hm_get_all H h n \<noteq> []" "distinct (hm_keys H h)"
    using assms unfolding header_laws_def by blast+
  have "map snd (filter (\<lambda>(m, _). m = n) (hm_iter H h)) = hm_get_all H h n"
    using assms unfolding header_laws_def by blast
  from arg_cong [where f = set, OF this] show "(n, v) \<in> set (hm_iter H h) \<longleftrightarrow> v \<in> set (hm_get_all H h n)" by force
qed

lemma append_all_get:
  assumes "header_laws H"
  shows "hm_get_all H (append_all H name vs h) m = hm_get_all H h m @ (if m = name then vs else [])"
  by (induction vs arbitrary: h) (simp_all add: header_lawsD [OF assms])

lemma merge_names_get:
  assumes "header_laws H" and "distinct names"
  shows "hm_get_all H (merge_names H req names merged) m
    = (if m \<in> set names then hm_get_all H req m else hm_get_all H merged m)"
  using assms(2)
  by (induction names arbitrary: merged) (auto simp: append_all_get [OF assms(1)] header_lawsD(1) [OF assms(1)])

text \<open>A list of lines is a header map with these laws.\<close>

definition line_headers :: "(string \<times> header_value) list header_lib" where
  "line_headers = \<lparr>hm_get = map_of, hm_get_all = (\<lambda>h n. map snd (filter (\<lambda>(m, _). m = n) h)),
     hm_keys = (\<lambda>h. remdups (map fst h)), hm_iter = (\<lambda>h. h), hm_remove = (\<lambda>h n. filter (\<lambda>(m, _). m \<noteq> n) h),
     hm_append = (\<lambda>h n v. h @ [(n, v)]), hm_new = []\<rparr>"

lemma line_headers_laws: "header_laws line_headers"
proof -
  have "filter (\<lambda>(m, _). m = a) (filter (\<lambda>(m, _). m \<noteq> n) h) = (if a = n then [] else filter (\<lambda>(m, _). m = a) h)"
    for h :: "(string \<times> header_value) list" and n a by (induction h) auto
  moreover have "n \<in> fst ` set h \<longleftrightarrow> filter (\<lambda>(m, _). m = n) h \<noteq> []" for h :: "(string \<times> header_value) list" and n
    by (induction h) auto
  moreover have "map_of h n = (case map snd (filter (\<lambda>(m, _). m = n) h) of [] \<Rightarrow> None | v # _ \<Rightarrow> Some v)"
    for h :: "(string \<times> header_value) list" and n by (induction h) auto
  ultimately show ?thesis by (simp add: header_laws_def line_headers_def)
qed

text \<open>Simple URLs: a scheme, an authority and a path.\<close>

type_synonym plain_url = "string \<times> string \<times> string"

definition plain_parse :: "string \<Rightarrow> plain_url option" where
  "plain_parse s =
     (case split_once ''://'' s of
        None \<Rightarrow> None
      | Some (scheme, rest) \<Rightarrow>
          (case find_char (CHR ''/'') rest of
             None \<Rightarrow> Some (scheme, rest, ''/'')
           | Some i \<Rightarrow> Some (scheme, take i rest, drop i rest)))"

definition plain_urls :: "(plain_url, string \<times> string) url_lib" where
  "plain_urls = \<lparr>url_parse = plain_parse,
     url_join = (\<lambda>(scheme, host, _) s. case plain_parse s of Some u \<Rightarrow> Some u | None \<Rightarrow> Some (scheme, host, s)),
     url_without_fragment = (\<lambda>u. u), url_scheme = fst, url_host_str = (\<lambda>(_, host, _). Some host),
     url_port = (\<lambda>_. None), url_username = (\<lambda>_. []), url_password = (\<lambda>_. None), url_path = (\<lambda>(_, _, path). path),
     url_query = (\<lambda>_. None), url_fragment = (\<lambda>_. None), url_text = (\<lambda>(scheme, host, path). scheme @ ''://'' @ host @ path),
     url_origin = (\<lambda>(scheme, host, _). (scheme, host))\<rparr>"

definition example_http_config :: "(plain_url, (string \<times> header_value) list, unit, unit, unit) http_client_config" where
  "example_http_config = \<lparr>base_url = (''https'', ''api'', ''/''),
     common_headers = [(''accept'', \<lparr>hv_str = Some ''any'', hv_sensitive = False\<rparr>)], cfg_timeout = 30 * NANOS_PER_SEC,
     cfg_connect_timeout = None, cfg_timeouts = http_timeouts_new, cfg_admission_policy = Admission_Wait,
     cfg_redirect_policy = same_origin, transport_security = PreventDowngrade, cfg_tcp_keepalive = None,
     max_response_bytes = 5, request_queue_capacity = 4, response_queue_capacity = 4, callback_queue_capacity = 4,
     default_retry_policy = http_no_retry, cfg_tls = http_tls_default, cfg_proxy = None, environment_proxy = False\<rparr>"

section \<open>Properties\<close>

text \<open>C40. What a request sends is decided by the validated configuration. For every header name the request's own
  values, in their order, replace the client's values of that name, and the client's other headers stay; none is a
  hop-by-hop header. An accepted path resolves to a URL of the base URL's scheme, host and port, with no credentials
  and no fragment.\<close>

theorem requests_stay_within_the_configuration:
  assumes "header_laws H" and "merge_headers U H max_permits clk cfg req = Inr merged"
    and "resolve_request_path U cfg path = Inr url"
  shows "hm_get_all H merged name = (if hm_get_all H req name = [] then hm_get_all H (common_headers cfg) name else hm_get_all H req name)
    \<and> (is_hop_by_hop name \<longrightarrow> hm_get_all H merged name = [])
    \<and> url_scheme U url = url_scheme U (base_url cfg) \<and> url_scheme U url \<in> {''http'', ''https''}
    \<and> (transport_security cfg = HttpsOnly \<longrightarrow> url_scheme U url = ''https'')
    \<and> url_host_str U url = url_host_str U (base_url cfg) \<and> url_port U url = url_port U (base_url cfg)
    \<and> url_username U url = [] \<and> url_password U url = None \<and> url_fragment U url = None"
proof -
  have ok: "http_config_validate U H max_permits clk cfg = Inr ()" "validate_headers H req = Inr ()"
    and merged: "merged = merge_names H req (hm_keys H req) (common_headers cfg)"
    using assms(2) by (auto simp: merge_headers_def try_bind_Inr)
  have vals: "hm_get_all H merged n = (if hm_get_all H req n = [] then hm_get_all H (common_headers cfg) n else hm_get_all H req n)" for n
    using merge_names_get [OF assms(1) header_lawsD(4) [OF assms(1)]] header_lawsD(3) [OF assms(1)] unfolding merged by auto
  have common: "validate_headers H (common_headers cfg) = Inr ()"
    using ok(1) by (auto simp: http_config_validate_def Let_def try_bind_Inr split: if_split_asm)
  have clean: "\<not> is_hop_by_hop n" if "validate_headers H h = Inr ()" "hm_get_all H h n \<noteq> []" for h n
    using that header_lawsD(3) [OF assms(1)] by (auto simp: validate_headers_def list_ex_iff split: if_split_asm)
  have "is_hop_by_hop name \<longrightarrow> hm_get_all H merged name = []" using vals clean [OF ok(2)] clean [OF common] by metis
  moreover have "url_scheme U (base_url cfg) \<in> {''http'', ''https''}"
    "transport_security cfg = HttpsOnly \<Longrightarrow> url_scheme U (base_url cfg) = ''https''"
    using ok(1) by (auto simp: http_config_validate_def Let_def split: if_split_asm)
  moreover have "url_scheme U url = url_scheme U (base_url cfg)" "url_host_str U url = url_host_str U (base_url cfg)"
    "url_port U url = url_port U (base_url cfg)" "url_username U url = []" "url_password U url = None" "url_fragment U url = None"
    using assms(3) by (auto simp: resolve_request_path_def Let_def split: if_split_asm option.split_asm)
  ultimately show ?thesis using vals by metis
qed

theorem requests_stay_within_the_configuration_witness:
  "\<exists>merged url. merge_headers plain_urls line_headers 9 (\<lambda>_. 0) example_http_config
       [(''accept'', \<lparr>hv_str = Some ''text'', hv_sensitive = False\<rparr>)] = Inr merged
     \<and> resolve_request_path plain_urls example_http_config ''/b'' = Inr url
     \<and> hm_get_all line_headers merged ''accept'' = [\<lparr>hv_str = Some ''text'', hv_sensitive = False\<rparr>]
     \<and> url_host_str plain_urls url = Some ''api''"
proof -
  let ?req = "[(''accept'', \<lparr>hv_str = Some ''text'', hv_sensitive = False\<rparr>)]"
  have cfg: "http_config_validate plain_urls line_headers 9 (\<lambda>_. 0) example_http_config = Inr ()"
    by (simp add: http_config_validate_def example_http_config_def plain_urls_def line_headers_def http_validate_duration_def
        timeouts_validate_def validate_with_def http_timeouts_new_def validate_queue_capacity_def validate_headers_def
        is_hop_by_hop_def ascii_lower_def instant_checked_add_def INSTANT_MAX_def NANOS_PER_SEC_def)
  have "validate_headers line_headers ?req = Inr ()"
    by (simp add: validate_headers_def line_headers_def is_hop_by_hop_def ascii_lower_def)
  with cfg obtain merged where m: "merge_headers plain_urls line_headers 9 (\<lambda>_. 0) example_http_config ?req = Inr merged"
    by (simp add: merge_headers_def)
  have "resolve_request_path plain_urls example_http_config ''/b'' = Inr (''https'', ''api'', ''/b'')"
    by (simp add: resolve_request_path_def plain_urls_def example_http_config_def plain_parse_def split_once.simps str_trim_def
        str_trim_end_def utf8_width_def is_whitespace_def any_control_def is_control_def contains_any_def std_simps)
  from requests_stay_within_the_configuration [OF line_headers_laws m this, of "''accept''"] m this
  show ?thesis by (auto simp: line_headers_def plain_urls_def example_http_config_def)
qed

end
