(* ===== verification/Http_Request.thy ===== *)
theory Http_Request
  imports Http_Timeouts Machine Assoc_Lists
begin

unbundle bit_operations_syntax

text \<open>
  The life of one HTTP request inside the engine: the cancellation signal, the observer of its retries, the
  registry of requests and the lease that settles it, of \<open>src/module/http/http_client_inner.rs\<close> and
  \<open>src/module/http/request_completion.rs\<close>, without the optional features of authentication, cookies,
  middleware and diagnostics. A shared signal is its identity in a store. An atomic that several threads
  change is read and written in one step; the compare-and-exchange loop of \<open>request_cancel\<close> takes what
  happens between its rounds as an argument.
\<close>

section \<open>The cancellation signal\<close>

type_synonym sig_id = nat
type_synonym http_observer = nat
type_synonym http_permit = nat

record http_response_summary =
  hs_status :: u16
  hs_attempts :: u32

record http_completion =
  hc_retry_report :: retry_report
  hc_request_id :: http_request_id
  hc_response :: "(http_response_summary, net_error) result"
  hc_callback :: "(unit, net_error) result"

record pending_retry_observation =
  po_observer :: http_observer
  po_attempt :: "u32 option"
  po_report :: retry_report

text \<open>Observable effects. A permit is shared by reference counting: \<open>H_DropPermit\<close> drops one reference to it, and the
  semaphore gets the permit back with the last one.\<close>

datatype http_effect =
    H_Notify http_observer retry_event
  | H_CancelWaiters sig_id
  | H_CompletionWaiters sig_id http_completion
  | H_RegistryChanged
  | H_DropPermit http_permit

definition observation_emit :: "pending_retry_observation \<Rightarrow> http_effect list" where
  "observation_emit self =
     (case po_attempt self of None \<Rightarrow> [] | Some n \<Rightarrow> [H_Notify (po_observer self) (AttemptFinished n True)])
     @ [H_Notify (po_observer self) (Event_Completed (po_report self))]"

record cancellation_signal =
  sig_phase :: u8
  sig_completion :: "http_completion option"
  sig_retry_report :: "retry_report option"
  defer_observer :: bool
  pending_observation :: "pending_retry_observation option"
  sig_transport_sends :: u64
  sig_attempt :: u32
  streaming :: bool

definition signal_new :: cancellation_signal where
  "signal_new = \<lparr>sig_phase = 0, sig_completion = None, sig_retry_report = None, defer_observer = False,
     pending_observation = None, sig_transport_sends = 0, sig_attempt = 0, streaming = False\<rparr>"

type_synonym signals = "sig_id \<Rightarrow> cancellation_signal"

definition set_retry_report :: "retry_report \<Rightarrow> cancellation_signal \<Rightarrow> cancellation_signal" where
  "set_retry_report r self = self\<lparr>sig_retry_report := Some r\<rparr>"

definition emit_pending_observation :: "retry_report \<Rightarrow> cancellation_signal \<Rightarrow> cancellation_signal \<times> http_effect list" where
  "emit_pending_observation r self =
     (self\<lparr>pending_observation := None\<rparr>,
      (case pending_observation self of None \<Rightarrow> [] | Some t \<Rightarrow> observation_emit (t\<lparr>po_report := r\<rparr>)))"

definition signal_record_transport_send :: "cancellation_signal \<Rightarrow> cancellation_signal \<times> (unit, net_error) result" where
  "signal_record_transport_send self =
     (case checked_add (sig_transport_sends self) 1 of
        Some n \<Rightarrow> (self\<lparr>sig_transport_sends := n\<rparr>, Inr ())
      | None \<Rightarrow> (self, Inl (with_stage (from_kind K_Internal) St_Dispatch)))"

datatype http_cancel_outcome = Cancel_Requested | Cancel_AlreadyRequested | Cancel_TooLate

definition CANCELLED :: u8 where
  "CANCELLED = 1"

definition CALLBACK_OR_COMPLETE :: u8 where
  "CALLBACK_OR_COMPLETE = 2"

text \<open>The two atomic pieces of the loop: the tests on the phase that was read, and the weak exchange, which may fail
  although the value is the expected one and then gives the value it observed.\<close>

definition cancel_test :: "u8 \<Rightarrow> http_cancel_outcome option" where
  "cancel_test current =
     (if current AND CALLBACK_OR_COMPLETE \<noteq> 0 then Some Cancel_TooLate
      else if current AND CANCELLED \<noteq> 0 then Some Cancel_AlreadyRequested
      else None)"

definition cancel_exchange :: "bool \<Rightarrow> u8 \<Rightarrow> cancellation_signal \<Rightarrow> cancellation_signal \<times> u8 option" where
  "cancel_exchange spurious current self =
     (if sig_phase self = current \<and> \<not> spurious
      then (self\<lparr>sig_phase := current OR CANCELLED\<rparr>, None)
      else (self, Some (sig_phase self)))"

text \<open>One round of the loop: the bits that other threads set before the exchange, and whether the exchange fails
  spuriously. The outcome \<open>None\<close> is a loop that has not ended yet.\<close>

fun request_cancel_loop ::
  "(u8 \<times> bool) list \<Rightarrow> u8 \<Rightarrow> cancellation_signal \<Rightarrow> cancellation_signal \<times> http_cancel_outcome option" where
  "request_cancel_loop rounds current self =
     (case cancel_test current of
        Some outcome \<Rightarrow> (self, Some outcome)
      | None \<Rightarrow>
          (case rounds of
             [] \<Rightarrow> (self, None)
           | (bits, spurious) # rest \<Rightarrow>
               (case cancel_exchange spurious current (self\<lparr>sig_phase := sig_phase self OR bits\<rparr>) of
                  (self, None) \<Rightarrow> (self, Some Cancel_Requested)
                | (self, Some observed) \<Rightarrow> request_cancel_loop rest observed self)))"

declare request_cancel_loop.simps [simp del]

definition request_cancel ::
  "(u8 \<times> bool) list \<Rightarrow> sig_id \<Rightarrow> signals \<Rightarrow> signals \<times> http_effect list \<times> http_cancel_outcome option" where
  "request_cancel rounds i sigs =
     (let (s, res) = request_cancel_loop rounds (sig_phase (sigs i)) (sigs i)
      in (sigs(i := s), (if res = Some Cancel_Requested then [H_CancelWaiters i] else []), res))"

definition signal_is_cancelled :: "cancellation_signal \<Rightarrow> bool" where
  "signal_is_cancelled self \<longleftrightarrow> sig_phase self AND 1 \<noteq> 0"

definition enter_callback :: "cancellation_signal \<Rightarrow> cancellation_signal \<times> bool" where
  "enter_callback self = (self\<lparr>sig_phase := sig_phase self OR 2\<rparr>, sig_phase self AND 1 \<noteq> 0)"

definition publish_completion :: "http_completion \<Rightarrow> sig_id \<Rightarrow> signals \<Rightarrow> signals \<times> http_effect list" where
  "publish_completion c i sigs =
     (let s = (sigs i)\<lparr>sig_phase := sig_phase (sigs i) OR 2\<rparr>
      in case sig_completion s of
           None \<Rightarrow> (sigs(i := s\<lparr>sig_completion := Some c\<rparr>), [H_CompletionWaiters i c])
         | Some _ \<Rightarrow> (sigs(i := s), []))"

section \<open>The registry\<close>

record request_registry =
  reg_entries :: "(http_request_id \<times> sig_id) list"
  reg_reserved :: "(http_request_id \<times> sig_id) list"
  reg_next_id :: "u64 option"
  reg_poisoned :: bool

definition registry_new :: request_registry where
  "registry_new = \<lparr>reg_entries = [], reg_reserved = [], reg_next_id = Some 1, reg_poisoned = False\<rparr>"

definition id_used :: "request_registry \<Rightarrow> http_request_id \<Rightarrow> bool" where
  "id_used self i \<longleftrightarrow> map_of (reg_entries self) i \<noteq> None \<or> map_of (reg_reserved self) i \<noteq> None"

text \<open>The loop that looks for an unused identity. It ends: the counter rises until it is exhausted.\<close>

function next_free_id ::
  "(http_request_id \<Rightarrow> bool) \<Rightarrow> u64 option \<Rightarrow> u64 option \<times> (http_request_id, net_error) result" where
  "next_free_id used counter =
     (case counter of
        None \<Rightarrow> (None, Inl (with_stage (from_kind K_ResourceExhausted) St_Queue))
      | Some v \<Rightarrow>
          let counter = checked_add v 1
          in if \<not> used (HttpRequestId v) then (counter, Inr (HttpRequestId v)) else next_free_id used counter)"
  by pat_completeness auto
termination
proof (relation "measure (\<lambda>(_, c). case c of None \<Rightarrow> 0 | Some v \<Rightarrow> 2 ^ 64 - unat (v :: u64))")
  fix used counter v and counter1 :: "u64 option"
  assume "counter = Some v" "counter1 = checked_add v 1"
  then show "((used, counter1), used, counter) \<in> measure (\<lambda>(_, c). case c of None \<Rightarrow> 0 | Some v \<Rightarrow> 2 ^ 64 - unat (v :: u64))"
    using u64_less [of v] by (auto dest: unat_checked_add split: option.split)
qed simp

declare next_free_id.simps [simp del]

text \<open>The identity of the new signal and whether the map can grow are arguments.\<close>

definition registry_reserve ::
  "sig_id \<Rightarrow> bool \<Rightarrow> http_request_id option \<Rightarrow> signals \<Rightarrow> request_registry
     \<Rightarrow> signals \<times> request_registry \<times> (http_request_id \<times> sig_id, net_error) result" where
  "registry_reserve fresh allocated requested sigs self =
     (if reg_poisoned self then (sigs, self, Inl from_poison)
      else
        let (counter, chosen) =
          (case requested of
             Some i \<Rightarrow> (reg_next_id self,
                        if id_used self i then Inl (with_stage (from_kind K_DuplicateRequestId) St_Queue) else Inr i)
           | None \<Rightarrow> next_free_id (id_used self) (reg_next_id self));
            self = self\<lparr>reg_next_id := counter\<rparr>
        in case chosen of
             Inl e \<Rightarrow> (sigs, self, Inl e)
           | Inr i \<Rightarrow>
               if \<not> allocated then (sigs, self, Inl (with_stage (from_kind K_ResourceExhausted) St_Queue))
               else (sigs(fresh := signal_new), self\<lparr>reg_reserved := (i, fresh) # reg_reserved self\<rparr>, Inr (i, fresh)))"

definition registry_activate ::
  "bool \<Rightarrow> http_request_id \<Rightarrow> sig_id \<Rightarrow> request_registry \<Rightarrow> request_registry \<times> (unit, net_error) result" where
  "registry_activate allocated i control self =
     (if reg_poisoned self then (self, Inl from_poison)
      else if map_of (reg_entries self) i = Some control then (self, Inr ())
      else if map_of (reg_reserved self) i \<noteq> Some control
      then (self, Inl (with_stage (from_kind K_Internal) St_Admission))
      else if \<not> allocated then (self, Inl (with_stage (from_kind K_ResourceExhausted) St_Admission))
      else (self\<lparr>reg_reserved := AList.delete i (reg_reserved self),
                 reg_entries := AList.update i control (reg_entries self)\<rparr>, Inr ()))"

definition registry_finish ::
  "http_request_id \<Rightarrow> sig_id \<Rightarrow> request_registry \<Rightarrow> request_registry \<times> http_effect list" where
  "registry_finish i control self =
     (if reg_poisoned self then (self, [])
      else if map_of (reg_entries self) i = Some control
      then (self\<lparr>reg_entries := AList.delete i (reg_entries self)\<rparr>, [H_RegistryChanged])
      else if map_of (reg_reserved self) i = Some control
      then (self\<lparr>reg_reserved := AList.delete i (reg_reserved self)\<rparr>, [H_RegistryChanged])
      else (self, []))"

definition registry_cancel ::
  "(sig_id \<Rightarrow> (u8 \<times> bool) list) \<Rightarrow> http_request_id \<Rightarrow> signals \<Rightarrow> request_registry
     \<Rightarrow> signals \<times> http_effect list \<times> (unit, net_error) result" where
  "registry_cancel rounds i sigs self =
     (if reg_poisoned self then (sigs, [], Inl from_poison)
      else case map_of (reg_entries self) i of
             None \<Rightarrow> (sigs, [], Inr ())
           | Some s \<Rightarrow> (let (sigs, effects, _) = request_cancel (rounds s) s sigs in (sigs, effects, Inr ())))"

fun cancel_signals ::
  "(sig_id \<Rightarrow> (u8 \<times> bool) list) \<Rightarrow> sig_id list \<Rightarrow> signals \<Rightarrow> signals \<times> http_effect list" where
  "cancel_signals rounds [] sigs = (sigs, [])"
| "cancel_signals rounds (s # ss) sigs =
     (let (sigs, e1, _) = request_cancel (rounds s) s sigs; (sigs, e2) = cancel_signals rounds ss sigs
      in (sigs, e1 @ e2))"

definition registry_cancel_all ::
  "(sig_id \<Rightarrow> (u8 \<times> bool) list) \<Rightarrow> signals \<Rightarrow> request_registry \<Rightarrow> signals \<times> http_effect list \<times> (unit, net_error) result" where
  "registry_cancel_all rounds sigs self =
     (if reg_poisoned self then (sigs, [], Inl from_poison)
      else let (sigs, effects) = cancel_signals rounds (map snd (reg_entries self) @ map snd (reg_reserved self)) sigs
           in (sigs, effects, Inr ()))"

definition registry_is_empty :: "request_registry \<Rightarrow> (bool, net_error) result" where
  "registry_is_empty self =
     (if reg_poisoned self then Inl from_poison else Inr (reg_entries self = [] \<and> reg_reserved self = []))"

record registration_guard =
  rg_request_id :: http_request_id
  rg_control :: sig_id
  rg_committed :: bool

definition guard_commit :: "registration_guard \<Rightarrow> registration_guard" where
  "guard_commit self = self\<lparr>rg_committed := True\<rparr>"

definition registration_guard_drop :: "registration_guard \<Rightarrow> request_registry \<Rightarrow> request_registry \<times> http_effect list" where
  "registration_guard_drop self reg =
     (if \<not> rg_committed self then registry_finish (rg_request_id self) (rg_control self) reg else (reg, []))"

section \<open>The observer of retries\<close>

record retry_lifecycle =
  lc_observer :: "http_observer option"
  lc_operation_start :: instant
  lc_state :: retry_state
  lc_control :: "sig_id option"
  lc_current_attempt :: "u32 option"
  lc_completed :: bool
  lc_frozen_report :: "retry_report option"

definition lifecycle_new :: "http_observer option \<Rightarrow> instant \<Rightarrow> retry_schedule \<Rightarrow> u64 \<Rightarrow> retry_lifecycle" where
  "lifecycle_new obs start sched seed =
     \<lparr>lc_observer = obs, lc_operation_start = start, lc_state = with_seed sched seed, lc_control = None,
      lc_current_attempt = None, lc_completed = False, lc_frozen_report = None\<rparr>"

definition retry_state_net_error :: "retry_state_error \<Rightarrow> net_error" where
  "retry_state_net_error e = with_stage (with_source K_Internal (Src_RetryStateError e)) St_Dispatch"

definition stop_for_error :: "net_error \<Rightarrow> retry_stop_reason" where
  "stop_for_error e =
     (case kind e of
        K_Cancelled \<Rightarrow> Cancelled
      | K_TimedOut \<Rightarrow> TimedOut
      | K_DeadlineExceeded \<Rightarrow> TimedOut
      | K_QueueClosed \<Rightarrow> Shutdown
      | K_ProviderFailed \<Rightarrow> PolicyFailed
      | K_Internal \<Rightarrow> PolicyFailed
      | _ \<Rightarrow> NotRetryable)"

definition observe :: "retry_lifecycle \<Rightarrow> retry_event list \<Rightarrow> http_effect list" where
  "observe self evs = (case lc_observer self of None \<Rightarrow> [] | Some obs \<Rightarrow> map (H_Notify obs) evs)"

definition attempt_started :: "retry_lifecycle \<Rightarrow> retry_lifecycle \<times> http_effect list \<times> (u32, net_error) result" where
  "attempt_started self =
     (case begin_attempt (lc_state self) of
        (st, Inl e) \<Rightarrow> (self\<lparr>lc_state := st\<rparr>, [], Inl (retry_state_net_error e))
      | (st, Inr n) \<Rightarrow>
          (self\<lparr>lc_state := st, lc_current_attempt := Some n\<rparr>, observe self [AttemptStarted n], Inr n))"

definition retry_scheduled :: "u32 \<Rightarrow> duration \<Rightarrow> retry_lifecycle \<Rightarrow> retry_lifecycle \<times> http_effect list" where
  "retry_scheduled n d self =
     (self\<lparr>lc_current_attempt := None\<rparr>, observe self [RetryScheduled n d, AttemptFinished n False])"

definition lifecycle_report :: "instant \<Rightarrow> signals \<Rightarrow> retry_lifecycle \<Rightarrow> retry_report" where
  "lifecycle_report now sigs self =
     (case lc_frozen_report self of
        Some r \<Rightarrow> r
      | None \<Rightarrow>
          (let r = report (lc_state self) (elapsed (lc_operation_start self) now)
           in case lc_control self of
                None \<Rightarrow> r
              | Some i \<Rightarrow> r\<lparr>rep_transport_sends := sig_transport_sends (sigs i)\<rparr>))"

definition lifecycle_stop :: "retry_stop_reason \<Rightarrow> retry_lifecycle \<Rightarrow> retry_lifecycle" where
  "lifecycle_stop reason self = self\<lparr>lc_state := fst (finish (lc_state self) reason)\<rparr>"

definition emit_terminal :: "instant \<Rightarrow> signals \<Rightarrow> retry_lifecycle \<Rightarrow> retry_lifecycle \<times> signals \<times> http_effect list" where
  "emit_terminal now sigs self =
     (let r = lifecycle_report now sigs self;
          self = self\<lparr>lc_frozen_report := Some r\<rparr>;
          sigs = (case lc_control self of None \<Rightarrow> sigs | Some i \<Rightarrow> sigs(i := set_retry_report r (sigs i)))
      in case lc_observer self of
           None \<Rightarrow> (self, sigs, [])
         | Some obs \<Rightarrow>
             let terminal = \<lparr>po_observer = obs, po_attempt = lc_current_attempt self, po_report = r\<rparr>;
                 self = self\<lparr>lc_current_attempt := None\<rparr>
             in case lc_control self of
                  Some i \<Rightarrow>
                    if defer_observer (sigs i)
                    then (self, sigs(i := (sigs i)\<lparr>pending_observation := Some terminal\<rparr>), [])
                    else (self, sigs, observation_emit terminal)
                | None \<Rightarrow> (self, sigs, observation_emit terminal))"

definition complete_summary ::
  "instant \<Rightarrow> (u16, net_error) result \<Rightarrow> bool \<Rightarrow> signals \<Rightarrow> retry_lifecycle \<Rightarrow> retry_lifecycle \<times> signals \<times> http_effect list" where
  "complete_summary now res exhausted sigs self =
     (if lc_completed self then (self, sigs, [])
      else let reason = (case res of
                           Inl e \<Rightarrow> stop_for_error e
                         | Inr status \<Rightarrow>
                             if 200 \<le> status \<and> status < 300 then Completed
                             else if exhausted then Stop_AttemptsExhausted
                             else NotRetryable)
           in emit_terminal now sigs (lifecycle_stop reason (self\<lparr>lc_completed := True\<rparr>)))"

definition lifecycle_drop :: "instant \<Rightarrow> signals \<Rightarrow> retry_lifecycle \<Rightarrow> retry_lifecycle \<times> signals \<times> http_effect list" where
  "lifecycle_drop now sigs self =
     (if lc_completed self then (self, sigs, [])
      else emit_terminal now sigs (lifecycle_stop Cancelled (self\<lparr>lc_completed := True\<rparr>)))"

section \<open>Budgets and cancellation\<close>

definition check_budget :: "instant \<Rightarrow> http_budget \<Rightarrow> cancellation_signal \<Rightarrow> error_stage \<Rightarrow> (unit, net_error) result" where
  "check_budget now budget control st =
     (if signal_is_cancelled control then Inl (with_stage (from_kind K_Cancelled) st)
      else case expired now st budget of Some e \<Rightarrow> Inl e | None \<Rightarrow> Inr ())"

text \<open>\<open>connect_deadline\<close> stands for the inspection of a connector's error, which is a type of the HTTP library;
  \<open>later\<close> is the signal when it is read again.\<close>

definition arbitrate_result ::
  "(net_error \<Rightarrow> instant option) \<Rightarrow> instant \<Rightarrow> http_budget \<Rightarrow> cancellation_signal \<Rightarrow> cancellation_signal \<Rightarrow> error_stage
     \<Rightarrow> ('a, net_error) result \<Rightarrow> ('a, net_error) result" where
  "arbitrate_result connect_deadline now budget control later st res =
     (if signal_is_cancelled control then Inl (with_stage (from_kind K_Cancelled) st)
      else
        let failure = (case res of Inl e \<Rightarrow> Some e | Inr _ \<Rightarrow> None);
            candidate = Option.bind failure (\<lambda>e.
              or_option (timeout_deadline e) (map_option (\<lambda>d. (d, Ht_Connect)) (connect_deadline e)))
        in if is_some_and candidate (\<lambda>(d, p). candidate_wins d p budget) then res
           else case check_budget now budget later st of
                  Inr _ \<Rightarrow> res
                | Inl e \<Rightarrow>
                    (case Option.bind failure http_response_head_of of
                       Some head \<Rightarrow> if kind e \<noteq> K_Cancelled then Inl (with_http_response_head e head) else Inl e
                     | None \<Rightarrow> Inl e))"

definition admission_error :: "net_error \<Rightarrow> http_request_id option \<Rightarrow> net_error" where
  "admission_error e i =
     (let r = retry_report_default\<lparr>rep_stop_reason := Some (stop_for_error e)\<rparr>;
          e = with_http_attempt (with_stage (with_retry_report e r) St_Admission) 0
      in case i of Some i \<Rightarrow> with_http_request_id e i | None \<Rightarrow> e)"

section \<open>The completion lease\<close>

record completion_lease =
  cl_request_id :: http_request_id
  cl_control :: sig_id
  cl_permit :: "http_permit option"
  cl_response :: "(http_response_summary, net_error) result option"
  cl_callback :: "(unit, net_error) result option"

definition lease_new :: "http_request_id \<Rightarrow> sig_id \<Rightarrow> http_permit \<Rightarrow> completion_lease" where
  "lease_new i control permit1 =
     \<lparr>cl_request_id = i, cl_control = control, cl_permit = Some permit1, cl_response = None, cl_callback = None\<rparr>"

definition delivered :: "(http_response_summary, net_error) result \<Rightarrow> completion_lease \<Rightarrow> completion_lease" where
  "delivered res self = self\<lparr>cl_response := Some res\<rparr>"

definition callback_finished :: "(unit, net_error) result \<Rightarrow> completion_lease \<Rightarrow> completion_lease" where
  "callback_finished res self = self\<lparr>cl_callback := Some res\<rparr>"

definition lease_completion :: "signals \<Rightarrow> completion_lease \<Rightarrow> http_completion" where
  "lease_completion sigs self =
     (let fallback = with_http_attempt (with_http_request_id (with_stage (from_kind K_Internal) St_Dispatch)
                       (cl_request_id self)) (sig_attempt (sigs (cl_control self)));
          r = map_or retry_report_default (\<lambda>r. r) (sig_retry_report (sigs (cl_control self)));
          r = (if rep_stop_reason r = None then r\<lparr>rep_stop_reason := Some PolicyFailed\<rparr> else r)
      in \<lparr>hc_retry_report = r, hc_request_id = cl_request_id self,
          hc_response = map_err (\<lambda>e. with_retry_report e r) (map_or (Inl fallback) (\<lambda>x. x) (cl_response self)),
          hc_callback = map_err (\<lambda>e. with_retry_report e r) (map_or (Inl fallback) (\<lambda>x. x) (cl_callback self))\<rparr>)"

definition completion_lease_drop ::
  "signals \<Rightarrow> request_registry \<Rightarrow> completion_lease \<Rightarrow> signals \<times> request_registry \<times> http_effect list" where
  "completion_lease_drop sigs reg self =
     (let c = lease_completion sigs self;
          i = cl_control self;
          released = (case cl_permit self of None \<Rightarrow> [] | Some p \<Rightarrow> [H_DropPermit p]);
          (reg, e1) = registry_finish (cl_request_id self) i reg;
          (sigs, e2) = publish_completion c i sigs;
          (s, e3) = emit_pending_observation (hc_retry_report c) (sigs i)
      in (sigs(i := s), reg, released @ e1 @ e2 @ e3))"

section \<open>Identities\<close>

lemma next_free_id_spec:
  "next_free_id used counter = (c, res) \<Longrightarrow> counter = Some v \<Longrightarrow>
     (case res of
        Inr (HttpRequestId w) \<Rightarrow> unat v \<le> unat w \<and> \<not> used (HttpRequestId w) \<and> c = checked_add w 1
          \<and> (\<forall>u. unat v \<le> unat u \<and> unat u < unat w \<longrightarrow> used (HttpRequestId u))
      | Inl _ \<Rightarrow> \<forall>u. unat v \<le> unat u \<longrightarrow> used (HttpRequestId u))"
proof (induction used counter arbitrary: v rule: next_free_id.induct)
  case (1 used counter)
  show ?case
  proof (cases "used (HttpRequestId v)")
    case False
    then show ?thesis using 1(2,3) by (auto simp: next_free_id.simps [of used "Some v"] Let_def)
  next
    case True
    then have run: "next_free_id used (checked_add v 1) = (c, res)"
      using 1(2,3) by (simp add: next_free_id.simps [of used "Some v"] Let_def)
    show ?thesis
    proof (cases "checked_add v 1")
      case None
      then have "unat v = 2 ^ 64 - 1" using u64_less [of v] by (simp add: checked_add_def split: if_split_asm)
      then have "u = v" if "unat v \<le> unat u" for u using that u64_less [of u] by (simp add: word_unat_eq_iff)
      then have "\<forall>u. unat v \<le> unat u \<longrightarrow> u = v" by blast
      then show ?thesis using run None True by (auto simp: next_free_id.simps [of used None])
    next
      case (Some v')
      have step: "unat v' = unat v + 1" using unat_checked_add [OF Some] by simp
      have next1: "used (HttpRequestId u)" if "unat v \<le> unat u" "unat v' \<le> unat u \<longrightarrow> used (HttpRequestId u)" for u
      proof (cases "unat u = unat v")
        case same: True
        then have "u = v" by (simp add: word_unat_eq_iff)
        then show ?thesis using True by simp
      qed (use that step in simp)
      note ih = 1(1) [OF 1(3) refl _ run Some]
      show ?thesis
      proof (cases res)
        case (Inl e)
        then show ?thesis using ih True next1 by auto
      next
        case (Inr i)
        obtain w where i: "i = HttpRequestId w" by (cases i)
        have "unat v' \<le> unat w" "\<not> used (HttpRequestId w)" "c = checked_add w 1"
          and between: "\<And>u. unat v' \<le> unat u \<Longrightarrow> unat u < unat w \<Longrightarrow> used (HttpRequestId u)"
          using ih True Inr i by auto
        moreover have "used (HttpRequestId u)" if "unat v \<le> unat u" "unat u < unat w" for u
          using next1 [OF that(1)] between [of u] that(2) by blast
        ultimately show ?thesis using Inr i step by auto
      qed
    qed
  qed
qed

section \<open>Histories of the registry\<close>

datatype registry_call =
    Reg_Reserve sig_id bool "http_request_id option" signals
  | Reg_Activate bool http_request_id sig_id
  | Reg_Finish http_request_id sig_id
  | Reg_GuardDrop registration_guard
  | Reg_LeaseDrop signals completion_lease

fun registry_step :: "registry_call \<Rightarrow> request_registry \<Rightarrow> request_registry" where
  "registry_step (Reg_Reserve fresh allocated requested sigs) r =
     fst (snd (registry_reserve fresh allocated requested sigs r))"
| "registry_step (Reg_Activate allocated i control) r = fst (registry_activate allocated i control r)"
| "registry_step (Reg_Finish i control) r = fst (registry_finish i control r)"
| "registry_step (Reg_GuardDrop g) r = fst (registration_guard_drop g r)"
| "registry_step (Reg_LeaseDrop sigs l) r = fst (snd (completion_lease_drop sigs r l))"

definition registry_inv :: "request_registry \<Rightarrow> bool" where
  "registry_inv r \<longleftrightarrow> distinct (map fst (reg_entries r @ reg_reserved r))"

lemma delete_keys: "set (map fst (AList.delete i xs)) = set (map fst xs) - {i}"
  by (induction xs) auto

lemma registry_inv_finish: "registry_inv r \<Longrightarrow> registry_inv (fst (registry_finish i control r))"
  by (auto simp: registry_finish_def registry_inv_def distinct_delete delete_keys [simplified])

lemma registry_inv_reserve:
  assumes "registry_inv r"
  shows "registry_inv (fst (snd (registry_reserve fresh allocated requested sigs r)))"
proof -
  obtain c chosen where ch: "(case requested of
      Some i \<Rightarrow> (reg_next_id r, if id_used r i then Inl (with_stage (from_kind K_DuplicateRequestId) St_Queue) else Inr i)
    | None \<Rightarrow> next_free_id (id_used r) (reg_next_id r)) = (c, chosen)" by fastforce
  have free: "\<not> id_used r i" if chosen: "chosen = Inr i" for i
  proof (cases requested)
    case None
    then have "next_free_id (id_used r) (reg_next_id r) = (c, Inr i)" using ch chosen by simp
    then show ?thesis
      using next_free_id_spec [of "id_used r" "reg_next_id r" c "Inr i"]
      by (cases "reg_next_id r"; cases i) (auto simp: next_free_id.simps [of _ None])
  next
    case (Some j)
    then show ?thesis using ch chosen by (auto split: if_split_asm)
  qed
  show ?thesis
    using assms free ch unfolding registry_reserve_def
    by (cases chosen) (auto simp: registry_inv_def id_used_def map_of_eq_None_iff Let_def)
qed

lemma registry_inv_step: "registry_inv r \<Longrightarrow> registry_inv (registry_step c r)"
proof (cases c)
  case (Reg_Activate allocated i control)
  show "registry_inv r \<Longrightarrow> ?thesis"
    using Reg_Activate
    by (auto simp: registry_activate_def registry_inv_def distinct_delete delete_keys [simplified] distinct_update
        dom_update [simplified] map_of_eq_Some_iff dest: map_of_SomeD)
next
  case (Reg_LeaseDrop sigs l)
  then show "registry_inv r \<Longrightarrow> ?thesis"
    using registry_inv_finish by (auto simp: completion_lease_drop_def Let_def case_prod_beta)
qed (auto intro: registry_inv_reserve registry_inv_finish simp: registration_guard_drop_def)

interpretation hr: machine registry_step registry_inv
  by unfold_locales (rule registry_inv_step)

definition registry_run :: "registry_call list \<Rightarrow> request_registry" where
  "registry_run calls = fold registry_step calls registry_new"

lemma registry_run_inv: "registry_inv (registry_run calls)"
  unfolding registry_run_def by (rule hr.inv_run) (simp add: registry_inv_def registry_new_def)

lemma used_ids_bounded:
  assumes "\<forall>u. unat v \<le> unat u \<and> unat u < n \<longrightarrow> id_used r (HttpRequestId (u :: u64))" and "n \<le> 2 ^ 64"
  shows "n \<le> unat v + length (reg_entries r) + length (reg_reserved r)"
proof -
  have "HttpRequestId (of_nat k) \<in> set (map fst (reg_entries r @ reg_reserved r))" if k: "k \<in> {unat v..<n}" for k
  proof -
    have "unat (of_nat k :: u64) = k" using k assms(2) by (simp add: unat_of_nat)
    then have "id_used r (HttpRequestId (of_nat k))" using assms(1) k by auto
    then show ?thesis by (auto simp: id_used_def map_of_eq_None_iff)
  qed
  then have "(\<lambda>k. HttpRequestId (of_nat k)) ` {unat v..<n} \<subseteq> set (map fst (reg_entries r @ reg_reserved r))"
    by (rule image_subsetI)
  moreover have "inj_on (\<lambda>k. HttpRequestId (of_nat k)) {unat v..<n}"
  proof (rule inj_onI)
    fix a b
    assume "a \<in> {unat v..<n}" "b \<in> {unat v..<n}" "HttpRequestId (of_nat a) = HttpRequestId (of_nat b)"
    then have "unat (of_nat a :: u64) = unat (of_nat b :: u64)" "a < 2 ^ 64" "b < 2 ^ 64" using assms(2) by auto
    then show "a = b" by (simp add: unat_of_nat)
  qed
  ultimately have "card {unat v..<n} \<le> card (set (map fst (reg_entries r @ reg_reserved r)))"
    by (metis card_image card_mono finite_set)
  also have "\<dots> \<le> length (reg_entries r) + length (reg_reserved r)"
    using card_length [of "map fst (reg_entries r @ reg_reserved r)"] by simp
  finally show ?thesis by simp
qed

section \<open>Threads on one signal\<close>

text \<open>Several threads cancel a request while the engine enters its callback and publishes its completion. Each step
  is one atomic operation of the source on the phase of the signal \<open>i\<close>: a canceller reads the phase, tests what it
  read, or tries the exchange; the engine enters the callback or publishes. A canceller has read a phase, or has
  returned an outcome; the list holds what the entries of the callback reported.\<close>

datatype canceller = Canceller_Idle | Canceller_Loaded u8 | Canceller_Returned http_cancel_outcome

record phase_world =
  pw_sigs :: signals
  pw_cancellers :: "nat \<Rightarrow> canceller"
  pw_callbacks :: "bool list"

definition phase_world_new :: "sig_id \<Rightarrow> signals \<Rightarrow> phase_world" where
  "phase_world_new i sigs = \<lparr>pw_sigs = sigs(i := signal_new), pw_cancellers = (\<lambda>_. Canceller_Idle), pw_callbacks = []\<rparr>"

inductive phase_step :: "sig_id \<Rightarrow> phase_world \<Rightarrow> phase_world \<Rightarrow> bool" for i where
  load: "pw_cancellers w t = Canceller_Idle
    \<Longrightarrow> phase_step i w (w\<lparr>pw_cancellers := (pw_cancellers w)(t := Canceller_Loaded (sig_phase (pw_sigs w i)))\<rparr>)"
| test: "pw_cancellers w t = Canceller_Loaded current \<Longrightarrow> cancel_test current = Some outcome
    \<Longrightarrow> phase_step i w (w\<lparr>pw_cancellers := (pw_cancellers w)(t := Canceller_Returned outcome)\<rparr>)"
| exchange: "pw_cancellers w t = Canceller_Loaded current \<Longrightarrow> cancel_test current = None
    \<Longrightarrow> cancel_exchange spurious current (pw_sigs w i) = (s, None)
    \<Longrightarrow> phase_step i w (w\<lparr>pw_sigs := (pw_sigs w)(i := s),
          pw_cancellers := (pw_cancellers w)(t := Canceller_Returned Cancel_Requested)\<rparr>)"
| reload: "pw_cancellers w t = Canceller_Loaded current \<Longrightarrow> cancel_test current = None
    \<Longrightarrow> cancel_exchange spurious current (pw_sigs w i) = (s, Some observed)
    \<Longrightarrow> phase_step i w (w\<lparr>pw_sigs := (pw_sigs w)(i := s),
          pw_cancellers := (pw_cancellers w)(t := Canceller_Loaded observed)\<rparr>)"
| callback: "enter_callback (pw_sigs w i) = (s, cancelled)
    \<Longrightarrow> phase_step i w (w\<lparr>pw_sigs := (pw_sigs w)(i := s), pw_callbacks := pw_callbacks w @ [cancelled]\<rparr>)"
| publish: "publish_completion c i (pw_sigs w) = (sigs, effects)
    \<Longrightarrow> phase_step i w (w\<lparr>pw_sigs := sigs\<rparr>)"

definition winners :: "phase_world \<Rightarrow> nat set" where
  "winners w = {t. pw_cancellers w t = Canceller_Returned Cancel_Requested}"

text \<open>The first bit of the phase says whether some canceller has won, the second whether the callback was entered or
  the completion published; a callback that saw no cancellation excludes every winner.\<close>

definition phase_inv :: "sig_id \<Rightarrow> phase_world \<Rightarrow> bool" where
  "phase_inv i w \<longleftrightarrow> (\<forall>t u. t \<in> winners w \<longrightarrow> u \<in> winners w \<longrightarrow> t = u)
     \<and> (sig_phase (pw_sigs w i) AND 1 \<noteq> 0) = (winners w \<noteq> {})
     \<and> (sig_phase (pw_sigs w i) AND 2 \<noteq> 0) = (pw_callbacks w \<noteq> [] \<or> sig_completion (pw_sigs w i) \<noteq> None)
     \<and> (\<forall>b \<in> set (pw_callbacks w). b = (winners w \<noteq> {}))"

lemma phase_bit_tests: "((c :: u8) AND 1 = 0) = (\<not> bit c 0)" "((c :: u8) AND 2 = 0) = (\<not> bit c 1)"
  using and_exp_eq_0_iff_not_bit [of c 0] and_exp_eq_0_iff_not_bit [of c 1] by simp_all

lemma phase_bits:
  "(c OR CANCELLED) AND 1 \<noteq> (0 :: u8)" "((c OR 2) AND 1 = (0 :: u8)) = (c AND 1 = 0)" "(c OR 2) AND 2 \<noteq> (0 :: u8)"
  "((c OR CANCELLED) AND 2 = (0 :: u8)) = (c AND 2 = 0)"
  unfolding phase_bit_tests CANCELLED_def by (simp_all add: bit_or_iff bit_1_iff bit_2_iff)

lemma winners_upd:
  "winners (w\<lparr>pw_cancellers := (pw_cancellers w)(t := x)\<rparr>)
     = (if x = Canceller_Returned Cancel_Requested then insert t (winners w) else winners w - {t})"
  "winners (w\<lparr>pw_sigs := p, pw_cancellers := (pw_cancellers w)(t := x)\<rparr>)
     = (if x = Canceller_Returned Cancel_Requested then insert t (winners w) else winners w - {t})"
  "winners (w\<lparr>pw_sigs := p, pw_callbacks := bs\<rparr>) = winners w"
  "winners (w\<lparr>pw_sigs := p\<rparr>) = winners w"
  by (auto simp: winners_def)

lemma cancel_test_none: "cancel_test c = None \<longleftrightarrow> c AND 2 = 0 \<and> c AND 1 = 0"
  by (auto simp: cancel_test_def CANCELLED_def CALLBACK_OR_COMPLETE_def)

lemma cancel_test_loses: "cancel_test c = Some outcome \<Longrightarrow> outcome \<noteq> Cancel_Requested"
  by (auto simp: cancel_test_def split: if_split_asm)

lemma phase_inv_step:
  assumes "phase_step i w w'" and inv: "phase_inv i w"
  shows "phase_inv i w'"
  using assms(1)
proof (cases rule: phase_step.cases)
  case (load t)
  then have "t \<notin> winners w" by (simp add: winners_def)
  then show ?thesis using load(1) inv by (simp add: phase_inv_def winners_upd)
next
  case (test t current outcome)
  then have "t \<notin> winners w" by (simp add: winners_def)
  then show ?thesis using test inv cancel_test_loses by (simp add: phase_inv_def winners_upd)
next
  case (exchange t current spurious s)
  then have s: "s = (pw_sigs w i)\<lparr>sig_phase := sig_phase (pw_sigs w i) OR CANCELLED\<rparr>" "cancel_test (sig_phase (pw_sigs w i)) = None"
    by (auto simp: cancel_exchange_def split: if_split_asm)
  then have "winners w = {}" "pw_callbacks w = []" "sig_completion (pw_sigs w i) = None" "sig_phase (pw_sigs w i) AND 2 = 0"
    using inv by (auto simp: phase_inv_def cancel_test_none)
  then show ?thesis using exchange(1) phase_bits by (auto simp: phase_inv_def winners_upd s)
next
  case (reload t current spurious s observed)
  then have "s = pw_sigs w i" "t \<notin> winners w" by (auto simp: cancel_exchange_def winners_def split: if_split_asm)
  then show ?thesis using reload(1) inv by (simp add: phase_inv_def winners_upd)
next
  case (callback s cancelled)
  then show ?thesis using inv phase_bits by (auto simp: phase_inv_def winners_upd enter_callback_def)
next
  case (publish c sigs effects)
  then show ?thesis
    using inv phase_bits
    by (auto simp: phase_inv_def winners_upd publish_completion_def Let_def split: option.split_asm)
qed

lemma phase_inv_reachable:
  assumes "(phase_step i)\<^sup>*\<^sup>* (phase_world_new i sigs) w"
  shows "phase_inv i w"
proof -
  have "phase_inv i (phase_world_new i sigs)" by (simp add: phase_inv_def phase_world_new_def winners_def signal_new_def)
  then show ?thesis using assms(1) by (rotate_tac 1) (induction rule: rtranclp_induct, auto intro: phase_inv_step)
qed

text \<open>What a call of \<open>request_cancel\<close> answers is decided by the phase it reads first, unless it has to exchange.\<close>

lemma request_cancel_tested:
  assumes "cancel_test (sig_phase (sigs i)) = Some outcome"
  shows "request_cancel rounds i sigs = (sigs, [], Some outcome)"
  using assms cancel_test_loses [OF assms]
  by (auto simp: request_cancel_def request_cancel_loop.simps [of rounds])

lemma request_cancel_undisturbed:
  assumes "cancel_test (sig_phase (sigs i)) = None"
  shows "request_cancel [(0, False)] i sigs
    = (sigs(i := (sigs i)\<lparr>sig_phase := sig_phase (sigs i) OR CANCELLED\<rparr>), [H_CancelWaiters i], Some Cancel_Requested)"
  using assms by (simp add: request_cancel_def request_cancel_loop.simps [of "[(0, False)]"] cancel_exchange_def)

section \<open>Properties\<close>

text \<open>C25. The search for an identity ends and finds one: in every reachable registry of \<open>n\<close> requests whose counter
  is at least \<open>n\<close> below the last identity, a request without an identity of its own gets an unused one, after at most
  \<open>n\<close> rounds that find an identity in use, and the counter moves past it.\<close>

theorem id_allocation_terminates:
  assumes "reg = registry_run calls" and "\<not> reg_poisoned reg" and "reg_next_id reg = Some v"
    and "unat v + length (reg_entries reg) + length (reg_reserved reg) < 2 ^ 64"
  shows "\<exists>w. \<not> id_used reg (HttpRequestId w) \<and> unat v \<le> unat w
      \<and> unat w \<le> unat v + length (reg_entries reg) + length (reg_reserved reg)
      \<and> registry_reserve fresh True None sigs reg
        = (sigs(fresh := signal_new),
           reg\<lparr>reg_next_id := checked_add w 1, reg_reserved := (HttpRequestId w, fresh) # reg_reserved reg\<rparr>,
           Inr (HttpRequestId w, fresh))"
proof -
  obtain c res where run: "next_free_id (id_used reg) (reg_next_id reg) = (c, res)" by fastforce
  note spec = next_free_id_spec [OF run assms(3)]
  show ?thesis
  proof (cases res)
    case (Inl e)
    then have "\<forall>u. unat v \<le> unat u \<and> unat u < 2 ^ 64 \<longrightarrow> id_used reg (HttpRequestId u)" using spec by simp
    from used_ids_bounded [OF this] show ?thesis using assms(4) by simp
  next
    case (Inr i)
    obtain w where i: "i = HttpRequestId w" by (cases i)
    have w: "unat v \<le> unat w" "\<not> id_used reg (HttpRequestId w)" "c = checked_add w 1"
      "\<forall>u. unat v \<le> unat u \<and> unat u < unat w \<longrightarrow> id_used reg (HttpRequestId u)"
      using spec Inr i by simp_all
    have "unat w \<le> unat v + length (reg_entries reg) + length (reg_reserved reg)"
      using used_ids_bounded [OF w(4)] u64_less [of w] by simp
    then show ?thesis using w(1-3) run Inr i assms(2) by (auto simp: registry_reserve_def)
  qed
qed

theorem id_allocation_terminates_witness:
  "\<exists>w. \<not> id_used (registry_run [Reg_Reserve 3 True (Some (HttpRequestId 1)) (\<lambda>_. signal_new)]) (HttpRequestId w)
     \<and> unat w \<le> 2"
proof -
  define reg where "reg = registry_run [Reg_Reserve 3 True (Some (HttpRequestId 1)) (\<lambda>_. signal_new)]"
  have reg: "reg = \<lparr>reg_entries = [], reg_reserved = [(HttpRequestId 1, 3)], reg_next_id = Some 1, reg_poisoned = False\<rparr>"
    by (simp add: reg_def registry_run_def registry_new_def registry_reserve_def id_used_def)
  show ?thesis
    using id_allocation_terminates [OF reg_def, of 1 4 "\<lambda>_. signal_new"] unfolding reg_def [symmetric] by (auto simp: reg)
qed

text \<open>C24. Cancelling, entering the callback and publishing the completion are ordered by one atomic phase, however the
  threads interleave and however often a weak exchange fails: at most one canceller is told that it requested the
  cancellation; if one was, every callback entry reports the cancellation, and if a callback entry reported none, no
  canceller ever is. A call of \<open>request_cancel\<close> in any state reached answers accordingly: too late once the callback was
  entered or the completion published, already requested once a canceller has won, and otherwise a call that no other
  thread disturbs requests the cancellation and wakes the waiters.\<close>

theorem cancel_and_callback_are_ordered:
  assumes "(phase_step i)\<^sup>*\<^sup>* (phase_world_new i sigs) w"
  shows "(\<forall>t u. t \<in> winners w \<longrightarrow> u \<in> winners w \<longrightarrow> t = u)
    \<and> (\<forall>cancelled \<in> set (pw_callbacks w). cancelled = (winners w \<noteq> {}))
    \<and> (if pw_callbacks w \<noteq> [] \<or> sig_completion (pw_sigs w i) \<noteq> None
       then request_cancel rounds i (pw_sigs w) = (pw_sigs w, [], Some Cancel_TooLate)
       else if winners w \<noteq> {}
       then request_cancel rounds i (pw_sigs w) = (pw_sigs w, [], Some Cancel_AlreadyRequested)
       else snd (request_cancel [(0, False)] i (pw_sigs w)) = ([H_CancelWaiters i], Some Cancel_Requested))"
proof -
  have inv: "phase_inv i w" by (rule phase_inv_reachable [OF assms])
  have late: "request_cancel rounds i (pw_sigs w) = (pw_sigs w, [], Some Cancel_TooLate)"
    if "pw_callbacks w \<noteq> [] \<or> sig_completion (pw_sigs w i) \<noteq> None"
    using inv that by (intro request_cancel_tested) (auto simp: cancel_test_def phase_inv_def CALLBACK_OR_COMPLETE_def)
  have already: "request_cancel rounds i (pw_sigs w) = (pw_sigs w, [], Some Cancel_AlreadyRequested)"
    if "\<not> (pw_callbacks w \<noteq> [] \<or> sig_completion (pw_sigs w i) \<noteq> None)" "winners w \<noteq> {}"
    using inv that
    by (intro request_cancel_tested) (auto simp: cancel_test_def phase_inv_def CANCELLED_def CALLBACK_OR_COMPLETE_def)
  have requested: "snd (request_cancel [(0, False)] i (pw_sigs w)) = ([H_CancelWaiters i], Some Cancel_Requested)"
    if "\<not> (pw_callbacks w \<noteq> [] \<or> sig_completion (pw_sigs w i) \<noteq> None)" "winners w = {}"
    using inv that by (subst request_cancel_undisturbed) (auto simp: cancel_test_none phase_inv_def)
  show ?thesis using inv late already requested by (auto simp: phase_inv_def)
qed

theorem cancel_and_callback_are_ordered_witness:
  "\<exists>w. (phase_step 3)\<^sup>*\<^sup>* (phase_world_new 3 (\<lambda>_. signal_new)) w \<and> winners w = {5} \<and> pw_callbacks w = [True]
     \<and> snd (request_cancel [] 3 (pw_sigs w)) = ([], Some Cancel_TooLate)"
proof -
  define w0 where "w0 = phase_world_new 3 (\<lambda>_. signal_new)"
  define w1 where "w1 = w0\<lparr>pw_cancellers := (pw_cancellers w0)(5 := Canceller_Loaded (sig_phase (pw_sigs w0 3)))\<rparr>"
  define s2 where "s2 = signal_new\<lparr>sig_phase := 0 OR CANCELLED\<rparr>"
  define w2 where "w2 = w1\<lparr>pw_sigs := (pw_sigs w1)(3 := s2), pw_cancellers := (pw_cancellers w1)(5 := Canceller_Returned Cancel_Requested)\<rparr>"
  define w3 where "w3 = w2\<lparr>pw_sigs := (pw_sigs w2)(3 := fst (enter_callback (pw_sigs w2 3))),
    pw_callbacks := pw_callbacks w2 @ [snd (enter_callback (pw_sigs w2 3))]\<rparr>"
  have "phase_step 3 w0 w1" unfolding w1_def by (rule phase_step.load) (simp add: w0_def phase_world_new_def)
  moreover have "phase_step 3 w1 w2"
    unfolding w2_def
    by (rule phase_step.exchange [where current = 0 and spurious = False])
      (simp_all add: w1_def w0_def s2_def phase_world_new_def signal_new_def cancel_test_none cancel_exchange_def)
  moreover have "phase_step 3 w2 w3" unfolding w3_def by (rule phase_step.callback) simp
  ultimately have reach: "(phase_step 3)\<^sup>*\<^sup>* w0 w3" by (meson converse_rtranclp_into_rtranclp rtranclp.rtrancl_refl)
  have "5 \<in> winners w3" by (simp add: winners_def w3_def w2_def)
  moreover have "length (pw_callbacks w3) = 1" by (simp add: w3_def w2_def w1_def w0_def phase_world_new_def)
  ultimately have "winners w3 = {5}" "pw_callbacks w3 = [True]" "snd (request_cancel [] 3 (pw_sigs w3)) = ([], Some Cancel_TooLate)"
    using cancel_and_callback_are_ordered [OF reach [unfolded w0_def], of "[]"] by (auto simp: length_Suc_conv)
  then show ?thesis using reach unfolding w0_def by blast
qed

text \<open>What a drop of the lease does, in the order in which the source does it.\<close>

fun announced :: "http_effect list \<Rightarrow> http_completion list" where
  "announced [] = []"
| "announced (H_CompletionWaiters i c # es) = c # announced es"
| "announced (_ # es) = announced es"

lemma announced_append [simp]: "announced (xs @ ys) = announced xs @ announced ys"
  by (induction xs rule: announced.induct) auto

lemma announced_silent [simp]:
  "announced (observation_emit o1) = []" "announced (snd (registry_finish i s r)) = []"
  "announced (snd (emit_pending_observation rep sg)) = []"
  by (auto simp: observation_emit_def registry_finish_def emit_pending_observation_def split: option.split)

lemma lease_completion_stop: "rep_stop_reason (hc_retry_report (lease_completion sigs l)) \<noteq> None"
  by (simp add: lease_completion_def Let_def)

lemma publish_twice:
  assumes "sig_completion (sigs i) = Some c"
  shows "sig_completion (fst (publish_completion c' i sigs) i) = Some c" "snd (publish_completion c' i sigs) = []"
  using assms by (simp_all add: publish_completion_def)

lemma finish_registry:
  assumes "registry_inv r" and "\<not> reg_poisoned r"
  shows "map_of (reg_entries (fst (registry_finish i s r))) i \<noteq> Some s"
    and "map_of (reg_reserved (fst (registry_finish i s r))) i \<noteq> Some s"
    and "j \<noteq> s \<Longrightarrow> (map_of (reg_entries (fst (registry_finish i s r))) k = Some j) = (map_of (reg_entries r) k = Some j)"
    and "j \<noteq> s \<Longrightarrow> (map_of (reg_reserved (fst (registry_finish i s r))) k = Some j) = (map_of (reg_reserved r) k = Some j)"
proof -
  have excl: "map_of (reg_entries r) i = Some s \<Longrightarrow> map_of (reg_reserved r) i = None"
    using assms(1) by (force simp: registry_inv_def map_of_eq_None_iff dest: map_of_SomeD)
  show "map_of (reg_entries (fst (registry_finish i s r))) i \<noteq> Some s"
    "map_of (reg_reserved (fst (registry_finish i s r))) i \<noteq> Some s"
    using assms(2) excl by (auto simp: registry_finish_def delete_conv')
  show "j \<noteq> s \<Longrightarrow> (map_of (reg_entries (fst (registry_finish i s r))) k = Some j) = (map_of (reg_entries r) k = Some j)"
    "j \<noteq> s \<Longrightarrow> (map_of (reg_reserved (fst (registry_finish i s r))) k = Some j) = (map_of (reg_reserved r) k = Some j)"
    by (auto simp: registry_finish_def delete_conv')
qed

text \<open>C23. Dropping the lease of an accepted request settles it once and for all: its completion is published with
  a stop reason in the report, after its reference to the permit was dropped and its registration, if it was still
  registered, removed and the removal announced, and no other registration, not even one that reuses the identity, is touched; a further drop for the same signal neither
  changes nor announces a completion.\<close>

theorem completion_is_published_once:
  assumes "reg = registry_run calls" and "\<not> reg_poisoned reg" and "sig_completion (sigs (cl_control l)) = None"
    and "completion_lease_drop sigs reg l = (sigs', reg', effects)"
  shows "\<exists>c before. sig_completion (sigs' (cl_control l)) = Some c \<and> rep_stop_reason (hc_retry_report c) \<noteq> None
    \<and> announced effects = [c]
    \<and> take (length before + 1) effects = before @ [H_CompletionWaiters (cl_control l) c]
    \<and> (\<forall>p. cl_permit l = Some p \<longrightarrow> H_DropPermit p \<in> set before)
    \<and> (H_RegistryChanged \<in> set before \<longleftrightarrow> map_of (reg_entries reg) (cl_request_id l) = Some (cl_control l)
         \<or> map_of (reg_reserved reg) (cl_request_id l) = Some (cl_control l))
    \<and> map_of (reg_entries reg') (cl_request_id l) \<noteq> Some (cl_control l)
    \<and> map_of (reg_reserved reg') (cl_request_id l) \<noteq> Some (cl_control l)
    \<and> (\<forall>k j. j \<noteq> cl_control l \<longrightarrow> (map_of (reg_entries reg') k = Some j) = (map_of (reg_entries reg) k = Some j)
         \<and> (map_of (reg_reserved reg') k = Some j) = (map_of (reg_reserved reg) k = Some j))
    \<and> (\<forall>reg2 l2. cl_control l2 = cl_control l \<longrightarrow>
         sig_completion (fst (completion_lease_drop sigs' reg2 l2) (cl_control l)) = Some c
         \<and> announced (snd (snd (completion_lease_drop sigs' reg2 l2))) = [])"
proof -
  define i where "i = cl_control l"
  define c where "c = lease_completion sigs l"
  define released where "released = (case cl_permit l of None \<Rightarrow> [] | Some p \<Rightarrow> [H_DropPermit p])"
  define before where "before = released @ snd (registry_finish (cl_request_id l) i reg)"
  define sigs1 where "sigs1 = fst (publish_completion c i sigs)"
  have pub: "publish_completion c i sigs = (sigs1, [H_CompletionWaiters i c])" and c1: "sig_completion (sigs1 i) = Some c"
    using assms(3) by (simp_all add: sigs1_def publish_completion_def i_def)
  have out: "reg' = fst (registry_finish (cl_request_id l) i reg)"
    "sigs' = sigs1(i := fst (emit_pending_observation (hc_retry_report c) (sigs1 i)))"
    "effects = before @ [H_CompletionWaiters i c] @ snd (emit_pending_observation (hc_retry_report c) (sigs1 i))"
    using assms(4) pub
    by (auto simp: completion_lease_drop_def Let_def case_prod_beta i_def [symmetric] c_def [symmetric] released_def before_def)
  have "announced released = []" by (simp add: released_def split: option.split)
  then have ann: "announced effects = [c]" using out(3) by (simp add: before_def)
  have c2: "sig_completion (sigs' i) = Some c" using out(2) c1 by (simp add: emit_pending_observation_def)
  have again: "sig_completion (fst (completion_lease_drop sigs' reg2 l2) i) = Some c
      \<and> announced (snd (snd (completion_lease_drop sigs' reg2 l2))) = []" if "cl_control l2 = i" for reg2 l2
    using publish_twice [of sigs' i c, OF c2] that
    by (auto simp: completion_lease_drop_def Let_def case_prod_beta emit_pending_observation_def observation_emit_def
        split: option.split)
  have inv: "registry_inv reg" using registry_run_inv assms(1) by simp
  have "\<forall>p. cl_permit l = Some p \<longrightarrow> H_DropPermit p \<in> set before" by (simp add: before_def released_def)
  moreover have "H_RegistryChanged \<in> set before \<longleftrightarrow> map_of (reg_entries reg) (cl_request_id l) = Some i
      \<or> map_of (reg_reserved reg) (cl_request_id l) = Some i"
    using assms(2) by (auto simp: before_def released_def registry_finish_def split: option.split)
  moreover have "take (length before + 1) effects = before @ [H_CompletionWaiters i c]" using out(3) by simp
  moreover have "rep_stop_reason (hc_retry_report c) \<noteq> None" unfolding c_def by (rule lease_completion_stop)
  ultimately show ?thesis
    using c2 ann again finish_registry [OF inv assms(2), where i = "cl_request_id l" and s = i] unfolding out(1) i_def [symmetric]
    by (intro exI [of _ c] exI [of _ before]) blast
qed

theorem completion_is_published_once_witness:
  "\<exists>c before. sig_completion (fst (completion_lease_drop (\<lambda>_. signal_new)
       (registry_run [Reg_Reserve 3 True (Some (HttpRequestId 6)) (\<lambda>_. signal_new), Reg_Activate True (HttpRequestId 6) 3])
       (lease_new (HttpRequestId 6) 3 9)) 3) = Some c
     \<and> rep_stop_reason (hc_retry_report c) \<noteq> None
     \<and> H_DropPermit 9 \<in> set before \<and> H_RegistryChanged \<in> set before
     \<and> take (length before + 1) (snd (snd (completion_lease_drop (\<lambda>_. signal_new)
       (registry_run [Reg_Reserve 3 True (Some (HttpRequestId 6)) (\<lambda>_. signal_new), Reg_Activate True (HttpRequestId 6) 3])
       (lease_new (HttpRequestId 6) 3 9)))) = before @ [H_CompletionWaiters 3 c]"
proof -
  define reg where "reg = registry_run [Reg_Reserve 3 True (Some (HttpRequestId 6)) (\<lambda>_. signal_new), Reg_Activate True (HttpRequestId 6) 3]"
  have reg: "reg = \<lparr>reg_entries = [(HttpRequestId 6, 3)], reg_reserved = [], reg_next_id = Some 1, reg_poisoned = False\<rparr>"
    by (simp add: reg_def registry_run_def registry_new_def registry_reserve_def registry_activate_def id_used_def)
  obtain sigs' reg' effects where
    d: "completion_lease_drop (\<lambda>_. signal_new) reg (lease_new (HttpRequestId 6) 3 9) = (sigs', reg', effects)"
    by (metis prod_cases3)
  have "\<not> reg_poisoned reg" by (simp add: reg)
  from completion_is_published_once [OF reg_def this _ d]
  obtain c before where "sig_completion (sigs' 3) = Some c" "rep_stop_reason (hc_retry_report c) \<noteq> None"
    "take (length before + 1) effects = before @ [H_CompletionWaiters 3 c]"
    "H_DropPermit 9 \<in> set before" "H_RegistryChanged \<in> set before"
    unfolding lease_new_def by (auto simp: signal_new_def reg)
  then show ?thesis unfolding reg_def [symmetric] d by auto
qed

end
