(* ===== verification/Http_Redirect.thy ===== *)
theory Http_Redirect
  imports Http_Config Http_Request
begin

text \<open>
  Following redirects: \<open>src/module/http/response_hops.rs\<close>, and the budget that interrupts it,
  \<open>run_budget\<close> of \<open>src/module/http/http_client_inner.rs\<close>.

  The client of the \<open>reqwest\<close> library is an argument: what building a request and executing it return, each with
  the number of the step, because the answers differ from call to call. An execution without an answer is
  \<open>None\<close>: the request was started and the future was dropped while it waited. The clock and the phase of the
  cancellation signal, which other threads change, are read from the same argument. The model keeps the requests that
  were started, in their order; the lemmas are about that list.
\<close>

section \<open>Budgets of futures\<close>

definition check_stream_start :: "instant \<Rightarrow> http_budget \<Rightarrow> cancellation_signal \<Rightarrow> (unit, net_error) result" where
  "check_stream_start now budget control = check_budget now budget control St_Response"

text \<open>The biased \<open>select!\<close> polls the cancellation first and the timer last. \<open>future\<close> is \<open>None\<close> when it was dropped;
  then \<open>timer\<close> says whether the timer ended the wait. The clock and the signal are read three times.\<close>

definition run_budget ::
  "(net_error \<Rightarrow> instant option) \<Rightarrow> clock \<Rightarrow> (nat \<Rightarrow> cancellation_signal) \<Rightarrow> http_budget \<Rightarrow> error_stage \<Rightarrow> bool
     \<Rightarrow> ('a, net_error) result option \<Rightarrow> ('a, net_error) result" where
  "run_budget connect_deadline clk control budget st timer future =
     try_bind (check_budget (clk 0) budget (control 0) st) (\<lambda>_.
       let res = (case future of
                    Some res \<Rightarrow> res
                  | None \<Rightarrow>
                      if timer then (case expired (clk 1) st budget of
                                       Some e \<Rightarrow> Inl e
                                     | None \<Rightarrow> Inl (with_stage (from_kind K_Internal) st))
                      else Inl (with_stage (from_kind K_Cancelled) st))
       in arbitrate_result connect_deadline (clk 2) budget (control 1) (control 2) st res)"

section \<open>Hops\<close>

record ('u, 'h) raw_response =
  resp_status :: status_code
  resp_headers :: 'h
  resp_url :: 'u

text \<open>The calls on a request builder: \<open>hop_zero_length\<close> is the explicit header \<open>content-length: 0\<close>.\<close>

record ('u, 'h) hop_request =
  hop_method :: http_method
  hop_url :: 'u
  hop_headers :: 'h
  hop_body :: "string option"
  hop_zero_length :: bool

record ('u, 'h) hop_env =
  hop_now :: "nat \<Rightarrow> instant"
  hop_phase :: "nat \<Rightarrow> u8"
  hop_build :: "nat \<Rightarrow> ('u, 'h) hop_request \<Rightarrow> net_error option"
  hop_execute :: "nat \<Rightarrow> ('u, 'h) hop_request \<Rightarrow> (('u, 'h) raw_response, net_error) result option"

record 'h response_hops =
  rh_request_headers :: 'h
  rh_body :: string
  rh_body_present :: bool
  rh_replayable_body :: bool
  rh_method :: http_method
  rh_request_id :: http_request_id
  rh_attempt :: u32
  rh_initial_generation :: u64
  rh_budget :: http_budget

record ('u, 'h) hop_state =
  hs_response :: "('u, 'h) raw_response"
  hs_headers :: 'h
  hs_method :: http_method
  hs_body_present :: bool
  hs_control :: cancellation_signal
  hs_step :: nat
  hs_sent :: "('u, 'h) hop_request list"

definition redirect_error :: "http_redirect_error \<Rightarrow> net_error" where
  "redirect_error reason = with_stage (protocol (Src_HttpRedirectError reason)) St_Receive"

definition redirect_method :: "status_code \<Rightarrow> http_method \<Rightarrow> http_method \<times> bool" where
  "redirect_method status m =
     (if status \<in> {301, 302} \<and> m = ''POST'' then (''GET'', False)
      else if status = 303 then (if m = ''HEAD'' then ''HEAD'' else ''GET'', False)
      else (m, True))"

fun remove_headers :: "'h header_lib \<Rightarrow> string list \<Rightarrow> 'h \<Rightarrow> 'h" where
  "remove_headers H [] headers = headers"
| "remove_headers H (n # ns) headers = remove_headers H ns (hm_remove H headers n)"

definition SENSITIVE_NAMES :: "string list" where
  "SENSITIVE_NAMES = [''authorization'', ''cookie'', ''proxy-authorization'', ''www-authenticate'', ''host'', ''cookie2'']"

definition strip_sensitive_headers :: "'h header_lib \<Rightarrow> 'h \<Rightarrow> 'h" where
  "strip_sensitive_headers H headers =
     (let names = map fst (filter (\<lambda>(_, v). hv_sensitive v) (hm_iter H headers))
      in remove_headers H SENSITIVE_NAMES (remove_headers H names headers))"

text \<open>One round of the loop: either the result of the function, or the state after another response.\<close>

definition signal_at :: "('u, 'h) hop_env \<Rightarrow> nat \<Rightarrow> cancellation_signal \<Rightarrow> cancellation_signal" where
  "signal_at env n control = control\<lparr>sig_phase := hop_phase env n\<rparr>"

definition stream_check :: "('u, 'h) hop_env \<Rightarrow> 'h response_hops \<Rightarrow> ('u, 'h) hop_state \<Rightarrow> nat \<Rightarrow> (unit, net_error) result" where
  "stream_check env hops st n =
     check_stream_start (hop_now env (hs_step st + n)) (rh_budget hops) (signal_at env (hs_step st + n) (hs_control st))"

type_synonym ('u, 'h) hop_result = "(('u, 'h) raw_response \<times> u64 \<times> bool, net_error) result"

definition send_hop ::
  "('u, 'h) hop_env \<Rightarrow> ('u, 'h) hop_request \<Rightarrow> ('u, 'h) hop_state \<Rightarrow> ('u, 'h) hop_state \<times> ('u, 'h) hop_result option option" where
  "send_hop env request st =
     (case hop_build env (hs_step st) request of
        Some e \<Rightarrow> (st, Some (Some (Inl e)))
      | None \<Rightarrow>
          (case signal_record_transport_send (hs_control st) of
             (control, Inl e) \<Rightarrow> (st\<lparr>hs_control := control\<rparr>, Some (Some (Inl e)))
           | (control, Inr _) \<Rightarrow>
               let st = st\<lparr>hs_control := control, hs_sent := hs_sent st @ [request]\<rparr>
               in case hop_execute env (hs_step st) request of
                    None \<Rightarrow> (st, Some None)
                  | Some (Inl e) \<Rightarrow> (st, Some (Some (Inl e)))
                  | Some (Inr response) \<Rightarrow> (st\<lparr>hs_response := response, hs_step := hs_step st + 4\<rparr>, None)))"

definition prepare_hop ::
  "('u, 'o) url_lib \<Rightarrow> 'h header_lib \<Rightarrow> 'h response_hops \<Rightarrow> 'u \<Rightarrow> ('u, 'h) hop_state \<Rightarrow> ('u, 'h) hop_state \<times> ('u, 'h) hop_request" where
  "prepare_hop U H hops next_url st =
     (let (next_method, preserve_body) = redirect_method (resp_status (hs_response st)) (hs_method st);
          st = st\<lparr>hs_method := next_method\<rparr>;
          st = (if \<not> preserve_body
                then st\<lparr>hs_body_present := False,
                        hs_headers := remove_headers H [''content-length'', ''content-type'', ''content-encoding'', ''transfer-encoding'']
                          (hs_headers st)\<rparr>
                else st);
          same_origin = (url_origin U (resp_url (hs_response st)) = url_origin U next_url);
          st = (if \<not> same_origin then st\<lparr>hs_headers := strip_sensitive_headers H (hs_headers st)\<rparr> else st)
      in (st, \<lparr>hop_method = hs_method st, hop_url = next_url, hop_headers = hs_headers st,
               hop_body = (if hs_body_present st then Some (rh_body hops) else None),
               hop_zero_length = (hs_body_present st \<and> rh_body hops = [])\<rparr>))"

definition follow_round ::
  "('u, 'o) url_lib \<Rightarrow> 'h header_lib \<Rightarrow> ('u, 'h) hop_env \<Rightarrow> 'u redirect_policy \<Rightarrow> http_transport_security \<Rightarrow> 'h response_hops
     \<Rightarrow> 'u \<Rightarrow> usize \<Rightarrow> ('u, 'h) hop_state \<Rightarrow> ('u, 'h) hop_state \<times> ('u, 'h) hop_result option option" where
  "follow_round U H env policy security hops original_url followed st =
     (case try_bind (stream_check env hops st 0) (\<lambda>_. stream_check env hops st 1) of
        Inl e \<Rightarrow> (st, Some (Some (Inl e)))
      | Inr _ \<Rightarrow>
          let response = hs_response st;
              unchanged = (st, Some (Some (Inr (response, rh_initial_generation hops, False))));
              fail = (\<lambda>e. (st, Some (Some (Inl e))))
          in if \<not> rp_enabled policy \<or> resp_status response \<notin> {301, 302, 303, 307, 308} then unchanged
             else case hm_get H (resp_headers response) ''location'' of
                    None \<Rightarrow> unchanged
                  | Some location \<Rightarrow>
                      (case hv_str location of
                         None \<Rightarrow> fail (redirect_error InvalidLocation)
                       | Some location \<Rightarrow>
                           (case url_join U (resp_url response) location of
                              None \<Rightarrow> fail (redirect_error InvalidLocation)
                            | Some next_url \<Rightarrow>
                                let next_url = url_without_fragment U next_url
                                in case check_redirect U policy original_url (resp_url response) next_url followed security of
                                     Inl reason \<Rightarrow> fail (redirect_error reason)
                                   | Inr _ \<Rightarrow>
                                       if snd (redirect_method (resp_status response) (hs_method st)) \<and> hs_body_present st
                                          \<and> \<not> rh_replayable_body hops
                                       then unchanged
                                       else let (st, request) = prepare_hop U H hops next_url st
                                            in case stream_check env hops st 2 of
                                                 Inl e \<Rightarrow> (st, Some (Some (Inl e)))
                                               | Inr _ \<Rightarrow> send_hop env request st)))"

text \<open>The loop \<open>for followed in 0..=max_redirects\<close>; a result \<open>None\<close> is a future that was dropped.\<close>

fun follow_loop ::
  "('u, 'o) url_lib \<Rightarrow> 'h header_lib \<Rightarrow> ('u, 'h) hop_env \<Rightarrow> 'u redirect_policy \<Rightarrow> http_transport_security \<Rightarrow> 'h response_hops
     \<Rightarrow> 'u \<Rightarrow> nat \<Rightarrow> usize \<Rightarrow> ('u, 'h) hop_state \<Rightarrow> ('u, 'h) hop_state \<times> ('u, 'h) hop_result option" where
  "follow_loop U H env policy security hops original_url 0 followed st = (st, Some (Inl (redirect_error TooManyRedirects)))"
| "follow_loop U H env policy security hops original_url (Suc rounds) followed st =
     (case follow_round U H env policy security hops original_url followed st of
        (st, Some res) \<Rightarrow> (st, res)
      | (st, None) \<Rightarrow> follow_loop U H env policy security hops original_url rounds (followed + 1) st)"

definition follow ::
  "('u, 'o) url_lib \<Rightarrow> 'h header_lib \<Rightarrow> ('u, 'h) hop_env \<Rightarrow> nat \<Rightarrow> clock \<Rightarrow> ('u, 'h, 'c, 'k, 'p) http_client_config \<Rightarrow> 'h response_hops
     \<Rightarrow> ('u, 'h) raw_response \<Rightarrow> cancellation_signal
     \<Rightarrow> ('u, 'h) hop_request list \<times> cancellation_signal \<times> ('u, 'h) hop_result option" where
  "follow U H env max_permits clk cfg hops response control =
     (case merge_headers U H max_permits clk cfg (rh_request_headers hops) of
        Inl e \<Rightarrow> ([], control, Some (Inl e))
      | Inr headers \<Rightarrow>
          let policy = cfg_redirect_policy cfg;
              (st, res) = follow_loop U H env policy (transport_security cfg) hops (resp_url response) (max_redirects policy + 1) 0
                \<lparr>hs_response = response, hs_headers = headers, hs_method = rh_method hops,
                 hs_body_present = rh_body_present hops, hs_control = control, hs_step = 0, hs_sent = []\<rparr>
          in (hs_sent st, hs_control st, res))"

definition follow_response_hops ::
  "(net_error \<Rightarrow> instant option) \<Rightarrow> clock \<Rightarrow> (nat \<Rightarrow> u8) \<Rightarrow> bool \<Rightarrow> ('u, 'o) url_lib \<Rightarrow> 'h header_lib \<Rightarrow> ('u, 'h) hop_env \<Rightarrow> nat \<Rightarrow> clock
     \<Rightarrow> ('u, 'h, 'c, 'k, 'p) http_client_config \<Rightarrow> 'h response_hops \<Rightarrow> ('u, 'h) raw_response \<Rightarrow> cancellation_signal
     \<Rightarrow> ('u, 'h) hop_request list \<times> cancellation_signal \<times> ('u, 'h) hop_result" where
  "follow_response_hops connect_deadline bclk phases timer U H env max_permits clk cfg hops response control =
     (let started = check_budget (bclk 0) (rh_budget hops) (control\<lparr>sig_phase := phases 0\<rparr>) St_Response;
          (sent, control, future) =
            (if is_err started then ([], control, None)
             else follow U H env max_permits clk cfg hops response control);
          res = run_budget connect_deadline bclk (\<lambda>n. control\<lparr>sig_phase := phases n\<rparr>) (rh_budget hops) St_Response timer future
      in (sent, control,
          map_err (\<lambda>e. with_http_attempt (with_http_request_id e (rh_request_id hops)) (rh_attempt hops)) res))"

section \<open>Stripped headers\<close>

definition credential_free :: "'h header_lib \<Rightarrow> 'h \<Rightarrow> bool" where
  "credential_free H headers \<longleftrightarrow>
     list_all (\<lambda>(n, v). \<not> hv_sensitive v \<and> n \<notin> set SENSITIVE_NAMES) (hm_iter H headers)"

lemma iter_remove:
  "header_laws H \<Longrightarrow> (n, v) \<in> set (hm_iter H (hm_remove H h m)) \<longleftrightarrow> n \<noteq> m \<and> (n, v) \<in> set (hm_iter H h)"
  by (simp add: header_lawsD)

lemma iter_remove_headers:
  "header_laws H \<Longrightarrow> (n, v) \<in> set (hm_iter H (remove_headers H ns h)) \<longleftrightarrow> n \<notin> set ns \<and> (n, v) \<in> set (hm_iter H h)"
  by (induction ns arbitrary: h) (auto simp: iter_remove)

lemma strip_credential_free: "header_laws H \<Longrightarrow> credential_free H (strip_sensitive_headers H h)"
  by (force simp: credential_free_def strip_sensitive_headers_def Let_def list_all_iff iter_remove_headers)

lemma remove_credential_free:
  "header_laws H \<Longrightarrow> credential_free H h \<Longrightarrow> credential_free H (remove_headers H ns h)"
  by (auto simp: credential_free_def list_all_iff iter_remove_headers)

section \<open>Where a redirect can lead\<close>

text \<open>A trail from the URL \<open>current\<close>: what every started request must satisfy. \<open>foreign\<close> says whether the trail has
  already left an origin.\<close>

definition target_ok ::
  "('u, 'o) url_lib \<Rightarrow> 'u redirect_policy \<Rightarrow> http_transport_security \<Rightarrow> 'h response_hops \<Rightarrow> 'u \<Rightarrow> ('u, 'h) hop_request \<Rightarrow> bool" where
  "target_ok U policy security hops original_url r \<longleftrightarrow>
     url_scheme U (hop_url r) \<in> {''http'', ''https''} \<and> (security = HttpsOnly \<longrightarrow> url_scheme U (hop_url r) = ''https'')
     \<and> url_username U (hop_url r) = [] \<and> url_password U (hop_url r) = None
     \<and> url_origin U (hop_url r) \<in> insert (url_origin U original_url) (url_origin U ` set (allowed_origins policy))
     \<and> (hop_body r = None \<or> hop_body r = Some (rh_body hops) \<and> rh_replayable_body hops)"

fun trail_ok ::
  "('u, 'o) url_lib \<Rightarrow> 'h header_lib \<Rightarrow> 'u redirect_policy \<Rightarrow> http_transport_security \<Rightarrow> 'h response_hops \<Rightarrow> 'u
     \<Rightarrow> 'u \<Rightarrow> bool \<Rightarrow> ('u, 'h) hop_request list \<Rightarrow> bool" where
  "trail_ok U H policy security hops original_url current foreign [] = True"
| "trail_ok U H policy security hops original_url current foreign (r # rs) =
     (let foreign = (foreign \<or> url_origin U (hop_url r) \<noteq> url_origin U current)
      in target_ok U policy security hops original_url r
         \<and> (url_scheme U current = ''https'' \<longrightarrow> url_scheme U (hop_url r) = ''https'')
         \<and> (foreign \<longrightarrow> credential_free H (hop_headers r))
         \<and> trail_ok U H policy security hops original_url (hop_url r) foreign rs)"

definition answers_own_url :: "('u, 'h) hop_env \<Rightarrow> bool" where
  "answers_own_url env \<longleftrightarrow> (\<forall>n r response. hop_execute env n r = Some (Inr response) \<longrightarrow> resp_url response = hop_url r)"

lemma prepare_hop_facts:
  assumes "prepare_hop U H hops next_url st = (st', r)" and "header_laws H"
    and "foreign \<Longrightarrow> credential_free H (hs_headers st)"
    and "\<not> (snd (redirect_method (resp_status (hs_response st)) (hs_method st)) \<and> hs_body_present st \<and> \<not> rh_replayable_body hops)"
  shows "hop_url r = next_url" "hop_headers r = hs_headers st'" "hs_sent st' = hs_sent st" "hs_control st' = hs_control st"
    "hop_body r = None \<or> hop_body r = Some (rh_body hops) \<and> rh_replayable_body hops"
    "foreign \<or> url_origin U next_url \<noteq> url_origin U (resp_url (hs_response st)) \<Longrightarrow> credential_free H (hs_headers st')"
proof -
  show "hop_url r = next_url" "hop_headers r = hs_headers st'" "hs_sent st' = hs_sent st" "hs_control st' = hs_control st"
    using assms(1) by (auto simp: prepare_hop_def Let_def case_prod_beta simp del: remove_headers.simps split: if_split_asm)
  show "hop_body r = None \<or> hop_body r = Some (rh_body hops) \<and> rh_replayable_body hops"
    using assms(1,4) by (auto simp: prepare_hop_def Let_def case_prod_beta simp del: remove_headers.simps split: if_split_asm)
  define kept where "kept = (if \<not> snd (redirect_method (resp_status (hs_response st)) (hs_method st))
    then remove_headers H [''content-length'', ''content-type'', ''content-encoding'', ''transfer-encoding''] (hs_headers st)
    else hs_headers st)"
  have headers: "hs_headers st' = (if url_origin U (resp_url (hs_response st)) = url_origin U next_url then kept
      else strip_sensitive_headers H kept)"
    using assms(1) by (auto simp: prepare_hop_def Let_def case_prod_beta kept_def simp del: remove_headers.simps split: if_split_asm)
  have "foreign \<Longrightarrow> credential_free H kept"
    using assms(3) remove_credential_free [OF assms(2)] by (simp add: kept_def del: remove_headers.simps)
  then show "foreign \<or> url_origin U next_url \<noteq> url_origin U (resp_url (hs_response st)) \<Longrightarrow> credential_free H (hs_headers st')"
    using headers strip_credential_free [OF assms(2)] by auto
qed

lemma send_hop_facts:
  assumes "send_hop env r st = (st', out)" and "answers_own_url env"
  shows "hs_sent st' = hs_sent st \<and> out \<noteq> None \<and> hs_control st' = hs_control st
    \<or> hs_sent st' = hs_sent st @ [r] \<and> signal_record_transport_send (hs_control st) = (hs_control st', Inr ())
      \<and> (out = None \<longrightarrow> resp_url (hs_response st') = hop_url r \<and> hs_headers st' = hs_headers st)"
proof (cases "hop_build env (hs_step st) r")
  case (Some e)
  then show ?thesis using assms(1) by (auto simp: send_hop_def)
next
  case None
  obtain control res where c: "signal_record_transport_send (hs_control st) = (control, res)" by fastforce
  show ?thesis
  proof (cases res)
    case (Inl e)
    then have "control = hs_control st" using c by (auto simp: signal_record_transport_send_def split: option.split_asm)
    then show ?thesis using assms(1) None c Inl by (auto simp: send_hop_def)
  next
    case (Inr u)
    then show ?thesis using assms None c
      by (auto simp: send_hop_def Let_def answers_own_url_def split: option.split_asm sum.split_asm)
  qed
qed

lemma follow_round_facts:
  assumes "follow_round U H env policy security hops original_url followed st = (st', out)"
    and "header_laws H" and "answers_own_url env" and "foreign \<Longrightarrow> credential_free H (hs_headers st)"
  shows "hs_sent st' = hs_sent st \<and> out \<noteq> None \<and> hs_control st' = hs_control st
    \<or> (\<exists>r. hs_sent st' = hs_sent st @ [r] \<and> signal_record_transport_send (hs_control st) = (hs_control st', Inr ())
         \<and> rp_enabled policy \<and> followed < max_redirects policy
         \<and> trail_ok U H policy security hops original_url (resp_url (hs_response st)) foreign [r]
         \<and> (out = None \<longrightarrow> resp_url (hs_response st') = hop_url r
             \<and> (foreign \<or> url_origin U (hop_url r) \<noteq> url_origin U (resp_url (hs_response st)) \<longrightarrow> credential_free H (hs_headers st'))))"
proof (cases "hs_sent st' = hs_sent st \<and> out \<noteq> None \<and> hs_control st' = hs_control st")
  case False
  have "st' = st \<and> out \<noteq> None \<or> (\<exists>next_url.
      check_redirect U policy original_url (resp_url (hs_response st)) next_url followed security = Inr () \<and> rp_enabled policy
      \<and> \<not> (snd (redirect_method (resp_status (hs_response st)) (hs_method st)) \<and> hs_body_present st \<and> \<not> rh_replayable_body hops)
      \<and> (send_hop env (snd (prepare_hop U H hops next_url st)) (fst (prepare_hop U H hops next_url st)) = (st', out)
         \<or> st' = fst (prepare_hop U H hops next_url st) \<and> out \<noteq> None))"
    using assms(1) unfolding follow_round_def Let_def case_prod_beta
    by (simp split: sum.split_asm option.split_asm if_split_asm) blast+
  then obtain next_url st1 r where
    check: "check_redirect U policy original_url (resp_url (hs_response st)) next_url followed security = Inr ()"
    and en: "rp_enabled policy"
    and body: "\<not> (snd (redirect_method (resp_status (hs_response st)) (hs_method st)) \<and> hs_body_present st \<and> \<not> rh_replayable_body hops)"
    and prep: "prepare_hop U H hops next_url st = (st1, r)"
    and send: "send_hop env r st1 = (st', out) \<or> st' = st1 \<and> out \<noteq> None"
    using False by (metis prod.collapse)
  note facts = prepare_hop_facts [OF prep assms(2,4) body]
  have send: "send_hop env r st1 = (st', out)" using send False facts(3,4) by auto
  note target = check_redirect_Inr [OF check]
  have out: "hs_sent st' = hs_sent st @ [r]" "signal_record_transport_send (hs_control st) = (hs_control st', Inr ())"
    "out = None \<longrightarrow> resp_url (hs_response st') = hop_url r \<and> hs_headers st' = hs_headers st1"
    using send_hop_facts [OF send assms(3)] False facts(3,4) by auto
  have "target_ok U policy security hops original_url r" using target facts(1,5) by (simp add: target_ok_def)
  moreover have "foreign \<or> url_origin U (hop_url r) \<noteq> url_origin U (resp_url (hs_response st)) \<longrightarrow> credential_free H (hs_headers st1)"
    using facts(1,6) by simp
  moreover have "url_scheme U (resp_url (hs_response st)) = ''https'' \<longrightarrow> url_scheme U (hop_url r) = ''https''"
    using target(5) facts(1) by simp
  ultimately have "trail_ok U H policy security hops original_url (resp_url (hs_response st)) foreign [r]"
    using facts(2) by simp
  then show ?thesis using out facts(1,6) en target(8) by auto
qed blast

lemma record_send_count:
  "signal_record_transport_send c = (c', Inr ()) \<Longrightarrow> unat (sig_transport_sends c') = unat (sig_transport_sends c) + 1"
  by (auto simp: signal_record_transport_send_def split: option.split_asm dest: unat_checked_add)

lemma follow_loop_trail:
  assumes "follow_loop U H env policy security hops original_url rounds followed st = (st', res)"
    and "header_laws H" and "answers_own_url env" and "foreign \<Longrightarrow> credential_free H (hs_headers st)"
  shows "\<exists>sent. hs_sent st' = hs_sent st @ sent \<and> length sent \<le> max_redirects policy - followed
    \<and> (sent \<noteq> [] \<longrightarrow> rp_enabled policy)
    \<and> trail_ok U H policy security hops original_url (resp_url (hs_response st)) foreign sent
    \<and> unat (sig_transport_sends (hs_control st')) = unat (sig_transport_sends (hs_control st)) + length sent"
  using assms(1,4)
proof (induction rounds arbitrary: followed st foreign)
  case 0
  then show ?case by auto
next
  case (Suc rounds)
  obtain st1 out where round: "follow_round U H env policy security hops original_url followed st = (st1, out)" by fastforce
  show ?case
  proof (cases "hs_sent st1 = hs_sent st \<and> out \<noteq> None \<and> hs_control st1 = hs_control st")
    case True
    then show ?thesis using Suc.prems(1) round by auto
  next
    case False
    then obtain r where r: "hs_sent st1 = hs_sent st @ [r]" "signal_record_transport_send (hs_control st) = (hs_control st1, Inr ())"
        "rp_enabled policy" "followed < max_redirects policy"
        "trail_ok U H policy security hops original_url (resp_url (hs_response st)) foreign [r]"
      and more1: "out = None \<Longrightarrow> resp_url (hs_response st1) = hop_url r"
        "out = None \<Longrightarrow> foreign \<or> url_origin U (hop_url r) \<noteq> url_origin U (resp_url (hs_response st)) \<Longrightarrow> credential_free H (hs_headers st1)"
      using follow_round_facts [OF round assms(2,3) Suc.prems(2)] by blast
    show ?thesis
    proof (cases out)
      case (Some x)
      then have "st' = st1" using Suc.prems(1) round by simp
      then show ?thesis using r record_send_count [OF r(2)] by (intro exI [of _ "[r]"]) auto
    next
      case None
      then have "follow_loop U H env policy security hops original_url rounds (followed + 1) st1 = (st', res)"
        using Suc.prems(1) round by simp
      from Suc.IH [OF this more1(2) [OF None]] obtain sent where
        sent: "hs_sent st' = hs_sent st1 @ sent" "length sent \<le> max_redirects policy - (followed + 1)"
          "trail_ok U H policy security hops original_url (resp_url (hs_response st1))
             (foreign \<or> url_origin U (hop_url r) \<noteq> url_origin U (resp_url (hs_response st))) sent"
          "unat (sig_transport_sends (hs_control st')) = unat (sig_transport_sends (hs_control st1)) + length sent"
        by blast
      then show ?thesis
        using r more1(1) [OF None] record_send_count [OF r(2)] by (intro exI [of _ "r # sent"]) (auto simp: Let_def)
    qed
  qed
qed

lemma trail_ok_nth:
  assumes "trail_ok U H policy security hops original_url current foreign sent" and "i < length sent"
  shows "target_ok U policy security hops original_url (sent ! i)
    \<and> (url_scheme U ((current # map hop_url sent) ! i) = ''https'' \<longrightarrow> url_scheme U (hop_url (sent ! i)) = ''https'')
    \<and> (foreign \<or> (\<exists>j \<le> i. url_origin U (hop_url (sent ! j)) \<noteq> url_origin U ((current # map hop_url sent) ! j))
        \<longrightarrow> credential_free H (hop_headers (sent ! i)))"
  using assms
proof (induction sent arbitrary: current foreign i)
  case (Cons r rs)
  show ?case
  proof (cases i)
    case 0
    then show ?thesis using Cons.prems by (simp add: Let_def)
  next
    case (Suc k)
    let ?foreign = "foreign \<or> url_origin U (hop_url r) \<noteq> url_origin U current"
    have rest: "trail_ok U H policy security hops original_url (hop_url r) ?foreign rs"
      using Cons.prems(1) by (simp only: trail_ok.simps Let_def)
    have split: "(\<exists>j \<le> Suc k. P j) \<longleftrightarrow> P 0 \<or> (\<exists>j \<le> k. P (Suc j))" for P
      by (metis Suc_le_mono le0 not0_implies_Suc)
    show ?thesis using Cons.IH [OF rest, of k] Cons.prems(2) Suc unfolding Suc split by auto
  qed
qed simp

lemma follow_trail:
  assumes "follow U H env max_permits clk cfg hops response control = (sent, control', out)"
    and "header_laws H" and "answers_own_url env"
  shows "length sent \<le> max_redirects (cfg_redirect_policy cfg) \<and> (sent \<noteq> [] \<longrightarrow> rp_enabled (cfg_redirect_policy cfg))
    \<and> trail_ok U H (cfg_redirect_policy cfg) (transport_security cfg) hops (resp_url response) (resp_url response) False sent
    \<and> unat (sig_transport_sends control') = unat (sig_transport_sends control) + length sent"
proof (cases "merge_headers U H max_permits clk cfg (rh_request_headers hops)")
  case (Inl e)
  then show ?thesis using assms(1) by (simp add: follow_def)
next
  case (Inr headers)
  let ?start = "\<lparr>hs_response = response, hs_headers = headers, hs_method = rh_method hops,
    hs_body_present = rh_body_present hops, hs_control = control, hs_step = 0, hs_sent = []\<rparr>"
  obtain st res where loop: "follow_loop U H env (cfg_redirect_policy cfg) (transport_security cfg) hops (resp_url response)
      (max_redirects (cfg_redirect_policy cfg) + 1) 0 ?start = (st, res)" by fastforce
  have "sent = hs_sent st" "control' = hs_control st"
    using assms(1) Inr loop by (simp_all add: follow_def Let_def)
  then show ?thesis using follow_loop_trail [OF loop assms(2,3), of False] by auto
qed

section \<open>Properties\<close>

text \<open>C30. Following redirects never leaves what the policy authorizes. Every request it starts goes to an http or
  https URL without credentials, of the original request's origin or of an allowed one, never from https to http, and
  over https only if the client requires it; it carries the body only if the body can be replayed. From the first hop to
  another origin on, no request has a sensitive header or one of the credential headers. There are at most
  \<open>max_redirects\<close> such requests, none for a disabled policy, and each is counted as a transport send. This holds
  also when the budget ends the wait.\<close>

theorem redirects_stay_authorized:
  assumes "header_laws H" and "answers_own_url env"
    and "follow_response_hops connect_deadline bclk phases timer U H env max_permits clk cfg hops response control
      = (sent, control', res)"
  shows "length sent \<le> max_redirects (cfg_redirect_policy cfg) \<and> (rp_enabled (cfg_redirect_policy cfg) \<or> sent = [])
    \<and> unat (sig_transport_sends control') = unat (sig_transport_sends control) + length sent
    \<and> (\<forall>i < length sent.
        target_ok U (cfg_redirect_policy cfg) (transport_security cfg) hops (resp_url response) (sent ! i)
        \<and> (url_scheme U ((resp_url response # map hop_url sent) ! i) = ''https'' \<longrightarrow> url_scheme U (hop_url (sent ! i)) = ''https'')
        \<and> ((\<exists>j \<le> i. url_origin U (hop_url (sent ! j)) \<noteq> url_origin U ((resp_url response # map hop_url sent) ! j))
            \<longrightarrow> credential_free H (hop_headers (sent ! i))))"
proof -
  have "is_err (check_budget (bclk 0) (rh_budget hops) (control\<lparr>sig_phase := phases 0\<rparr>) St_Response) \<and> sent = [] \<and> control' = control
      \<or> (\<exists>out. follow U H env max_permits clk cfg hops response control = (sent, control', out))"
    using assms(3) unfolding follow_response_hops_def Let_def case_prod_beta
    by (cases "follow U H env max_permits clk cfg hops response control") (simp split: if_split_asm)
  then show ?thesis
  proof (elim disjE exE conjE)
    fix out
    assume run: "follow U H env max_permits clk cfg hops response control = (sent, control', out)"
    have "trail_ok U H (cfg_redirect_policy cfg) (transport_security cfg) hops (resp_url response) (resp_url response) False sent"
      and "length sent \<le> max_redirects (cfg_redirect_policy cfg)" "sent \<noteq> [] \<longrightarrow> rp_enabled (cfg_redirect_policy cfg)"
        "unat (sig_transport_sends control') = unat (sig_transport_sends control) + length sent"
      using follow_trail [OF run assms(1,2)] by blast+
    then show ?thesis using trail_ok_nth [of U H "cfg_redirect_policy cfg"] by blast
  qed simp
qed

text \<open>A redirect to an allowed origin.\<close>

definition example_redirect_config :: "(plain_url, (string \<times> header_value) list, unit, unit, unit) http_client_config" where
  "example_redirect_config = example_http_config\<lparr>cfg_redirect_policy :=
     \<lparr>rp_enabled = True, allowed_origins = [(''https'', ''cdn'', ''/'')], max_redirects = 1\<rparr>\<rparr>"

definition example_hops :: "(string \<times> header_value) list response_hops" where
  "example_hops = \<lparr>rh_request_headers = [(''authorization'', \<lparr>hv_str = Some ''key'', hv_sensitive = True\<rparr>)], rh_body = [],
     rh_body_present = False, rh_replayable_body = True, rh_method = ''GET'', rh_request_id = HttpRequestId 1, rh_attempt = 1,
     rh_initial_generation = 0, rh_budget = http_budget_default\<rparr>"

definition example_redirect :: "(plain_url, (string \<times> header_value) list) raw_response" where
  "example_redirect = \<lparr>resp_status = 302, resp_headers = [(''location'', \<lparr>hv_str = Some ''https://cdn/x'', hv_sensitive = False\<rparr>)],
     resp_url = (''https'', ''api'', ''/b'')\<rparr>"

definition example_hop_env :: "(plain_url, (string \<times> header_value) list) hop_env" where
  "example_hop_env = \<lparr>hop_now = (\<lambda>_. 0), hop_phase = (\<lambda>_. 0), hop_build = (\<lambda>_ _. None),
     hop_execute = (\<lambda>_ r. Some (Inr \<lparr>resp_status = 200, resp_headers = [], resp_url = hop_url r\<rparr>))\<rparr>"

lemma example_merge:
  "merge_headers plain_urls line_headers 9 (\<lambda>_. 0) example_redirect_config (rh_request_headers example_hops)
     = Inr [(''accept'', \<lparr>hv_str = Some ''any'', hv_sensitive = False\<rparr>), (''authorization'', \<lparr>hv_str = Some ''key'', hv_sensitive = True\<rparr>)]"
proof -
  have "http_config_validate plain_urls line_headers 9 (\<lambda>_. 0) example_redirect_config = Inr ()"
    by (simp add: http_config_validate_def example_redirect_config_def example_http_config_def plain_urls_def line_headers_def
        http_validate_duration_def timeouts_validate_def validate_with_def http_timeouts_new_def validate_queue_capacity_def
        validate_headers_def is_hop_by_hop_def ascii_lower_def instant_checked_add_def INSTANT_MAX_def NANOS_PER_SEC_def)
  moreover have "validate_headers line_headers (rh_request_headers example_hops) = Inr ()"
    by (simp add: validate_headers_def line_headers_def example_hops_def is_hop_by_hop_def ascii_lower_def)
  ultimately show ?thesis
    by (simp add: merge_headers_def line_headers_def example_redirect_config_def example_http_config_def example_hops_def)
qed

lemma example_target: "url_join plain_urls (''https'', ''api'', ''/b'') ''https://cdn/x'' = Some (''https'', ''cdn'', ''/x'')"
  by (simp add: plain_urls_def plain_parse_def split_once.simps)

lemmas example_redirect_defs =
  example_redirect_config_def example_hops_def example_redirect_def example_hop_env_def example_http_config_def

lemma example_round:
  assumes "st = \<lparr>hs_response = example_redirect, hs_headers = hs, hs_method = ''GET'', hs_body_present = False,
      hs_control = signal_new, hs_step = 0, hs_sent = []\<rparr>"
  shows "\<exists>r st'. follow_round plain_urls line_headers example_hop_env (cfg_redirect_policy example_redirect_config) PreventDowngrade
      example_hops (''https'', ''api'', ''/b'') 0 st = (st', None) \<and> hs_sent st' = [r] \<and> hop_url r = (''https'', ''cdn'', ''/x'')
      \<and> resp_status (hs_response st') = 200"
proof -
  have pass: "stream_check example_hop_env example_hops s n = Inr ()" for s :: "(plain_url, (string \<times> header_value) list) hop_state" and n
    by (simp add: stream_check_def check_stream_start_def check_budget_def signal_at_def signal_is_cancelled_def expired_def
        example_hop_env_def example_hops_def http_budget_default_def)
  have ok: "check_redirect plain_urls (cfg_redirect_policy example_redirect_config) (''https'', ''api'', ''/b'') (''https'', ''api'', ''/b'')
      (''https'', ''cdn'', ''/x'') 0 PreventDowngrade = Inr ()"
    by (simp add: check_redirect_def plain_urls_def example_redirect_config_def)
  have count: "signal_record_transport_send signal_new = (signal_new\<lparr>sig_transport_sends := 1\<rparr>, Inr ())"
    by (simp add: signal_record_transport_send_def signal_new_def checked_add_def)
  have location: "hm_get line_headers (resp_headers example_redirect) ''location'' = Some \<lparr>hv_str = Some ''https://cdn/x'', hv_sensitive = False\<rparr>"
    by (simp add: line_headers_def example_redirect_def)
  have parts: "resp_status example_redirect = 302" "resp_url example_redirect = (''https'', ''api'', ''/b'')"
    "rp_enabled (cfg_redirect_policy example_redirect_config)" "url_without_fragment plain_urls u = u"
    "hop_build example_hop_env n q = None"
    "hop_execute example_hop_env n q = Some (Inr \<lparr>resp_status = 200, resp_headers = [], resp_url = hop_url q\<rparr>)" for u n q
    by (simp_all add: example_redirect_defs plain_urls_def)
  show ?thesis
    unfolding assms
    by (simp add: follow_round_def pass ok example_target location count parts prepare_hop_def redirect_method_def send_hop_def Let_def
        del: remove_headers.simps)
qed

theorem redirects_stay_authorized_witness:
  "\<exists>r control' res. follow_response_hops (\<lambda>_. None) (\<lambda>_. 0) (\<lambda>_. 0) False plain_urls line_headers example_hop_env 9 (\<lambda>_. 0)
       example_redirect_config example_hops example_redirect signal_new = ([r], control', res)
     \<and> hop_url r = (''https'', ''cdn'', ''/x'') \<and> credential_free line_headers (hop_headers r)"
proof -
  obtain sent control' res where run: "follow_response_hops (\<lambda>_. None) (\<lambda>_. 0) (\<lambda>_. 0) False plain_urls line_headers example_hop_env 9 (\<lambda>_. 0)
       example_redirect_config example_hops example_redirect signal_new = (sent, control', res)" by (metis prod_cases3)
  let ?start = "\<lparr>hs_response = example_redirect,
    hs_headers = [(''accept'', \<lparr>hv_str = Some ''any'', hv_sensitive = False\<rparr>), (''authorization'', \<lparr>hv_str = Some ''key'', hv_sensitive = True\<rparr>)],
    hs_method = ''GET'', hs_body_present = False, hs_control = signal_new, hs_step = 0, hs_sent = []\<rparr>"
  obtain r st where round: "follow_round plain_urls line_headers example_hop_env (cfg_redirect_policy example_redirect_config) PreventDowngrade
      example_hops (''https'', ''api'', ''/b'') 0 ?start = (st, None)" "hs_sent st = [r]" "hop_url r = (''https'', ''cdn'', ''/x'')"
    "resp_status (hs_response st) = 200"
    using example_round [OF refl] by blast
  have pass: "stream_check example_hop_env example_hops s n = Inr ()" for s :: "(plain_url, (string \<times> header_value) list) hop_state" and n
    by (simp add: stream_check_def check_stream_start_def check_budget_def signal_at_def signal_is_cancelled_def expired_def
        example_hop_env_def example_hops_def http_budget_default_def)
  have stop: "\<exists>out. follow_round plain_urls line_headers example_hop_env (cfg_redirect_policy example_redirect_config) PreventDowngrade
      example_hops (''https'', ''api'', ''/b'') 1 st = (st, Some out)"
    by (simp add: follow_round_def pass round(4))
  have start: "\<not> is_err (check_budget 0 (rh_budget example_hops) (signal_new\<lparr>sig_phase := 0\<rparr>) St_Response)"
    by (simp add: check_budget_def signal_is_cancelled_def expired_def example_hops_def http_budget_default_def is_err_def)
  have "max_redirects (cfg_redirect_policy example_redirect_config) + 1 = Suc (Suc 0)"
    "transport_security example_redirect_config = PreventDowngrade" "resp_url example_redirect = (''https'', ''api'', ''/b'')"
    "rh_method example_hops = ''GET''" "\<not> rh_body_present example_hops"
    by (simp_all add: example_redirect_defs)
  then have sent: "sent = [r]"
    using run stop start round(1,2) by (auto simp: follow_response_hops_def follow_def example_merge Let_def)
  have "answers_own_url example_hop_env" by (simp add: answers_own_url_def example_hop_env_def)
  from redirects_stay_authorized [OF line_headers_laws this run] sent round(3)
  have "credential_free line_headers (hop_headers r)" by (auto simp: plain_urls_def example_redirect_def)
  then show ?thesis using run sent round(3) by blast
qed

end
