(* ===== verification/Retry_After.thy ===== *)
theory Retry_After
  imports Http_Policy
begin

text \<open>
  The \<open>Retry-After\<close> header: \<open>src/module/http/retry_after.rs\<close>. A \<open>SystemTime\<close> is the number of nanoseconds since the
  epoch, its seconds in the range of \<open>i64\<close>; \<open>httpdate::parse_http_date\<close> is an argument. The \<open>u16\<close> and \<open>i32\<close> values
  of the source are natural numbers and integers here; the digits they come from keep them in range.
\<close>

section \<open>Definitions\<close>

type_synonym wall_time = int

definition wall_time_ok :: "wall_time \<Rightarrow> bool" where
  "wall_time_ok t \<longleftrightarrow> - (2 ^ 63) * int NANOS_PER_SEC \<le> t \<and> t < 2 ^ 63 * int NANOS_PER_SEC"

definition wall_checked_add :: "wall_time \<Rightarrow> duration \<Rightarrow> wall_time option" where
  "wall_checked_add t d = (if wall_time_ok (t + int d) then Some (t + int d) else None)"

definition wall_checked_sub :: "wall_time \<Rightarrow> duration \<Rightarrow> wall_time option" where
  "wall_checked_sub t d = (if wall_time_ok (t - int d) then Some (t - int d) else None)"

definition from_secs :: "nat \<Rightarrow> duration" where
  "from_secs n = n * NANOS_PER_SEC"

definition WEEKDAYS :: "string list" where
  "WEEKDAYS = [''Mon'', ''Tue'', ''Wed'', ''Thu'', ''Fri'', ''Sat'', ''Sun'']"

definition MONTHS :: "string list" where
  "MONTHS = [''Jan'', ''Feb'', ''Mar'', ''Apr'', ''May'', ''Jun'', ''Jul'', ''Aug'', ''Sep'', ''Oct'', ''Nov'', ''Dec'']"

definition without_simple_comment :: "string \<Rightarrow> string option" where
  "without_simple_comment value =
     (case split_once ''('' value of
        Some (date, comment) \<Rightarrow>
          Option.bind (strip_suffix_char (CHR '')'') comment) (\<lambda>comment.
            if contains_any [CHR ''('', CHR '')'', CHR 0x5C] comment then None else Some (str_trim_end date))
      | None \<Rightarrow> Some value)"

definition canonical :: "string \<Rightarrow> string list \<Rightarrow> string option" where
  "canonical value names = List.find (\<lambda>name. eq_ignore_ascii_case value name) names"

definition decimal :: "string \<Rightarrow> nat option" where
  "decimal value =
     (if value = [] \<or> \<not> list_all is_ascii_digit value then None else parse_unsigned 65535 value)"

definition compatible_year :: "string \<Rightarrow> nat option" where
  "compatible_year value =
     Option.bind (decimal value) (\<lambda>year.
       if length value = 2 \<and> year < 50 then Some (year + 2000)
       else if length value = 2 \<or> length value = 3 then Some (year + 1900)
       else if length value = 4 then Some year
       else None)"

definition two_digits :: "string \<Rightarrow> nat option" where
  "two_digits value = (if length value = 2 then decimal value else None)"

definition clock_time :: "string \<Rightarrow> (nat \<times> nat \<times> nat) option" where
  "clock_time value =
     (case split_char (CHR '':'') value of
        h # m # rest \<Rightarrow>
          Option.bind (two_digits h) (\<lambda>hour. Option.bind (two_digits m) (\<lambda>minute.
            case rest of
              [] \<Rightarrow> Some (hour, minute, 0)
            | s # more1 \<Rightarrow>
                Option.bind (two_digits s) (\<lambda>second. if more1 \<noteq> [] then None else Some (hour, minute, second))))
      | _ \<Rightarrow> None)"

definition ZONES :: "(string \<times> int) list" where
  "ZONES = [(''GMT'', 0), (''UT'', 0), (''UTC'', 0), (''EST'', -5), (''EDT'', -4), (''CST'', -6), (''CDT'', -5),
     (''MST'', -7), (''MDT'', -6), (''PST'', -8), (''PDT'', -7)]"

definition timezone_offset :: "string \<Rightarrow> int option" where
  "timezone_offset value =
     (case List.find (\<lambda>(name, _). eq_ignore_ascii_case value name) ZONES of
        Some (_, hours) \<Rightarrow> Some (hours * 3600)
      | None \<Rightarrow>
          (case value of
             [] \<Rightarrow> None
           | c # value \<Rightarrow>
               if c \<noteq> CHR ''+'' \<and> c \<noteq> CHR ''-'' then None
               else if length value \<noteq> 4 then None
               else Option.bind (decimal value) (\<lambda>digits.
                 let hours = digits div 100; minutes = digits mod 100
                 in if 24 \<le> hours \<or> 60 \<le> minutes then None
                    else let seconds = int hours * 3600 + int minutes * 60
                         in Some (if c = CHR ''+'' then seconds else - seconds))))"

definition date_text :: "string \<Rightarrow> nat \<Rightarrow> string \<Rightarrow> nat \<Rightarrow> nat \<Rightarrow> nat \<Rightarrow> nat \<Rightarrow> string" where
  "date_text weekday day month year hour minute second =
     weekday @ '', '' @ pad_zero 2 day @ '' '' @ month @ '' '' @ pad_zero 4 year @ '' '' @ pad_zero 2 hour @ '':''
       @ pad_zero 2 minute @ '':'' @ pad_zero 2 second @ '' GMT''"

fun find_map :: "('a \<Rightarrow> 'b option) \<Rightarrow> 'a list \<Rightarrow> 'b option" where
  "find_map f [] = None"
| "find_map f (x # xs) = (case f x of Some y \<Rightarrow> Some y | None \<Rightarrow> find_map f xs)"

text \<open>The fields after the weekday, in the order in which the source takes them from the iterator.\<close>

definition parse_date_fields :: "(string \<Rightarrow> wall_time option) \<Rightarrow> string option \<Rightarrow> string list \<Rightarrow> wall_time option" where
  "parse_date_fields parse_http_date weekday parts =
     (case parts of
        [f1, f2, f3, f4, f5] \<Rightarrow>
          if \<not> (1 \<le> length f1 \<and> length f1 \<le> 2) then None
          else Option.bind (decimal f1) (\<lambda>day.
            Option.bind (canonical f2 MONTHS) (\<lambda>month.
            Option.bind (compatible_year f3) (\<lambda>year.
            Option.bind (clock_time f4) (\<lambda>(hour, minute, second).
            let leap_second = (second = 60);
                second = (if leap_second then 59 else second)
            in Option.bind (timezone_offset f5) (\<lambda>offset.
              let cycles = (if year < 1970 then (1970 - year + 399) div 400 else 0);
                  validation_year = year + cycles * 400;
                  validate = (\<lambda>weekday. parse_http_date (date_text weekday day month validation_year hour minute second))
              in Option.bind (case weekday of Some w \<Rightarrow> validate w | None \<Rightarrow> find_map validate WEEKDAYS) (\<lambda>local.
                 Option.bind (wall_checked_sub local (from_secs (cycles * 146097 * 86400))) (\<lambda>local.
                 Option.bind (wall_checked_add local (from_secs (if leap_second then 1 else 0))) (\<lambda>local.
                   let offset_duration = from_secs (nat \<bar>offset\<bar>)
                   in if 0 \<le> offset then wall_checked_sub local offset_duration
                      else wall_checked_add local offset_duration))))))))
      | _ \<Rightarrow> None)"

definition parse_compatible_date :: "(string \<Rightarrow> wall_time option) \<Rightarrow> string \<Rightarrow> wall_time option" where
  "parse_compatible_date parse_http_date value =
     Option.bind (without_simple_comment value) (\<lambda>value.
       Option.bind
         (case split_once '','' value of
            Some (weekday, rest) \<Rightarrow> map_option (\<lambda>w. (Some w, rest)) (canonical (str_trim weekday) WEEKDAYS)
          | None \<Rightarrow> Some (None, value))
         (\<lambda>(weekday, value). parse_date_fields parse_http_date weekday (split_ascii_whitespace value)))"

definition parse_retry_after_at ::
  "(string \<Rightarrow> wall_time option) \<Rightarrow> 'h header_lib \<Rightarrow> 'h \<Rightarrow> wall_time \<Rightarrow> duration option" where
  "parse_retry_after_at parse_http_date H headers now =
     Option.bind (hm_get H headers ''retry-after'') (\<lambda>value.
     Option.bind (hv_str value) (\<lambda>value.
       let value = str_trim value
       in case parse_unsigned (2 ^ 64 - 1) value of
            Some seconds \<Rightarrow> Some (from_secs seconds)
          | None \<Rightarrow>
              map_option (\<lambda>date. if now \<le> date then nat (date - now) else 0)
                (or_option (parse_http_date value) (parse_compatible_date parse_http_date value))))"

section \<open>Words and numbers\<close>

lemma split_ws_word: "list_all (\<lambda>c. \<not> is_ascii_whitespace c) w \<Longrightarrow> split_ws w = [w]"
  by (induction w) auto

lemma split_ws_cons:
  "list_all (\<lambda>c. \<not> is_ascii_whitespace c) w \<Longrightarrow> is_ascii_whitespace x \<Longrightarrow> split_ws (w @ x # s) = w # split_ws s"
  by (induction w) auto

definition plain :: "string \<Rightarrow> bool" where
  "plain w \<longleftrightarrow> w \<noteq> [] \<and> list_all (\<lambda>c. \<not> is_ascii_whitespace c) w"

lemma fields_cons: "plain w \<Longrightarrow> split_ascii_whitespace (w @ '' '' @ s) = w # split_ascii_whitespace s"
  using split_ws_cons [of w "CHR '' ''" s] by (simp add: split_ascii_whitespace_def plain_def is_ascii_whitespace_def)

lemma fields_last: "plain w \<Longrightarrow> split_ascii_whitespace w = [w]"
  by (simp add: split_ascii_whitespace_def split_ws_word plain_def)

lemma fields_space: "split_ascii_whitespace (CHR '' '' # s) = split_ascii_whitespace s"
  by (simp add: split_ascii_whitespace_def is_ascii_whitespace_def)

text \<open>A number of \<open>w\<close> digits, padded.\<close>

lemma show_nat_length: "0 < w \<Longrightarrow> n < 10 ^ w \<Longrightarrow> length (show_nat n) \<le> w"
proof (induction n arbitrary: w rule: show_nat.induct)
  case (1 n)
  show ?case
  proof (cases "n < 10")
    case True
    then show ?thesis using 1 by (simp add: show_nat.simps [of n])
  next
    case False
    obtain v where w: "w = Suc v" using 1(2) by (cases w) auto
    have v: "0 < v" using 1(3) False w by (cases v) auto
    have "n div 10 < 10 ^ v" using 1(3) w by (simp add: less_mult_imp_div_less)
    then have "length (show_nat (n div 10)) \<le> v" using 1(1) False v by simp
    then show ?thesis using False w by (simp add: show_nat.simps [of n])
  qed
qed

lemma pad_zero_length: "0 < w \<Longrightarrow> n < 10 ^ w \<Longrightarrow> length (pad_zero w n) = w"
  using show_nat_length [of w n] by (simp add: pad_zero_def)

lemma digits_value_zeros: "digits_value (replicate k (CHR ''0'') @ s) = digits_value s"
  by (induction k) (simp_all add: digits_value_def digit_value_def)

lemma pad_zero_digits: "list_all is_ascii_digit (pad_zero w n)" "digits_value (pad_zero w n) = n" "pad_zero w n \<noteq> []"
  using show_nat_digits [of n] by (auto simp: pad_zero_def digits_value_zeros list_all_iff is_ascii_digit_def)

lemma digit_neq:
  assumes "list_all is_ascii_digit s" "\<not> is_ascii_digit c"
  shows "c \<notin> set s"
  using assms by (auto simp: list_all_iff)

lemma parse_unsigned_digits:
  assumes "list_all is_ascii_digit s" "s \<noteq> []" "digits_value s \<le> m"
  shows "parse_unsigned m s = Some (digits_value s)"
  using assms by (cases s) (auto simp: parse_unsigned_def is_ascii_digit_def)

lemma decimal_digits:
  "list_all is_ascii_digit s \<Longrightarrow> s \<noteq> [] \<Longrightarrow> digits_value s \<le> 65535 \<Longrightarrow> decimal s = Some (digits_value s)"
  by (simp add: decimal_def parse_unsigned_digits)

lemma two_digits_pad: "n < 100 \<Longrightarrow> two_digits (pad_zero 2 n) = Some n"
  using pad_zero_digits [of 2 n] by (simp add: two_digits_def pad_zero_length decimal_digits)

lemma plain_digits: "list_all is_ascii_digit s \<Longrightarrow> s \<noteq> [] \<Longrightarrow> plain s"
  by (auto simp: plain_def list_all_iff is_ascii_digit_def is_ascii_whitespace_def)

section \<open>Dates with a zone\<close>

lemma split_char_word: "c \<notin> set w \<Longrightarrow> split_char c w = [w]"
  by (induction w) auto

lemma split_char_cons: "c \<notin> set w \<Longrightarrow> split_char c (w @ c # s) = w # split_char c s"
  by (induction w) auto

lemma clock_time_text:
  assumes "h < 100" "m < 100" "s < 100"
  shows "clock_time (pad_zero 2 h @ '':'' @ pad_zero 2 m @ '':'' @ pad_zero 2 s) = Some (h, m, s)"
proof -
  have colon: "CHR '':'' \<notin> set (pad_zero 2 n)" for n
    by (rule digit_neq [OF pad_zero_digits(1)]) (simp add: is_ascii_digit_def)
  have "split_char (CHR '':'') (pad_zero 2 h @ '':'' @ pad_zero 2 m @ '':'' @ pad_zero 2 s)
      = [pad_zero 2 h, pad_zero 2 m, pad_zero 2 s]"
    by (simp only: append_Cons append_Nil split_char_cons [OF colon] split_char_word [OF colon])
  then show ?thesis
    unfolding clock_time_def by (simp only: list.case two_digits_pad [OF assms(1)] two_digits_pad [OF assms(2)]
        two_digits_pad [OF assms(3)] Option.bind.simps) simp
qed

lemma eq_ignore_length: "eq_ignore_ascii_case a b \<Longrightarrow> length a = length b"
  unfolding eq_ignore_ascii_case_def by (rule map_eq_imp_length_eq)

lemma zone_length: "(name, hours) \<in> set ZONES \<Longrightarrow> length name \<le> 3"
  by (auto simp: ZONES_def)

lemma offset_text:
  assumes "h < 24" "m < 60" "c = CHR ''+'' \<or> c = CHR ''-''"
  shows "timezone_offset (c # pad_zero 4 (100 * h + m))
    = Some (if c = CHR ''+'' then int (3600 * h + 60 * m) else - int (3600 * h + 60 * m))"
proof -
  have small: "100 * h + m < 10 ^ 4" using assms by simp
  have len: "length (pad_zero 4 (100 * h + m)) = 4" using pad_zero_length [OF _ small] by simp
  have none: "List.find (\<lambda>(name, _). eq_ignore_ascii_case (c # pad_zero 4 (100 * h + m)) name) ZONES = None"
    using len zone_length by (fastforce simp: find_None_iff dest: eq_ignore_length)
  have dec: "decimal (pad_zero 4 (100 * h + m)) = Some (100 * h + m)"
    using pad_zero_digits [of 4 "100 * h + m"] small by (simp add: decimal_digits)
  have "(100 * h + m) div 100 = h" "(100 * h + m) mod 100 = m" using assms by simp_all
  then show ?thesis using assms none len dec by (auto simp: timezone_offset_def Let_def)
qed

lemma offset_plain: "c = CHR ''+'' \<or> c = CHR ''-'' \<Longrightarrow> plain (c # pad_zero w n)"
proof -
  assume c: "c = CHR ''+'' \<or> c = CHR ''-''"
  have "plain (pad_zero w n)" by (rule plain_digits [OF pad_zero_digits(1) pad_zero_digits(3)])
  moreover have "\<not> is_ascii_whitespace c" using c by (auto simp: is_ascii_whitespace_def)
  ultimately show ?thesis by (simp add: plain_def)
qed

lemma months_plain: "list_all plain MONTHS"
  by (simp add: MONTHS_def plain_def is_ascii_whitespace_def)

lemma months_canonical: "list_all (\<lambda>m. canonical m MONTHS = Some m) MONTHS"
  by (simp add: MONTHS_def canonical_def eq_ignore_ascii_case_def ascii_lower_def)

lemma weekdays_canonical: "list_all (\<lambda>w. canonical w WEEKDAYS = Some w) WEEKDAYS"
  by (simp add: WEEKDAYS_def canonical_def eq_ignore_ascii_case_def ascii_lower_def)

lemma weekdays_trim: "list_all (\<lambda>w. str_trim w = w \<and> CHR '','' \<notin> set w) WEEKDAYS"
  by (simp add: WEEKDAYS_def str_trim_def str_trim_end_def utf8_width_def is_whitespace_def)

lemma plain_clock: "plain (pad_zero 2 h @ '':'' @ pad_zero 2 m @ '':'' @ pad_zero 2 s)"
proof -
  have "plain (pad_zero 2 n)" for n by (rule plain_digits [OF pad_zero_digits(1) pad_zero_digits(3)])
  then show ?thesis by (simp add: plain_def is_ascii_whitespace_def)
qed

lemma month_facts: "m \<in> set MONTHS \<Longrightarrow> plain m" "m \<in> set MONTHS \<Longrightarrow> canonical m MONTHS = Some m"
  using months_plain months_canonical by (auto simp: list_all_iff)

lemma weekday_facts:
  "w \<in> set WEEKDAYS \<Longrightarrow> canonical (str_trim w) WEEKDAYS = Some w" "w \<in> set WEEKDAYS \<Longrightarrow> CHR '','' \<notin> set w"
  using weekdays_canonical weekdays_trim by (auto simp: list_all_iff)

lemma name_letters:
  "w \<in> set WEEKDAYS \<union> set MONTHS \<Longrightarrow> w \<noteq> [] \<and> is_ascii w \<and> \<not> is_whitespace (of_char (hd w))
     \<and> \<not> is_ascii_digit (hd w) \<and> hd w \<noteq> CHR ''+'' \<and> CHR ''('' \<notin> set w"
proof -
  have "list_all (\<lambda>w. w \<noteq> [] \<and> is_ascii w \<and> \<not> is_whitespace (of_char (hd w)) \<and> \<not> is_ascii_digit (hd w)
      \<and> hd w \<noteq> CHR ''+'' \<and> CHR ''('' \<notin> set w) (WEEKDAYS @ MONTHS)"
    by (simp add: WEEKDAYS_def MONTHS_def is_ascii_def is_whitespace_def is_ascii_digit_def)
  then show "w \<in> set WEEKDAYS \<union> set MONTHS \<Longrightarrow> w \<noteq> [] \<and> is_ascii w \<and> \<not> is_whitespace (of_char (hd w))
     \<and> \<not> is_ascii_digit (hd w) \<and> hd w \<noteq> CHR ''+'' \<and> CHR ''('' \<notin> set w"
    by (auto simp: list_all_iff)
qed

lemma compatible_year_pad: "y < 10000 \<Longrightarrow> compatible_year (pad_zero 4 y) = Some y"
  using pad_zero_digits [of 4 y] by (simp add: compatible_year_def decimal_digits pad_zero_length)

text \<open>The text of a date in a zone: the fields of \<open>date_text\<close> with an offset instead of \<open>GMT\<close>.\<close>

definition zoned_text :: "string \<Rightarrow> nat \<Rightarrow> string \<Rightarrow> nat \<Rightarrow> nat \<Rightarrow> nat \<Rightarrow> nat \<Rightarrow> char \<Rightarrow> nat \<Rightarrow> nat \<Rightarrow> string" where
  "zoned_text weekday day month year hour minute second sign zone_hours zone_minutes =
     weekday @ '', '' @ pad_zero 2 day @ '' '' @ month @ '' '' @ pad_zero 4 year @ '' '' @ (pad_zero 2 hour @ '':''
       @ pad_zero 2 minute @ '':'' @ pad_zero 2 second) @ '' '' @ (sign # pad_zero 4 (100 * zone_hours + zone_minutes))"

lemma zoned_fields:
  assumes "month \<in> set MONTHS" "sign = CHR ''+'' \<or> sign = CHR ''-''"
  shows "split_ascii_whitespace (drop (length weekday + 1)
      (zoned_text weekday day month year hour minute second sign zone_hours zone_minutes))
    = [pad_zero 2 day, month, pad_zero 4 year, pad_zero 2 hour @ '':'' @ pad_zero 2 minute @ '':'' @ pad_zero 2 second,
       sign # pad_zero 4 (100 * zone_hours + zone_minutes)]"
proof -
  have number: "plain (pad_zero w n)" for w n by (rule plain_digits [OF pad_zero_digits(1) pad_zero_digits(3)])
  have "drop (length weekday + 1) (zoned_text weekday day month year hour minute second sign zone_hours zone_minutes)
      = CHR '' '' # pad_zero 2 day @ '' '' @ month @ '' '' @ pad_zero 4 year @ '' ''
        @ (pad_zero 2 hour @ '':'' @ pad_zero 2 minute @ '':'' @ pad_zero 2 second) @ '' ''
        @ (sign # pad_zero 4 (100 * zone_hours + zone_minutes))"
    by (simp add: zoned_text_def)
  then show ?thesis
    by (simp only: fields_space fields_cons [OF number] fields_cons [OF month_facts(1) [OF assms(1)]]
        fields_cons [OF plain_clock] fields_last [OF offset_plain [OF assms(2)]])
qed

lemma zoned_date:
  assumes "weekday \<in> set WEEKDAYS" "month \<in> set MONTHS" "day < 100" "1970 \<le> year" "year < 10000"
    and "hour < 100" "minute < 100" "second < 100" "sign = CHR ''+'' \<or> sign = CHR ''-''" "zone_hours < 24" "zone_minutes < 60"
    and range: "\<And>v t. parse_http_date v = Some t \<Longrightarrow> wall_time_ok t"
  shows "parse_compatible_date parse_http_date
      (zoned_text weekday day month year hour minute second sign zone_hours zone_minutes)
    = Option.bind (parse_http_date (date_text weekday day month year hour minute (if second = 60 then 59 else second)))
        (\<lambda>t. Option.bind (wall_checked_add t (from_secs (if second = 60 then 1 else 0)))
          (\<lambda>t. (if sign = CHR ''+'' \<or> 3600 * zone_hours + 60 * zone_minutes = 0 then wall_checked_sub else wall_checked_add)
             t (from_secs (3600 * zone_hours + 60 * zone_minutes))))"
proof -
  let ?v = "zoned_text weekday day month year hour minute second sign zone_hours zone_minutes"
  let ?rest = "drop (length weekday + 1) ?v"
  let ?off = "3600 * zone_hours + 60 * zone_minutes"
  have number: "c \<notin> set (pad_zero w n)" if "\<not> is_ascii_digit c" for c w n
    using that by (rule digit_neq [OF pad_zero_digits(1)])
  have "CHR ''('' \<notin> set ?v"
    using name_letters [of weekday] name_letters [of month] assms(1,2,9) number
    by (auto simp: zoned_text_def is_ascii_digit_def)
  then have comment: "without_simple_comment ?v = Some ?v"
    by (simp add: without_simple_comment_def split_once_char_None)
  have "?v = weekday @ CHR '','' # ?rest" by (simp add: zoned_text_def)
  then have "split_once '','' ?v = Some (weekday, ?rest)"
    using split_once_char [of "CHR '',''" weekday ?rest] weekday_facts(2) [OF assms(1)] by simp
  then have start: "parse_compatible_date parse_http_date ?v
      = parse_date_fields parse_http_date (Some weekday) (split_ascii_whitespace ?rest)"
    by (simp only: parse_compatible_date_def comment Option.bind.simps option.case weekday_facts(1) [OF assms(1)]
        option.map prod.case)
  have len: "length (pad_zero 2 day) = 2" using assms(3) by (simp add: pad_zero_length)
  have dec: "decimal (pad_zero 2 day) = Some day" using pad_zero_digits [of 2 day] assms(3) by (simp add: decimal_digits)
  have keep: "wall_checked_sub t (from_secs 0) = Some t" if "wall_time_ok t" for t
    using that by (simp add: wall_checked_sub_def from_secs_def)
  have local: "Option.bind (parse_http_date d) (\<lambda>t. Option.bind (wall_checked_sub t (from_secs 0)) f)
      = Option.bind (parse_http_date d) f" for d f
    using keep range by (cases "parse_http_date d") auto
  have offset: "timezone_offset (sign # pad_zero 4 (100 * zone_hours + zone_minutes))
      = Some (if sign = CHR ''+'' then int ?off else - int ?off)"
    by (rule offset_text [OF assms(10,11,9)])
  have magnitude: "nat \<bar>if sign = CHR ''+'' then int ?off else - int ?off\<bar> = ?off" by (cases "sign = CHR ''+''") simp_all
  have "(0 \<le> (if b then int n else - int n)) = (b \<or> n = 0)" for b n by simp
  then have direction: "(0 \<le> (if sign = CHR ''+'' then int ?off else - int ?off)) = (sign = CHR ''+'' \<or> ?off = 0)" .
  show ?thesis
    unfolding start zoned_fields [OF assms(2,9)] parse_date_fields_def list.case
    unfolding len dec month_facts(2) [OF assms(2)] compatible_year_pad [OF assms(5)] clock_time_text [OF assms(6-8)]
      offset Option.bind.simps prod.case Let_def magnitude direction
    using assms(4) by (simp add: local if_distribR)
qed

lemma zoned_trim:
  assumes "weekday \<in> set WEEKDAYS" "month \<in> set MONTHS" "sign = CHR ''+'' \<or> sign = CHR ''-''"
  shows "str_trim (zoned_text weekday day month year hour minute second sign zone_hours zone_minutes)
      = zoned_text weekday day month year hour minute second sign zone_hours zone_minutes" (is ?trim)
    and "parse_unsigned n (zoned_text weekday day month year hour minute second sign zone_hours zone_minutes) = None" (is ?parse)
proof -
  let ?v = "zoned_text weekday day month year hour minute second sign zone_hours zone_minutes"
  have ascii: "is_ascii (pad_zero w n)" for w n by (rule ascii_digits [OF pad_zero_digits(1)])
  have "is_ascii ?v"
    using name_letters [of weekday] name_letters [of month] assms ascii by (auto simp: zoned_text_def is_ascii_def)
  moreover have first: "?v \<noteq> []" "hd ?v = hd weekday" using name_letters [of weekday] assms(1) by (auto simp: zoned_text_def)
  moreover have "last ?v \<in> set (pad_zero 4 (100 * zone_hours + zone_minutes))"
    using pad_zero_digits(3) [of 4] by (simp add: zoned_text_def)
  then have "is_ascii_digit (last ?v)" using pad_zero_digits(1) by (auto simp: list_all_iff)
  ultimately show ?trim
    using name_letters [of weekday] assms(1) by (intro trim_ascii) (auto simp: digit_not_whitespace)
  show ?parse
    using first name_letters [of weekday] assms(1) by (cases ?v) (auto simp: parse_unsigned_def)
qed

lemma shifted:
  assumes "wall_time_ok (t + (if b then - 1 else 1) * int (from_secs n))"
  shows "(if b \<or> n = 0 then wall_checked_sub else wall_checked_add) t (from_secs n)
    = Some (t + (if b then - 1 else 1) * int (from_secs n))"
  using assms by (cases "n = 0"; cases b) (simp_all add: wall_checked_sub_def wall_checked_add_def from_secs_def)

section \<open>Properties\<close>

text \<open>A \<open>Retry-After\<close> header is read in both of its forms. A number of seconds gives exactly that delay, up to
  the largest \<open>u64\<close>. A date in a numeric zone, which \<open>httpdate\<close> rejects, gives the delay until the instant that
  \<open>httpdate\<close> reads from the same fields in \<open>GMT\<close>, moved by the zone's offset; a leap second is the second after
  the 59th, and a date in the past gives no delay.\<close>

theorem retry_after_reads_seconds_and_dates:
  assumes "hm_get H headers ''retry-after'' = Some value"
    and "\<And>v t. parse_http_date v = Some t \<Longrightarrow> wall_time_ok t"
  shows "(hv_str value = Some (show_nat n) \<and> n < 2 ^ 64
        \<longrightarrow> parse_retry_after_at parse_http_date H headers now = Some (n * NANOS_PER_SEC))
    \<and> (v = zoned_text weekday day month year hour minute second sign zone_hours zone_minutes \<and> hv_str value = Some v
        \<and> parse_http_date v = None \<and> weekday \<in> set WEEKDAYS \<and> month \<in> set MONTHS \<and> day < 100 \<and> 1970 \<le> year
        \<and> year < 10000 \<and> hour < 100 \<and> minute < 100 \<and> second < 100 \<and> (sign = CHR ''+'' \<or> sign = CHR ''-'')
        \<and> zone_hours < 24 \<and> zone_minutes < 60
        \<and> parse_http_date (date_text weekday day month year hour minute (if second = 60 then 59 else second)) = Some t
        \<and> shift = (if sign = CHR ''+'' then - 1 else 1) * int ((3600 * zone_hours + 60 * zone_minutes) * NANOS_PER_SEC)
        \<and> leap = (if second = 60 then int NANOS_PER_SEC else 0) \<and> wall_time_ok (t + leap) \<and> wall_time_ok (t + leap + shift)
        \<longrightarrow> parse_retry_after_at parse_http_date H headers now = Some (nat (t + leap + shift - now)))"
    (is "?seconds \<and> (?date \<longrightarrow> ?delay)")
proof
  show ?seconds
    using assms(1) show_nat_digits [of n] parse_show [of n "2 ^ 64 - 1"]
    by (auto simp: parse_retry_after_at_def Let_def trim_digits from_secs_def)
  show "?date \<longrightarrow> ?delay"
  proof
    let ?off = "3600 * zone_hours + 60 * zone_minutes"
    assume date: ?date
    then have v: "v = zoned_text weekday day month year hour minute second sign zone_hours zone_minutes"
      and names: "weekday \<in> set WEEKDAYS" "month \<in> set MONTHS"
      and bounds: "day < 100" "1970 \<le> year" "year < 10000" "hour < 100" "minute < 100" "second < 100"
        "sign = CHR ''+'' \<or> sign = CHR ''-''" "zone_hours < 24" "zone_minutes < 60"
      and t: "parse_http_date (date_text weekday day month year hour minute (if second = 60 then 59 else second)) = Some t"
      and ok: "wall_time_ok (t + leap + shift)"
      by blast+
    have shift: "shift = (if sign = CHR ''+'' then - 1 else 1) * int (from_secs ?off)"
      unfolding from_secs_def using date by blast
    have leap: "wall_checked_add t (from_secs (if second = 60 then 1 else 0)) = Some (t + leap)"
      using date by (auto simp: wall_checked_add_def from_secs_def split: if_split_asm)
    have move: "(if sign = CHR ''+'' \<or> ?off = 0 then wall_checked_sub else wall_checked_add) (t + leap) (from_secs ?off)
        = Some (t + leap + shift)"
      unfolding shift using ok by (intro shifted) (simp only: shift)
    have "parse_compatible_date parse_http_date v = Some (t + leap + shift)"
      unfolding v by (rule trans [OF zoned_date [OF names bounds assms(2)]]) (simp_all only: t Option.bind.simps leap move)
    then show ?delay
      using assms(1) date zoned_trim [OF names bounds(7)] unfolding v
      by (simp add: parse_retry_after_at_def Let_def or_option_def)
  qed
qed

definition example_date :: string where
  "example_date = zoned_text ''Mon'' 5 ''Jan'' 2026 9 30 60 (CHR ''+'') 2 0"

definition example_http_date :: "string \<Rightarrow> wall_time option" where
  "example_http_date v = (if last v = CHR ''T'' then Some 0 else None)"

definition example_headers :: "header_value header_lib" where
  "example_headers = \<lparr>hm_get = (\<lambda>h n. Some h), hm_get_all = (\<lambda>h n. [h]), hm_keys = (\<lambda>h. [''retry-after'']),
     hm_iter = (\<lambda>h. [(''retry-after'', h)]), hm_remove = (\<lambda>h n. h), hm_append = (\<lambda>h n v. h),
     hm_new = \<lparr>hv_str = None, hv_sensitive = False\<rparr>\<rparr>"

theorem retry_after_reads_seconds_and_dates_witness:
  "parse_retry_after_at example_http_date example_headers \<lparr>hv_str = Some (show_nat 120), hv_sensitive = False\<rparr> 0
     = Some (120 * NANOS_PER_SEC)
   \<and> parse_retry_after_at example_http_date example_headers \<lparr>hv_str = Some example_date, hv_sensitive = False\<rparr>
       (- 7209 * int NANOS_PER_SEC) = Some (10 * NANOS_PER_SEC)"
proof -
  have get: "hm_get example_headers h ''retry-after'' = Some h" for h by (simp add: example_headers_def)
  have range: "wall_time_ok t" if "example_http_date v = Some t" for v t
    using that by (auto simp: example_http_date_def wall_time_ok_def NANOS_PER_SEC_def split: if_split_asm)
  have "last example_date \<in> set (pad_zero 4 (100 * 2 + 0))"
    using pad_zero_digits(3) [of 4] by (simp add: example_date_def zoned_text_def)
  then have "is_ascii_digit (last example_date)" using pad_zero_digits(1) by (auto simp: list_all_iff)
  then have none: "example_http_date example_date = None" by (auto simp: example_http_date_def is_ascii_digit_def)
  have some: "example_http_date (date_text ''Mon'' 5 ''Jan'' 2026 9 30 (if (60::nat) = 60 then 59 else 60)) = Some 0"
    by (simp add: example_http_date_def date_text_def)
  have names: "''Mon'' \<in> set WEEKDAYS" "''Jan'' \<in> set MONTHS" by (simp_all add: WEEKDAYS_def MONTHS_def)
  have seconds: "parse_retry_after_at example_http_date example_headers \<lparr>hv_str = Some (show_nat 120), hv_sensitive = False\<rparr> 0
      = Some (120 * NANOS_PER_SEC)"
    by (rule retry_after_reads_seconds_and_dates [OF get range, THEN conjunct1, THEN mp]) simp_all
  have "parse_retry_after_at example_http_date example_headers \<lparr>hv_str = Some example_date, hv_sensitive = False\<rparr>
      (- 7209 * int NANOS_PER_SEC) = Some (nat (0 + int NANOS_PER_SEC
        + (if CHR ''+'' = CHR ''+'' then - 1 else 1) * int ((3600 * 2 + 60 * 0) * NANOS_PER_SEC) - - 7209 * int NANOS_PER_SEC))"
    by (rule retry_after_reads_seconds_and_dates [where v = example_date
          and weekday = "''Mon''" and day = 5 and month = "''Jan''" and year = 2026 and hour = 9 and minute = 30
          and second = 60 and sign = "CHR ''+''" and zone_hours = 2 and zone_minutes = 0 and t = 0,
          OF get range, THEN conjunct2, THEN mp])
      (use none some names in \<open>simp_all add: example_date_def [symmetric] wall_time_ok_def NANOS_PER_SEC_def\<close>)
  also have "\<dots> = Some (10 * NANOS_PER_SEC)" by (simp add: NANOS_PER_SEC_def)
  finally show ?thesis using seconds by blast
qed

end
