(* ===== verification/Http_Attempts.thy ===== *)
theory Http_Attempts
  imports Http_Redirect Retry_After
begin

text \<open>
  One buffered request and its retries: \<open>build_request\<close>, \<open>read_response\<close>, \<open>run_request\<close> and the functions they call in
  \<open>src/module/http/http_client_inner.rs\<close>, with \<open>HttpResponse\<close> of \<open>src/api/http/http_response.rs\<close> and the methods of
  \<open>src/api/http/http_request_method.rs\<close>.

  What the environment decides is an argument: the values the caller's request object returns, the answers of the
  HTTP library, the readings of the clock and of the cancellation phase, whether a wait was ended by its timer, and
  the chunks of a body. The number of rounds of the retry loop is bounded by fuel; the result \<open>None\<close> is a loop that
  has not ended, and the lemmas show that as many rounds as the schedule has attempts are enough.
\<close>

section \<open>Methods and responses\<close>





section \<open>Building a request\<close>


section \<open>Reading the body\<close>




section \<open>One attempt\<close>







section \<open>After an attempt\<close>













section \<open>The retry loop\<close>





section \<open>A request\<close>





section \<open>What an attempt returns\<close>










section \<open>How a request ends\<close>
























section \<open>Properties\<close>







end
