(* ===== verification/Http_Delivery.thy ===== *)
theory Http_Delivery
  imports Http_Attempts
begin

unbundle bit_operations_syntax

text \<open>
  The end of a buffered request: \<open>process_job\<close> and \<open>run_callback\<close> of \<open>src/module/http/http_client_inner.rs\<close>, from the job that a
  worker takes out of the request queue to the completion that the caller's handle waits for. The queues between the
  two functions only hand the result on. Whether a callback of the caller unwinds is an argument, and so are the
  bits of the cancellation phase that other threads set before the callback is entered and the registry as the other requests have left it by then. An
  unwinding getter of the caller's request is not modelled.

  The lemmas show that a request keeps quiet until it is delivered: before that its observer sees starts and retries
  only, and no completion is announced.
\<close>

section \<open>Delivering a result\<close>






section \<open>A request is quiet until it is delivered\<close>

text \<open>What an attempt changes of its signal is the number of transport sends.\<close>

definition only_sends :: "cancellation_signal \<Rightarrow> cancellation_signal \<Rightarrow> bool" where
  "only_sends s s' \<longleftrightarrow> s' = s\<lparr>sig_transport_sends := sig_transport_sends s'\<rparr>"

lemma only_sends_refl [simp]: "only_sends s s"
  by (simp add: only_sends_def)









text \<open>Before the delivery the observer is told of starts, ends and retries of attempts; what remains to be told is kept in the
  signal, exactly when the lifecycle has been completed and there is an observer.\<close>

definition silent :: "http_effect list \<Rightarrow> bool" where
  "silent es \<longleftrightarrow> (\<forall>x \<in> set es. \<exists>obs ev. x = H_Notify obs ev \<and> (\<forall>r. ev \<noteq> Event_Completed r))"



lemma silent_append [simp]: "silent (xs @ ys) \<longleftrightarrow> silent xs \<and> silent ys"
  by (auto simp: silent_def)


lemma stop_keeps: "lc_observer (lifecycle_stop r lc) = lc_observer lc"
  by (simp add: lifecycle_stop_def)












section \<open>Properties\<close>

text \<open>The terminal events that a list of effects shows to an observer, and the references to permits it drops.\<close>

fun terminal_events :: "http_effect list \<Rightarrow> (http_observer \<times> retry_report) list" where
  "terminal_events [] = []"
| "terminal_events (H_Notify obs (Event_Completed r) # es) = (obs, r) # terminal_events es"
| "terminal_events (_ # es) = terminal_events es"

fun dropped_permits :: "http_effect list \<Rightarrow> http_permit list" where
  "dropped_permits [] = []"
| "dropped_permits (H_DropPermit p # es) = p # dropped_permits es"
| "dropped_permits (_ # es) = dropped_permits es"

lemma effects_append [simp]:
  "terminal_events (xs @ ys) = terminal_events xs @ terminal_events ys"
  "dropped_permits (xs @ ys) = dropped_permits xs @ dropped_permits ys"
  by (induction xs rule: terminal_events.induct; simp) (induction xs rule: dropped_permits.induct; simp)















end
