(* ===== verification/Spec2Isabelle.thy ===== *)
theory Spec2Isabelle
  imports Retry_State Pending_History Queue_History Heartbeat Http_Delivery
begin

text \<open>
  \<^bold>\<open>open-net: a verification library.\<close>

  \<^bold>\<open>The program\<close> is a Rust networking SDK; paths below are relative to the root of its repository. Its WebSocket client accepts sends and requests, gives each
  an operation that settles on one result, queues them by priority, writes them, correlates requests with responses in a
  table with deadlines, and watches the connection with heartbeats. Its HTTP client admits a request into a registry,
  runs its attempts under budgets of time, follows redirects, repeats attempts as a retry policy allows, and delivers one
  result to the caller's callback and one completion to the caller's handle. Both share the retry library
  (\<open>libs/retry\<close>), the error type and cancellation. The rest of the repository is network-status monitoring,
  connection quality, logging, thread pools and the asynchronous I/O that drives these parts.

  \<^bold>\<open>Conventions.\<close> Pure functions are functions; a method that changes its object takes it and returns it changed. A
  structure is a record, an enumeration a datatype, \<open>Result\<close> is a sum with the error on the left. Integers of a fixed
  width are words wherever they can wrap or saturate; \<open>usize\<close> is \<open>nat\<close> with the platform's bound as an argument.
  Instants and durations are nanoseconds as natural numbers, with the largest instant written out. Objects shared by
  \<open>Arc\<close> are identities in a store. What a critical section does after it released its lock (publications, sends on
  channels, wake-ups, dropped references) is a list of effects in the order of the code. Readings of the clock, answers
  of sockets and libraries, allocation failures, interleavings of other threads and random seeds are arguments, so that a
  theorem holds for every value of them. Poisoned locks are flags of the state. The modelled build has the features
  \<open>ws-client\<close> and \<open>http-client\<close> and none of \<open>quality-doctor\<close>, authentication, cookies, middleware, HTTP/2 settings and
  content codecs.

  \<^bold>\<open>Theories, in the order of their imports.\<close>

  \<^descr> \<open>Prelude\<close>, \<open>Machine\<close>, \<open>Assoc_Lists\<close>, \<open>Rust_Str\<close>: types, collections of rules and lemmas that the components share;
    the contracts \<open>machine\<close>, \<open>latch\<close> and \<open>progress\<close> of components driven by sequences of calls, which the theories below
    interpret on their own definitions; association lists for hash maps; the operations on strings.

  \<^descr> \<open>Float64\<close>, \<open>Retry_Backoff\<close>, \<open>Retry_State\<close>: \<open>libs/retry/src\<close>. Arithmetic on \<open>f64\<close> is exact rounding of real
    numbers; \<open>ln\<close> and \<open>powf\<close> are arguments. Delays exist for every retry of a built schedule, never exceed its maximum,
    are sampled once per attempt, and attempts never exceed their bound.

  \<^descr> \<open>Net_Error\<close>, \<open>Ws_Message\<close>, \<open>Ws_Retry\<close>, \<open>Ws_Operation\<close>, \<open>Ws_Config\<close>: errors (\<open>src/api/error\<close>) and the values and
    configuration of the WebSocket client (\<open>src/api/ws\<close>) with their validation: what is accepted, and that the timeout
    phase of an error survives its wrapping.

  \<^descr> \<open>Cancel_Domain\<close>: \<open>src/api/ws/cancellation.rs\<close>, the tree of cancellation groups over an explicit store with
    reference counts. Cancelling reaches exactly the subtree, and groups created below a cancelled one are cancelled.

  \<^descr> \<open>Operation_Control\<close>: \<open>src/module/ws_client/operation_control.rs\<close>, the state of one operation, every method that
    changes it, and histories of their calls by any number of threads, from every way of constructing an operation. It
    settles once, publishes exactly its result, its delivery evidence never regresses, an admitted write is never
    reported as unsent, and a raw retry is granted only where it is safe.

  \<^descr> \<open>Native_Pending\<close>, \<open>Pending_Laws\<close>, \<open>Pending_Machine\<close>, \<open>Pending_History\<close>: \<open>src/module/ws_client/native_pending.rs\<close>
    with \<open>src/api/ws/request_control.rs\<close> and \<open>src/api/ws/routing.rs\<close>, the table of pending requests over the store of
    operations. The invariant relates an entry to its operation; every call accounts for the requests it removes. Over
    whole histories every request is answered once and with its operation's result, and its reference to the lease of
    its slot is dropped once; the lease itself counts its owners and returns its slot once. Closing is complete and
    final, stale registrations are inert, and the timer neither sleeps past a deadline nor leaves requests behind when
    it ends.

  \<^descr> \<open>Queued_Request\<close>, \<open>Indexed_Heap\<close>, \<open>Write_Queue\<close>, \<open>Queue_Laws\<close>, \<open>Queue_History\<close>: \<open>src/module/ws_client/write\<close>.
    The indexed binary heap refines a map from tokens to requests (the contract \<open>request_heap\<close>), is always valid by the
    source's own check, and pops by priority and then by sequence. The queue accounts for every accepted request, a
    writer takes the most urgent eligible one, a closed queue accepts nothing, and draining completes everything and
    returns every permit.

  \<^descr> \<open>Heartbeat\<close>: \<open>src/module/ws_client/heartbeat_state.rs\<close> and \<open>heartbeat_schedule.rs\<close>. Payloads of earlier probes and
    of other connections are inert, and the four computations of the Pong deadline agree.

  \<^descr> \<open>Http_Timeouts\<close>, \<open>Http_Policy\<close>, \<open>Retry_After\<close>, \<open>Http_Config\<close>: timeouts and budgets, redirect and retry policies,
    the \<open>Retry-After\<close> header, and the client's configuration with TLS inputs and proxies (\<open>src/api/http\<close>,
    \<open>src/module/http/http_timeout.rs\<close>, \<open>http_failure.rs\<close>, \<open>retry_after.rs\<close>, \<open>src/module/tls.rs\<close>). A budget is the
    earliest of its phases in any order; what a request sends stays within the validated configuration; a header with
    seconds or with a date in a numeric zone gives the delay it says.

  \<^descr> \<open>Http_Request\<close>: the cancellation signal, the registry, the observer of retries and the completion lease of
    \<open>src/module/http/http_client_inner.rs\<close> and \<open>request_completion.rs\<close>. The identity search ends; the threads that cancel
    a request are ordered with the callback and the publication by one atomic phase, whose steps are those of
    \<open>request_cancel\<close>, \<open>enter_callback\<close> and \<open>publish_completion\<close>; a lease publishes once, after it gave up its resources.

  \<^descr> \<open>Http_Redirect\<close>, \<open>Http_Attempts\<close>, \<open>Http_Delivery\<close>: \<open>src/module/http/response_hops.rs\<close> and \<open>run_request\<close>,
    \<open>process_job\<close> and \<open>run_callback\<close> of \<open>http_client_inner.rs\<close>, a buffered request from the worker's queue to its
    completion. Redirects stay within the policy and drop credentials at a change of origin; a request ends within its
    attempts; it is delivered exactly once, and its permit and registration are given up before that is announced.

  \<^descr> This theory: the properties that relate the client's configuration to the queues built from it.

  \<^bold>\<open>Libraries.\<close> URLs, header maps, certificates, the HTTP client and \<open>httpdate\<close> are records of operations or functions
  that the definitions take as arguments. What a theorem needs of them is a named hypothesis: \<open>header_laws\<close> (a header map
  returns what was appended and not removed), \<open>answers_own_url\<close> (a response bears the URL of its request), \<open>body_ends\<close>
  (a stream of body chunks ends). The witnesses use concrete instances that satisfy them.

  \<^bold>\<open>Bounds and fuel.\<close> The loop of redirects runs over at most \<open>max_redirects + 1\<close> rounds, which the policy bounds. The
  retry loop of \<open>run_request\<close> takes fuel, and the theorem about it shows that one unit more than \<open>max_attempts\<close> is
  enough. The loop of \<open>request_cancel\<close> takes the list of its rounds, because a weak exchange may fail any number of
  times; the interleaving model has no such bound. The identity search, the loops over PEM blocks, the heap's sifting, the
  timer's passes and the tree's traversals are total functions with termination proofs.

  \<^bold>\<open>Not modelled.\<close> The asynchronous loops around the components: sockets, worker threads, callback executors, listeners and
  the streaming HTTP responses, whose behaviour is that of the runtime and the operating system; the optional features
  named above; network status, connection quality, subscriptions, logging and the thread pools; the public facades that
  only forward to the modelled parts. Memory ordering is not modelled: the atomics of the source are read and
  written in one total order per location. A callback of the caller is its result or its unwinding.
\<close>

section \<open>Properties that span components\<close>

text \<open>C19. An accepted client configuration builds both of its write queues, without losing a byte of the configured
  limit in the conversion to 32 bits: each queue charges every payload within the limit its exact size, at least one
  byte, and refuses every larger one; and the payload of every data frame fits the write buffer with its header.\<close>

theorem accepted_config_builds_its_queues:
  assumes "client_config_validate m reads conf = Inr ()"
    and "lane = normal (queues conf) \<or> lane = urgent (queues conf)"
  shows "\<exists>q. queue_new m (max_items lane) (max_bytes lane) = Inr q
    \<and> unat (q_max_bytes q) = max_bytes lane
    \<and> (\<forall>n. if n \<le> max_bytes lane
           then \<exists>charge. byte_count n q = Inr charge \<and> unat charge = max n 1
           else byte_count n q = Inl (from_kind K_ItemTooLarge))
    \<and> frame_payload_bound conf + MAX_CLIENT_FRAME_OVERHEAD \<le> max_write_buffer_size (frames conf)"
proof -
  have lim: "0 < max_items lane" "max_items lane \<le> m" "0 < max_bytes lane" "max_bytes lane \<le> m" "max_bytes lane \<le> U32_MAX"
    using accepted_config(1,2) [OF assms(1)] assms(2) by (auto simp: queue_limit_Inr)
  then have ok: "queue_limit_validate m \<lparr>max_items = max_items lane, max_bytes = max_bytes lane\<rparr> = Inr ()"
    by (simp add: queue_limit_validate_def queue_limit_Inr)
  then obtain q where q: "queue_new m (max_items lane) (max_bytes lane) = Inr q" "q_max_bytes q = of_nat (max_bytes lane)"
    by (auto simp: queue_new_def try_bind_def)
  have small: "unat (of_nat n :: u32) = n" if "n \<le> max_bytes lane" for n
    using that lim(5) by (simp add: U32_MAX_def unat_of_nat)
  have top: "unat (q_max_bytes q) = max_bytes lane" using small [of "max_bytes lane"] q(2) by simp
  have "if n \<le> max_bytes lane then \<exists>charge. byte_count n q = Inr charge \<and> unat charge = max n 1
      else byte_count n q = Inl (from_kind K_ItemTooLarge)" for n
  proof (cases "n \<le> max_bytes lane")
    case True
    then have "max n 1 \<le> max_bytes lane" using lim(3) by simp
    then have "byte_count n q = Inr (of_nat (max n 1))" unfolding byte_count_def Let_def top by (simp only: not_less [symmetric] if_False)
    then show ?thesis using True small [OF \<open>max n 1 \<le> max_bytes lane\<close>] by (simp only: if_True) blast
  next
    case False
    then show ?thesis unfolding byte_count_def Let_def top by simp
  qed
  then show ?thesis using q(1) top accepted_config(4) [OF assms(1)] by blast
qed

theorem accepted_config_builds_its_queues_witness:
  "client_config_validate (2 ^ 26) (\<lambda>_. 0) web_socket_client_config_default = Inr ()
   \<and> (\<exists>q. queue_new (2 ^ 26) 1024 (16 * 1024 * 1024) = Inr q \<and> unat (q_max_bytes q) = 16 * 1024 * 1024)"
proof -
  have ok: "client_config_validate (2 ^ 26) (\<lambda>_. 0) web_socket_client_config_default = Inr ()"
    by (rule default_config_accepted) (simp_all add: INSTANT_MAX_def NANOS_PER_SEC_def)
  show ?thesis
    using accepted_config_builds_its_queues [OF ok, of "normal (queues web_socket_client_config_default)"] ok
    by (auto simp: web_socket_client_config_default_def queue_limits_default_def)
qed

end
